(* ===== verification/Relayer_Prelude.thy ===== *)
theory Relayer_Prelude
  imports Main "HOL-Library.Word" "HOL-Library.AList" "HOL-Library.Sublist" "HOL-Library.Multiset"
begin

text \<open>
  Shared vocabulary of the development: the machine integers of the source, Rust's
  \<open>Result\<close> extended with the outcome "the thread panics", the parts of the standard
  library that several components use (\<open>saturating_add\<close>, \<open>chunks\<close>, \<open>any\<close> over a
  stateful predicate, \<open>HashMap\<close>), and two interfaces: \<open>hash_map\<close> (what a client may
  rely on of a \<open>HashMap\<close>) and \<open>event_loop\<close> (a \<open>while\<close>/\<open>select!\<close> loop whose arms keep an
  invariant).
\<close>

named_theorems rust_simps \<open>rewriting of the Rust result type and of standard library calls\<close>

section \<open>Machine integers, instants, results\<close>

type_synonym u8 = "8 word"
type_synonym u16 = "16 word"
type_synonym u32 = "32 word"
type_synonym u64 = "64 word"
type_synonym bytes = "8 word list"

text \<open>A \<open>Slot\<close> is a \<open>u64\<close>; a \<open>Pubkey\<close> is 32 bytes.\<close>

type_synonym slot = "64 word"
type_synonym pubkey = "256 word"

text \<open>
  An \<open>Instant\<close> or a \<open>Duration\<close> is a number of nanoseconds. \<open>Instant::elapsed\<close> saturates at
  zero, as subtraction on \<^typ>\<open>nat\<close> does.
\<close>

type_synonym instant = nat
type_synonym duration = nat

definition elapsed :: "instant \<Rightarrow> instant \<Rightarrow> duration" where
  "elapsed now since = now - since"

definition from_millis :: "nat \<Rightarrow> duration" where
  "from_millis ms = ms * 1000000"

definition from_secs :: "nat \<Rightarrow> duration" where
  "from_secs s = s * 1000000000"

definition as_micros_u64 :: "duration \<Rightarrow> u64" where
  "as_micros_u64 d = word_of_nat (d div 1000)"

text \<open>
  A computation ends with a value, with an error value, or by panicking (a failed
  \<open>assert!\<close>, \<open>unwrap\<close>, \<open>expect\<close> or an arithmetic panic).
\<close>

datatype ('a, 'e) result = Ok 'a | Err 'e | Panic

fun and_then :: "('a, 'e) result \<Rightarrow> ('a \<Rightarrow> ('b, 'e) result) \<Rightarrow> ('b, 'e) result" where
  "and_then (Ok a) f = f a"
| "and_then (Err e) f = Err e"
| "and_then Panic f = Panic"

fun map_err :: "('e \<Rightarrow> 'f) \<Rightarrow> ('a, 'e) result \<Rightarrow> ('a, 'f) result" where
  "map_err f (Ok a) = Ok a"
| "map_err f (Err e) = Err (f e)"
| "map_err f Panic = Panic"

definition unwrap :: "'a option \<Rightarrow> ('a, 'e) result" where
  "unwrap x = (case x of None \<Rightarrow> Panic | Some a \<Rightarrow> Ok a)"

definition ok_or :: "'a option \<Rightarrow> 'e \<Rightarrow> ('a, 'e) result" where
  "ok_or x e = (case x of None \<Rightarrow> Err e | Some a \<Rightarrow> Ok a)"

definition is_ok :: "('a, 'e) result \<Rightarrow> bool" where
  "is_ok r = (case r of Ok _ \<Rightarrow> True | _ \<Rightarrow> False)"

lemma and_then_eq_Ok [rust_simps]:
  "and_then r f = Ok b \<longleftrightarrow> (\<exists>a. r = Ok a \<and> f a = Ok b)"
  by (cases r) auto

lemma map_err_eq_Ok [rust_simps]: "map_err f r = Ok a \<longleftrightarrow> r = Ok a"
  by (cases r) auto

lemma unwrap_eq_Ok [rust_simps]: "unwrap x = Ok a \<longleftrightarrow> x = Some a"
  by (auto simp: unwrap_def split: option.splits)

lemma ok_or_eq_Ok [rust_simps]: "ok_or x e = Ok a \<longleftrightarrow> x = Some a"
  by (auto simp: ok_or_def split: option.splits)

text \<open>The single error of a closed crossbeam channel.\<close>

datatype recv_error = RecvError

text \<open>The gRPC statuses the services answer with.\<close>

datatype status =
    Internal string
  | InvalidArgument string
  | PermissionDenied string
  | ResourceExhausted string

subsection \<open>Saturating and checked arithmetic\<close>

definition saturating_add :: "'w::len word \<Rightarrow> 'w word \<Rightarrow> 'w word" where
  "saturating_add a b = (if unat a + unat b < 2 ^ LENGTH('w) then a + b else - 1)"

definition checked_add :: "'w::len word \<Rightarrow> 'w word \<Rightarrow> 'w word option" where
  "checked_add a b = (if unat a + unat b < 2 ^ LENGTH('w) then Some (a + b) else None)"

lemma unat_saturating_add:
  "unat (saturating_add a b) = min (unat a + unat b) (2 ^ LENGTH('w) - 1)"
  for a b :: "'w::len word"
proof (cases "unat a + unat b < 2 ^ LENGTH('w)")
  case True
  then show ?thesis
    by (simp add: saturating_add_def unat_word_ariths)
next
  case False
  then show ?thesis
    by (simp add: saturating_add_def unsigned_minus_1_eq_mask mask_eq_exp_minus_1)
qed

lemma saturating_add_mono: "a \<le> saturating_add a b"
  for a b :: "'w::len word"
proof -
  have "unat a < 2 ^ LENGTH('w)" by (rule unsigned_less)
  then have "unat a \<le> 2 ^ LENGTH('w) - 1" by linarith
  then show ?thesis by (simp add: word_le_nat_alt unat_saturating_add)
qed

lemma checked_add_eq_Some:
  "checked_add a b = Some c \<longleftrightarrow> unat c = unat a + unat b"
  for a b c :: "'w::len word"
proof
  assume "checked_add a b = Some c"
  then show "unat c = unat a + unat b"
    by (auto simp: checked_add_def unat_word_ariths split: if_splits)
next
  assume c: "unat c = unat a + unat b"
  then have lt: "unat a + unat b < 2 ^ LENGTH('w)"
    by (metis unsigned_less)
  then have "unat (a + b) = unat c"
    using c by (simp add: unat_word_ariths)
  then have "a + b = c" by (rule unsigned_word_eqI)
  with lt show "checked_add a b = Some c"
    by (simp add: checked_add_def)
qed

section \<open>Slices and iterators\<close>

text \<open>\<open>slice::chunks\<close> (which panics on size zero; callers write that check).\<close>

function chunks :: "nat \<Rightarrow> 'a list \<Rightarrow> 'a list list" where
  "chunks n xs = (if n = 0 \<or> xs = [] then [] else take n xs # chunks n (drop n xs))"
  by pat_completeness auto
termination
  by (relation "measure (\<lambda>(n, xs). length xs)") auto

declare chunks.simps [simp del]

lemma chunks_Nil [simp]: "chunks n [] = []"
  by (subst chunks.simps) simp

lemma concat_chunks: "0 < n \<Longrightarrow> concat (chunks n xs) = xs"
proof (induction n xs rule: chunks.induct)
  case (1 n xs)
  then show ?case
    by (cases "xs = []") (simp_all add: chunks.simps [of n xs])
qed

lemma chunks_sizes: "c \<in> set (chunks n xs) \<Longrightarrow> c \<noteq> [] \<and> length c \<le> n"
proof (induction n xs rule: chunks.induct)
  case (1 n xs)
  show ?case
  proof (cases "n = 0 \<or> xs = []")
    case True
    with "1.prems" show ?thesis by (simp add: chunks.simps [of n xs])
  next
    case False
    with 1 show ?thesis by (auto simp: chunks.simps [of n xs])
  qed
qed

lemma set_chunks_subset: "c \<in> set (chunks n xs) \<Longrightarrow> set c \<subseteq> set xs"
proof (induction n xs rule: chunks.induct)
  case (1 n xs)
  show ?case
  proof (cases "n = 0 \<or> xs = []")
    case True
    with "1.prems" show ?thesis by (simp add: chunks.simps [of n xs])
  next
    case False
    then have "c = take n xs \<or> c \<in> set (chunks n (drop n xs))"
      using "1.prems" by (simp add: chunks.simps [of n xs])
    with 1 False show ?thesis
      by (meson set_drop_subset set_take_subset subset_trans)
  qed
qed

text \<open>Summing the lengths of the inner lists, as \<open>map(|b| b.len() as u64).sum()\<close> does.\<close>

definition sum_len_u64 :: "'a list list \<Rightarrow> u64" where
  "sum_len_u64 bs = sum_list (map (\<lambda>b. word_of_nat (length b)) bs)"

text \<open>\<open>Iterator::any\<close> with a predicate that changes state (a cache that counts its hits).\<close>

fun any_st :: "('a \<Rightarrow> 's \<Rightarrow> bool \<times> 's) \<Rightarrow> 'a list \<Rightarrow> 's \<Rightarrow> bool \<times> 's" where
  "any_st f [] s = (False, s)"
| "any_st f (x # xs) s = (case f x s of (b, s') \<Rightarrow> if b then (True, s') else any_st f xs s')"

section \<open>HashMap\<close>

text \<open>
  A \<open>HashMap\<close> is the list of its entries in iteration order, with distinct keys. The order is
  unspecified in Rust: statements about a map quantify over every such list.
\<close>

type_synonym ('k, 'v) hmap = "('k \<times> 'v) list"

definition hm_get :: "('k, 'v) hmap \<Rightarrow> 'k \<Rightarrow> 'v option" where
  "hm_get m k = map_of m k"

definition hm_insert :: "'k \<Rightarrow> 'v \<Rightarrow> ('k, 'v) hmap \<Rightarrow> ('k, 'v) hmap" where
  "hm_insert k v m = AList.update k v m"

definition hm_remove :: "'k \<Rightarrow> ('k, 'v) hmap \<Rightarrow> ('k, 'v) hmap" where
  "hm_remove k m = AList.delete k m"

definition hm_keys :: "('k, 'v) hmap \<Rightarrow> 'k list" where
  "hm_keys m = map fst m"

definition hm_inv :: "('k, 'v) hmap \<Rightarrow> bool" where
  "hm_inv m \<longleftrightarrow> distinct (map fst m)"

text \<open>The interface a client of a map relies on, and the bulk operations built on it.\<close>

locale hash_map =
  fixes empty :: "'m"
    and get :: "'m \<Rightarrow> 'k \<Rightarrow> 'v option"
    and insert :: "'k \<Rightarrow> 'v \<Rightarrow> 'm \<Rightarrow> 'm"
    and remove :: "'k \<Rightarrow> 'm \<Rightarrow> 'm"
    and keys :: "'m \<Rightarrow> 'k list"
    and inv :: "'m \<Rightarrow> bool"
  assumes get_empty: "get empty = Map.empty"
    and inv_empty: "inv empty"
    and get_insert: "inv m \<Longrightarrow> get (insert k v m) = (get m)(k \<mapsto> v)"
    and inv_insert: "inv m \<Longrightarrow> inv (insert k v m)"
    and get_remove: "inv m \<Longrightarrow> get (remove k m) = (get m)(k := None)"
    and inv_remove: "inv m \<Longrightarrow> inv (remove k m)"
    and set_keys: "inv m \<Longrightarrow> set (keys m) = dom (get m)"
    and distinct_keys: "inv m \<Longrightarrow> distinct (keys m)"
begin

lemma inv_fold_remove: "inv m \<Longrightarrow> inv (fold remove ks m)"
  by (induction ks arbitrary: m) (simp_all add: inv_remove)

lemma get_fold_remove: "inv m \<Longrightarrow> get (fold remove ks m) = (get m) |` (- set ks)"
proof (induction ks arbitrary: m)
  case Nil
  then show ?case by simp
next
  case (Cons k ks)
  then show ?case
    by (auto simp: get_remove inv_remove restrict_map_def fun_eq_iff)
qed

lemma inv_fold_insert: "inv m \<Longrightarrow> inv (fold (\<lambda>(k, v). insert k v) kvs m)"
  by (induction kvs arbitrary: m) (auto simp: inv_insert)

lemma get_fold_insert:
  "inv m \<Longrightarrow> get (fold (\<lambda>(k, v). insert k v) kvs m) = get m ++ map_of (rev kvs)"
proof (induction kvs arbitrary: m)
  case Nil
  then show ?case by simp
next
  case (Cons kv kvs)
  then show ?case
    by (cases kv) (simp add: inv_insert get_insert map_add_upd_left [symmetric] map_add_def
        fun_eq_iff split: option.splits)
qed

end

interpretation hm: hash_map "[]" hm_get hm_insert hm_remove hm_keys hm_inv
proof unfold_locales
  show "hm_get [] = Map.empty" by (simp add: hm_get_def fun_eq_iff)
next
  show "hm_inv []" by (simp add: hm_inv_def)
next
  fix m :: "('k, 'v) hmap" and k v
  show "hm_get (hm_insert k v m) = (hm_get m)(k \<mapsto> v)"
    by (simp add: hm_get_def [abs_def] hm_insert_def update_conv')
next
  fix m :: "('k, 'v) hmap" and k v
  assume "hm_inv m"
  then show "hm_inv (hm_insert k v m)"
    by (simp add: hm_inv_def hm_insert_def distinct_update)
next
  fix m :: "('k, 'v) hmap" and k
  show "hm_get (hm_remove k m) = (hm_get m)(k := None)"
    by (simp add: hm_get_def [abs_def] hm_remove_def delete_conv')
next
  fix m :: "('k, 'v) hmap" and k
  assume "hm_inv m"
  then show "hm_inv (hm_remove k m)"
    by (simp add: hm_inv_def hm_remove_def distinct_delete)
next
  fix m :: "('k, 'v) hmap"
  show "set (hm_keys m) = dom (hm_get m)"
    by (simp add: hm_keys_def hm_get_def [abs_def] dom_map_of_conv_image_fst)
next
  fix m :: "('k, 'v) hmap"
  assume "hm_inv m"
  then show "distinct (hm_keys m)" by (simp add: hm_inv_def hm_keys_def)
qed

lemma hm_get_insert [simp]: "hm_get (hm_insert k v m) = (hm_get m)(k \<mapsto> v)"
  by (simp add: hm_get_def [abs_def] hm_insert_def update_conv')

lemma hm_get_empty [simp]: "hm_get [] k = None"
  by (simp add: hm_get_def)

lemma hm_get_in_keys: "hm_get m k = Some v \<Longrightarrow> k \<in> set (hm_keys m)"
  by (force simp: hm_get_def hm_keys_def dest: map_of_SomeD)

lemma hm_keys_insert_present: "k \<in> set (hm_keys m) \<Longrightarrow> hm_keys (hm_insert k v m) = hm_keys m"
  by (simp add: hm_keys_def hm_insert_def update_keys)

lemma hm_get_perm:
  assumes "hm_inv m" "mset m = mset m'"
  shows "hm_get m = hm_get m'"
proof -
  from assms(2) have "mset (map fst m) = mset (map fst m')" by (metis mset_map)
  with assms have "distinct (map fst m')" and "set m = set m'"
    by (metis hm_inv_def mset_eq_imp_distinct_iff) (metis assms(2) mset_eq_setD)
  with assms(1) have "map_of m = map_of m'"
    by (intro map_of_inject_set [THEN iffD2]) (simp_all add: hm_inv_def)
  then show ?thesis by (simp add: hm_get_def [abs_def])
qed

section \<open>Event loops\<close>

text \<open>
  \<open>while !exit \{ select! \{ ... \} \}\<close>: the list holds the events the loop serves before it sees
  the exit flag. An arm that returns an error or panics ends the loop.
\<close>

fun run_loop :: "('s \<Rightarrow> 'e \<Rightarrow> ('s, 'x) result) \<Rightarrow> 's \<Rightarrow> 'e list \<Rightarrow> ('s, 'x) result" where
  "run_loop step s [] = Ok s"
| "run_loop step s (e # es) = and_then (step s e) (\<lambda>s'. run_loop step s' es)"

lemma run_loop_append:
  "run_loop step s (es @ fs) = and_then (run_loop step s es) (\<lambda>s'. run_loop step s' fs)"
proof (induction es arbitrary: s)
  case Nil
  then show ?case by simp
next
  case (Cons e es)
  then show ?case by (cases "step s e") auto
qed

lemma run_loop_induct [consumes 1, case_names Nil Cons]:
  assumes "run_loop step s es = Ok s'"
    and "\<And>s. P s [] s"
    and "\<And>s e t es s'. step s e = Ok t \<Longrightarrow> run_loop step t es = Ok s' \<Longrightarrow> P t es s' \<Longrightarrow> P s (e # es) s'"
  shows "P s es s'"
  using assms(1)
proof (induction es arbitrary: s)
  case Nil
  then show ?case using assms(2) by simp
next
  case (Cons e es)
  then show ?case using assms(3) by (auto simp: rust_simps)
qed

text \<open>
  The contract of such a loop: every arm, on an event the environment may deliver, keeps the
  invariant.
\<close>

locale event_loop =
  fixes step :: "'s \<Rightarrow> 'e \<Rightarrow> ('s, 'x) result"
    and inv :: "'s \<Rightarrow> bool"
    and env :: "'e \<Rightarrow> bool"
  assumes step_inv: "inv s \<Longrightarrow> env e \<Longrightarrow> step s e = Ok s' \<Longrightarrow> inv s'"
begin

lemma run_inv:
  assumes "inv s" "list_all env es" "run_loop step s es = Ok s'"
  shows "inv s'"
  using assms
proof (induction es arbitrary: s)
  case Nil
  then show ?case by simp
next
  case (Cons e es)
  then show ?case by (auto simp: rust_simps intro: step_inv)
qed

lemma run_prefix_inv:
  assumes "inv s" "list_all env (es @ fs)" "run_loop step s (es @ fs) = Ok s'"
  shows "\<exists>t. run_loop step s es = Ok t \<and> inv t"
  using assms by (auto simp: run_loop_append rust_simps intro: run_inv)

end

end
