(* ===== verification/Std_Text.thy ===== *)
theory Std_Text
  imports Relayer_Prelude
begin

text \<open>
  The text handling of the standard library that the relayer uses: \<open>str::split\<close> on a character
  and on a string, \<open>str::starts_with\<close>, and \<open>IpAddr\<close> with its \<open>Display\<close> and \<open>FromStr\<close>. IPv4 is
  written out. The relayer asserts at start-up that its public address and its gRPC bind address
  are IPv4, so the IPv6 text form is left as the pair of functions \<open>v6_display\<close>/\<open>v6_from_str\<close>.
\<close>

section \<open>Splitting strings\<close>

fun split_on :: "char \<Rightarrow> string \<Rightarrow> string list" where
  "split_on c [] = [[]]"
| "split_on c (x # xs) =
     (if x = c then [] # split_on c xs
      else (case split_on c xs of [] \<Rightarrow> [[x]] | w # ws \<Rightarrow> (x # w) # ws))"

lemma split_on_nonempty: "split_on c xs \<noteq> []"
  by (induction xs) (auto split: list.splits)

lemma split_on_no_sep: "c \<notin> set xs \<Longrightarrow> split_on c xs = [xs]"
  by (induction xs) auto

lemma split_on_append: "c \<notin> set w \<Longrightarrow> split_on c (w @ c # rest) = w # split_on c rest"
  by (induction w) auto

definition starts_with :: "string \<Rightarrow> string \<Rightarrow> bool" where
  "starts_with pat s \<longleftrightarrow> take (length pat) s = pat"

text \<open>\<open>str::split\<close> with a non-empty string pattern: matches are found left to right.\<close>

fun split_str_acc :: "string \<Rightarrow> nat \<Rightarrow> string \<Rightarrow> string \<Rightarrow> string list" where
  "split_str_acc pat skip acc [] = [rev acc]"
| "split_str_acc pat (Suc n) acc (x # xs) = split_str_acc pat n acc xs"
| "split_str_acc pat 0 acc (x # xs) =
     (if pat \<noteq> [] \<and> starts_with pat (x # xs)
      then rev acc # split_str_acc pat (length pat - 1) [] xs
      else split_str_acc pat 0 (x # acc) xs)"

definition split_str :: "string \<Rightarrow> string \<Rightarrow> string list" where
  "split_str pat s = split_str_acc pat 0 [] s"

lemma split_str_acc_skip:
  "n \<le> length xs \<Longrightarrow> split_str_acc pat n acc xs = split_str_acc pat 0 acc (drop n xs)"
  by (induction pat n acc xs rule: split_str_acc.induct) auto

lemma split_str_acc_none:
  "\<not> sublist pat xs \<Longrightarrow> split_str_acc pat 0 acc xs = [rev acc @ xs]"
proof (induction xs arbitrary: acc)
  case Nil
  then show ?case by simp
next
  case (Cons x xs)
  have "\<not> starts_with pat (x # xs)"
  proof
    assume "starts_with pat (x # xs)"
    then have "prefix pat (x # xs)"
      by (metis starts_with_def append_take_drop_id prefixI)
    with Cons.prems show False by (blast intro: prefix_imp_sublist)
  qed
  moreover have "\<not> sublist pat xs" using Cons.prems by (auto simp: sublist_Cons_right)
  ultimately show ?case using Cons.IH [of "x # acc"] by simp
qed

lemma split_str_acc_prefix:
  assumes "pat \<noteq> []" "starts_with pat xs"
  shows "split_str_acc pat 0 acc xs = rev acc # split_str_acc pat 0 [] (drop (length pat) xs)"
proof (cases xs)
  case Nil
  with assms show ?thesis by (simp add: starts_with_def)
next
  case (Cons y ys)
  from assms have len: "length pat \<le> length xs" and pos: "0 < length pat"
    by (auto simp: starts_with_def min_def dest: arg_cong [where f = length] split: if_splits)
  have "split_str_acc pat 0 acc xs = rev acc # split_str_acc pat (length pat - 1) [] ys"
    using assms Cons by simp
  also have "split_str_acc pat (length pat - 1) [] ys
      = split_str_acc pat 0 [] (drop (length pat - 1) ys)"
    using len Cons by (intro split_str_acc_skip) simp
  also have "drop (length pat - 1) ys = drop (length pat) xs"
    using pos Cons by (cases "length pat") auto
  finally show ?thesis .
qed

text \<open>What the \<open>Bearer\<close> header check relies on: one leading match and none after it.\<close>

lemma split_str_once:
  assumes "pat \<noteq> []" "\<not> sublist pat tok"
  shows "split_str pat (pat @ tok) = [[], tok]"
  using assms split_str_acc_prefix [of pat "pat @ tok" "[]"] split_str_acc_none [of pat tok "[]"]
  by (simp add: split_str_def starts_with_def)

lemma split_str_acc_nonempty: "split_str_acc pat n acc xs \<noteq> []"
  by (induction pat n acc xs rule: split_str_acc.induct) auto

lemma split_str_acc_twice:
  assumes "pat \<noteq> []" "sublist pat xs"
  shows "2 \<le> length (split_str_acc pat 0 acc xs)"
  using assms(2)
proof (induction xs arbitrary: acc)
  case Nil
  with assms(1) show ?case by simp
next
  case (Cons x xs)
  show ?case
  proof (cases "starts_with pat (x # xs)")
    case True
    have "split_str_acc pat (length pat - 1) [] xs \<noteq> []" by (rule split_str_acc_nonempty)
    then have "1 \<le> length (split_str_acc pat (length pat - 1) [] xs)"
      by (cases "split_str_acc pat (length pat - 1) [] xs") auto
    with True assms(1) show ?thesis by simp
  next
    case False
    then have "\<not> prefix pat (x # xs)" by (auto simp: starts_with_def prefix_def)
    with Cons.prems have "sublist pat xs" by (auto simp: sublist_Cons_right)
    with Cons.IH False show ?thesis by simp
  qed
qed

lemma split_str_two_iff:
  assumes "pat \<noteq> []" "starts_with pat s"
  shows "length (split_str pat s) = 2 \<longleftrightarrow> \<not> sublist pat (drop (length pat) s)"
proof -
  have split: "split_str pat s = [] # split_str_acc pat 0 [] (drop (length pat) s)"
    using split_str_acc_prefix [OF assms, of "[]"] by (simp add: split_str_def)
  show ?thesis
  proof (cases "sublist pat (drop (length pat) s)")
    case True
    from split_str_acc_twice [OF assms(1) this, of "[]"] True split show ?thesis by simp
  next
    case False
    from split_str_acc_none [OF this, of "[]"] False split show ?thesis by simp
  qed
qed

section \<open>IP addresses\<close>

datatype ip_addr = V4 u32 | V6 "128 word"

definition is_ipv4 :: "ip_addr \<Rightarrow> bool" where
  "is_ipv4 a = (case a of V4 _ \<Rightarrow> True | V6 _ \<Rightarrow> False)"

definition octets :: "u32 \<Rightarrow> nat list" where
  "octets a = (let n = unat a in
     [n div 2 ^ 24, (n div 2 ^ 16) mod 256, (n div 2 ^ 8) mod 256, n mod 256])"

definition from_octets :: "nat list \<Rightarrow> u32" where
  "from_octets os = word_of_nat (foldl (\<lambda>acc d. acc * 256 + d) 0 os)"

definition digit_char :: "nat \<Rightarrow> char" where
  "digit_char d = ''0123456789'' ! (d mod 10)"

definition dec_octet :: "nat \<Rightarrow> string" where
  "dec_octet n =
     (if n < 10 then [digit_char n]
      else if n < 100 then [digit_char (n div 10), digit_char n]
      else [digit_char (n div 100), digit_char (n div 10), digit_char n])"

definition digit_val :: "char \<Rightarrow> nat option" where
  "digit_val c = map_of (zip ''0123456789'' [0..<10]) c"

fun parse_digits :: "nat \<Rightarrow> string \<Rightarrow> nat option" where
  "parse_digits acc [] = Some acc"
| "parse_digits acc (c # cs) =
     (case digit_val c of None \<Rightarrow> None | Some d \<Rightarrow> parse_digits (acc * 10 + d) cs)"

text \<open>One octet: one to three digits, no leading zero, at most 255.\<close>

definition parse_octet :: "string \<Rightarrow> nat option" where
  "parse_octet s =
     (if s = [] \<or> length s > 3 \<or> (length s > 1 \<and> hd s = CHR ''0'') then None
      else (case parse_digits 0 s of None \<Rightarrow> None
            | Some n \<Rightarrow> if n \<le> 255 then Some n else None))"

definition ipv4_to_string :: "u32 \<Rightarrow> string" where
  "ipv4_to_string a =
     (case map dec_octet (octets a) of
        [w, x, y, z] \<Rightarrow> w @ ''.'' @ x @ ''.'' @ y @ ''.'' @ z
      | _ \<Rightarrow> [])"

definition ipv4_from_str :: "string \<Rightarrow> u32 option" where
  "ipv4_from_str s =
     (case map parse_octet (split_on (CHR ''.'') s) of
        [Some w, Some x, Some y, Some z] \<Rightarrow> Some (from_octets [w, x, y, z])
      | _ \<Rightarrow> None)"

text \<open>The IPv6 half of \<open>IpAddr\<close>'s text form.\<close>

record v6_text =
  v6_display :: "128 word \<Rightarrow> string"
  v6_from_str :: "string \<Rightarrow> 128 word option"

definition ip_to_string :: "v6_text \<Rightarrow> ip_addr \<Rightarrow> string" where
  "ip_to_string t a = (case a of V4 x \<Rightarrow> ipv4_to_string x | V6 y \<Rightarrow> v6_display t y)"

definition ip_from_str :: "v6_text \<Rightarrow> string \<Rightarrow> ip_addr option" where
  "ip_from_str t s =
     (case ipv4_from_str s of
        Some x \<Rightarrow> Some (V4 x)
      | None \<Rightarrow> map_option V6 (v6_from_str t s))"

lemma digit_val_digit_char: "digit_val (digit_char d) = Some (d mod 10)"
proof -
  have "list_all (\<lambda>e. digit_val (''0123456789'' ! e) = Some e) [0..<10]" by code_simp
  then show ?thesis by (simp add: list_all_iff digit_char_def)
qed

lemma digit_char_neq_dot: "digit_char d \<noteq> CHR ''.''"
proof
  assume "digit_char d = CHR ''.''"
  then have "digit_val (CHR ''.'') = Some (d mod 10)" using digit_val_digit_char [of d] by simp
  moreover have "digit_val (CHR ''.'') = None" by code_simp
  ultimately show False by simp
qed

lemma digit_char_eq_0: "digit_char d = CHR ''0'' \<longleftrightarrow> d mod 10 = 0"
proof
  assume "digit_char d = CHR ''0''"
  then have "digit_val (CHR ''0'') = Some (d mod 10)" using digit_val_digit_char [of d] by simp
  moreover have "digit_val (CHR ''0'') = Some 0" by code_simp
  ultimately show "d mod 10 = 0" by simp
qed (simp add: digit_char_def)

lemma octet_roundtrip:
  assumes "n < 256"
  shows "parse_octet (dec_octet n) = Some n" and "CHR ''.'' \<notin> set (dec_octet n)"
proof -
  consider "n < 10" | "10 \<le> n" "n < 100" | "100 \<le> n" by linarith
  then show "parse_octet (dec_octet n) = Some n"
  proof cases
    case 1
    then show ?thesis by (simp add: dec_octet_def parse_octet_def digit_val_digit_char)
  next
    case 2
    then have "n div 10 mod 10 = n div 10" by simp
    with 2 show ?thesis
      by (simp add: dec_octet_def parse_octet_def digit_val_digit_char digit_char_eq_0)
  next
    case 3
    then have "n div 100 mod 10 = n div 100" using assms by simp
    moreover have "n div 100 * 10 + n div 10 mod 10 = n div 10"
      by (simp add: div_mult2_eq [of n 10 10, simplified])
    moreover have "n div 10 * 10 + n mod 10 = n" by simp
    ultimately show ?thesis using 3 assms
      by (simp add: dec_octet_def parse_octet_def digit_val_digit_char digit_char_eq_0)
  qed
  show "CHR ''.'' \<notin> set (dec_octet n)"
    using digit_char_neq_dot by (auto simp: dec_octet_def dest: sym)
qed

lemma from_octets_octets: "from_octets (octets a) = a"
proof -
  define n where "n = unat a"
  have "n div 2 ^ 24 * 256 + (n div 2 ^ 16) mod 256 = n div 2 ^ 16"
    by (simp add: div_mult2_eq [of n "2 ^ 16" 256, simplified])
  moreover have "n div 2 ^ 16 * 256 + (n div 2 ^ 8) mod 256 = n div 2 ^ 8"
    by (simp add: div_mult2_eq [of n "2 ^ 8" 256, simplified])
  moreover have "n div 2 ^ 8 * 256 + n mod 256 = n" by simp
  ultimately have "foldl (\<lambda>acc d. acc * 256 + d) 0 (octets a) = n"
    by (simp add: octets_def n_def Let_def)
  then show ?thesis by (simp add: from_octets_def n_def)
qed

lemma octets_bound: "d \<in> set (octets a) \<Longrightarrow> d < 256"
proof -
  have "unat a < 2 ^ 32" using unsigned_less [of a] by simp
  then have "unat a div 2 ^ 24 < 256" by (simp add: less_mult_imp_div_less)
  then show "d \<in> set (octets a) \<Longrightarrow> d < 256" by (auto simp: octets_def Let_def)
qed

lemma ipv4_roundtrip: "ipv4_from_str (ipv4_to_string a) = Some a"
proof -
  obtain w x y z where o: "octets a = [w, x, y, z]" by (simp add: octets_def Let_def)
  then have b: "w < 256" "x < 256" "y < 256" "z < 256"
    using octets_bound [of _ a] by auto
  have "split_on (CHR ''.'') (ipv4_to_string a) = map dec_octet [w, x, y, z]"
    using b by (simp add: ipv4_to_string_def o split_on_append split_on_no_sep octet_roundtrip)
  then show ?thesis
    using b from_octets_octets [of a] by (simp add: ipv4_from_str_def octet_roundtrip o)
qed

lemma ip_roundtrip_v4: "ip_from_str t (ip_to_string t (V4 x)) = Some (V4 x)"
  by (simp add: ip_from_str_def ip_to_string_def ipv4_roundtrip)

lemma split_on_covers: "x \<in> set xs \<Longrightarrow> x \<noteq> c \<Longrightarrow> \<exists>w\<in>set (split_on c xs). x \<in> set w"
proof (induction xs)
  case (Cons y ys)
  obtain w ws where s: "split_on c ys = w # ws" using split_on_nonempty [of c ys] by (cases "split_on c ys") auto
  with Cons show ?case by (cases "y = c") auto
qed simp

lemma parse_digits_digits: "parse_digits acc s = Some n \<Longrightarrow> c \<in> set s \<Longrightarrow> digit_val c \<noteq> None"
  by (induction acc s rule: parse_digits.induct) (auto split: option.splits)

lemma ipv4_from_str_no_colon:
  assumes "CHR '':'' \<in> set s"
  shows "ipv4_from_str s = None"
proof -
  obtain w where w: "w \<in> set (split_on (CHR ''.'') s)" "CHR '':'' \<in> set w"
    using split_on_covers [OF assms, of "CHR ''.''"] by auto
  have "digit_val (CHR '':'') = None" by code_simp
  then have "parse_digits 0 w = None" using parse_digits_digits [of 0 w _ "CHR '':''"] w(2)
    by (cases "parse_digits 0 w") auto
  then have "None \<in> set (map parse_octet (split_on (CHR ''.'') s))"
    using w(1) by (force simp: parse_octet_def image_iff)
  then show ?thesis unfolding ipv4_from_str_def by (auto split: list.splits option.splits)
qed

lemma ip_roundtrip_v6:
  assumes "v6_from_str t (v6_display t y) = Some y" "CHR '':'' \<in> set (v6_display t y)"
  shows "ip_from_str t (ip_to_string t (V6 y)) = Some (V6 y)"
  using assms by (simp add: ip_from_str_def ip_to_string_def ipv4_from_str_no_colon)

end
