(* ===== verification/Packets.thy ===== *)
theory Packets
  imports Std_Text
begin

text \<open>
  Packets and transactions as the relayer sees them, the conversion to the protobuf packet
  (\<open>jito-protos/src/convert.rs\<close>) and the functions of the Solana crates the relayer calls on them,
  collected in the record \<open>sdk\<close>: those crates are not part of the repository, so every definition
  that calls them takes the record as an argument.
\<close>

section \<open>Packets and transactions\<close>

record packet_flags =
  discard :: bool
  forwarded :: bool
  repair :: bool
  simple_vote_tx :: bool
  perf_track_packet :: bool
  from_staked_node :: bool

record packet_meta =
  meta_size :: nat
  meta_addr :: ip_addr
  meta_port :: u16
  meta_flags :: packet_flags

record packet =
  meta :: packet_meta
  buffer :: bytes

text \<open>A \<open>BankingPacketBatch\<close> is a list of packet batches.\<close>

type_synonym packet_batch = "packet list"
type_synonym banking_packet_batch = "packet list list"

record message_lookup =
  account_key :: pubkey
  writable_indexes :: "u8 list"
  readonly_indexes :: "u8 list"

text \<open>
  \<open>tx_payload\<close> is the rest of a transaction (signatures, header, instructions), which the relayer
  never inspects itself.
\<close>

record versioned_tx =
  static_account_keys :: "pubkey list"
  address_table_lookups :: "message_lookup list option"
  tx_payload :: bytes

record lookup_table_account =
  table_key :: pubkey
  addresses :: "pubkey list"

text \<open>Read access to the shared \<open>address_lookup_table_cache\<close>.\<close>

type_synonym lookup_cache = "pubkey \<Rightarrow> lookup_table_account option"

text \<open>
  The Solana functions: \<open>Packet::data(..)\<close>, \<open>Packet::deserialize_slice(..)\<close>,
  \<open>VersionedMessage::is_maybe_writable(idx, None)\<close>, \<open>Pubkey::from_str\<close>, \<open>Pubkey::to_string\<close>,
  \<open>Pubkey::try_from(Vec<u8>)\<close>.
\<close>

record sdk =
  packet_data :: "packet \<Rightarrow> bytes option"
  deserialize_slice :: "packet \<Rightarrow> versioned_tx option"
  is_maybe_writable :: "versioned_tx \<Rightarrow> nat \<Rightarrow> bool"
  pubkey_from_str :: "string \<Rightarrow> pubkey option"
  pubkey_to_string :: "pubkey \<Rightarrow> string"
  pubkey_try_from :: "bytes \<Rightarrow> pubkey option"
  ip_text :: v6_text

section \<open>Conversion to protobuf packets\<close>

record proto_packet_flags =
  p_discard :: bool
  p_forwarded :: bool
  p_repair :: bool
  p_simple_vote_tx :: bool
  p_tracer_packet :: bool
  p_from_staked_node :: bool

record proto_meta =
  p_size :: u64
  p_addr :: string
  p_port :: u32
  p_flags :: "proto_packet_flags option"
  p_sender_stake :: u64

record proto_packet =
  p_data :: bytes
  p_meta :: "proto_meta option"

definition packet_to_proto_packet :: "sdk \<Rightarrow> packet \<Rightarrow> proto_packet option" where
  "packet_to_proto_packet k p =
     (case packet_data k p of
        None \<Rightarrow> None
      | Some d \<Rightarrow> Some
          \<lparr>p_data = d,
           p_meta = Some
             \<lparr>p_size = word_of_nat (meta_size (meta p)),
              p_addr = ip_to_string (ip_text k) (meta_addr (meta p)),
              p_port = ucast (meta_port (meta p)),
              p_flags = Some
                \<lparr>p_discard = discard (meta_flags (meta p)),
                 p_forwarded = forwarded (meta_flags (meta p)),
                 p_repair = repair (meta_flags (meta p)),
                 p_simple_vote_tx = simple_vote_tx (meta_flags (meta p)),
                 p_tracer_packet = perf_track_packet (meta_flags (meta p)),
                 p_from_staked_node = from_staked_node (meta_flags (meta p))\<rparr>,
              p_sender_stake = 0\<rparr>\<rparr>)"

text \<open>Reading the conversion backwards, for what the protobuf form keeps of a packet.\<close>

definition proto_flags_to_flags :: "proto_packet_flags \<Rightarrow> packet_flags" where
  "proto_flags_to_flags f =
     \<lparr>discard = p_discard f, forwarded = p_forwarded f, repair = p_repair f,
      simple_vote_tx = p_simple_vote_tx f, perf_track_packet = p_tracer_packet f,
      from_staked_node = p_from_staked_node f\<rparr>"

definition proto_to_meta :: "sdk \<Rightarrow> proto_meta \<Rightarrow> packet_meta option" where
  "proto_to_meta k m =
     (case (ip_from_str (ip_text k) (p_addr m), p_flags m) of
        (Some a, Some f) \<Rightarrow> Some
          \<lparr>meta_size = unat (p_size m), meta_addr = a, meta_port = ucast (p_port m),
           meta_flags = proto_flags_to_flags f\<rparr>
      | _ \<Rightarrow> None)"

definition is_v4_packet :: "packet \<Rightarrow> bool" where
  "is_v4_packet p \<longleftrightarrow> is_ipv4 (meta_addr (meta p))"

lemma ucast_u16_u32: "ucast (ucast (x :: u16) :: u32) = x"
  by (rule bit_word_eqI) (simp add: bit_ucast_iff)

lemma proto_roundtrip:
  assumes "packet_to_proto_packet k p = Some q" "is_v4_packet p" "meta_size (meta p) < 2 ^ 64"
  shows "packet_data k p = Some (p_data q)"
    and "p_meta q \<noteq> None"
    and "proto_to_meta k (the (p_meta q)) = Some (meta p)"
proof -
  obtain a where a: "meta_addr (meta p) = V4 a"
    using assms(2) by (cases "meta_addr (meta p)") (auto simp: is_v4_packet_def is_ipv4_def)
  have sz: "unat (word_of_nat (meta_size (meta p)) :: u64) = meta_size (meta p)"
    using assms(3) by (simp add: unat_of_nat take_bit_nat_eq_self)
  from assms(1) show "packet_data k p = Some (p_data q)" "p_meta q \<noteq> None"
    by (auto simp: packet_to_proto_packet_def split: option.splits)
  from assms(1) a sz show "proto_to_meta k (the (p_meta q)) = Some (meta p)"
    by (auto simp: packet_to_proto_packet_def proto_to_meta_def proto_flags_to_flags_def
        ip_roundtrip_v4 ucast_u16_u32 split: option.split_asm)
qed

end
