(* ===== verification/Ofac.thy ===== *)
theory Ofac
  imports Packets
begin

text \<open>
  The OFAC check of \<open>core/src/ofac.rs\<close>: whether a transaction names a listed address, either in
  its static keys or through an address lookup table the relayer has cached.
\<close>

text \<open>\<open>slice::get\<close>.\<close>

definition slice_get :: "'a list \<Rightarrow> nat \<Rightarrow> 'a option" where
  "slice_get xs i = (if i < length xs then Some (xs ! i) else None)"

definition is_ofac_address_in_static_keys :: "versioned_tx \<Rightarrow> pubkey set \<Rightarrow> bool" where
  "is_ofac_address_in_static_keys tx ofac = list_ex (\<lambda>acc. acc \<in> ofac) (static_account_keys tx)"

fun ofac_index_hit :: "pubkey set \<Rightarrow> lookup_table_account \<Rightarrow> u8 list \<Rightarrow> bool" where
  "ofac_index_hit ofac info [] = False"
| "ofac_index_hit ofac info (idx # rest) =
     (case slice_get (addresses info) (unat idx) of
        Some account \<Rightarrow> if account \<in> ofac then True else ofac_index_hit ofac info rest
      | None \<Rightarrow> ofac_index_hit ofac info rest)"

fun ofac_table_hit :: "pubkey set \<Rightarrow> lookup_cache \<Rightarrow> message_lookup list \<Rightarrow> bool" where
  "ofac_table_hit ofac cache [] = False"
| "ofac_table_hit ofac cache (table # rest) =
     (case cache (account_key table) of
        Some info \<Rightarrow>
          if ofac_index_hit ofac info (writable_indexes table @ readonly_indexes table) then True
          else ofac_table_hit ofac cache rest
      | None \<Rightarrow> ofac_table_hit ofac cache rest)"

definition is_ofac_address_in_lookup_table ::
  "versioned_tx \<Rightarrow> pubkey set \<Rightarrow> lookup_cache \<Rightarrow> bool" where
  "is_ofac_address_in_lookup_table tx ofac cache =
     (case address_table_lookups tx of
        Some lookup_tables \<Rightarrow> ofac_table_hit ofac cache lookup_tables
      | None \<Rightarrow> False)"

definition is_tx_ofac_related :: "versioned_tx \<Rightarrow> pubkey set \<Rightarrow> lookup_cache \<Rightarrow> bool" where
  "is_tx_ofac_related tx ofac cache \<longleftrightarrow>
     is_ofac_address_in_static_keys tx ofac \<or> is_ofac_address_in_lookup_table tx ofac cache"

section \<open>The accounts a transaction names\<close>

definition table_accounts :: "lookup_table_account \<Rightarrow> u8 list \<Rightarrow> pubkey set" where
  "table_accounts info idxs =
     {addresses info ! unat i | i. i \<in> set idxs \<and> unat i < length (addresses info)}"

definition loaded_accounts :: "lookup_cache \<Rightarrow> (message_lookup \<Rightarrow> u8 list) \<Rightarrow> versioned_tx \<Rightarrow> pubkey set" where
  "loaded_accounts cache sel tx =
     (\<Union>table \<in> (case address_table_lookups tx of None \<Rightarrow> {} | Some ts \<Rightarrow> set ts).
        (case cache (account_key table) of
           None \<Rightarrow> {} | Some info \<Rightarrow> table_accounts info (sel table)))"

definition named_accounts :: "lookup_cache \<Rightarrow> versioned_tx \<Rightarrow> pubkey set" where
  "named_accounts cache tx =
     set (static_account_keys tx)
       \<union> loaded_accounts cache (\<lambda>t. writable_indexes t @ readonly_indexes t) tx"

lemma ofac_index_hit_iff: "ofac_index_hit ofac info idxs \<longleftrightarrow> table_accounts info idxs \<inter> ofac \<noteq> {}"
proof (induction idxs)
  case Nil
  then show ?case by (simp add: table_accounts_def)
next
  case (Cons i idxs)
  have "table_accounts info (i # idxs) =
      (if unat i < length (addresses info) then {addresses info ! unat i} else {})
        \<union> table_accounts info idxs"
    by (auto simp: table_accounts_def)
  with Cons show ?case by (auto simp: slice_get_def)
qed

lemma ofac_table_hit_iff:
  "ofac_table_hit ofac cache ts \<longleftrightarrow>
     (\<exists>t\<in>set ts. \<exists>info. cache (account_key t) = Some info \<and>
        table_accounts info (writable_indexes t @ readonly_indexes t) \<inter> ofac \<noteq> {})"
  by (induction ts) (auto simp: ofac_index_hit_iff split: option.splits)

lemma is_ofac_address_in_lookup_table_iff:
  "is_ofac_address_in_lookup_table tx ofac cache \<longleftrightarrow>
     loaded_accounts cache (\<lambda>t. writable_indexes t @ readonly_indexes t) tx \<inter> ofac \<noteq> {}"
  by (fastforce simp: is_ofac_address_in_lookup_table_def loaded_accounts_def ofac_table_hit_iff
      split: option.splits)

lemma is_tx_ofac_related_iff:
  "is_tx_ofac_related tx ofac cache \<longleftrightarrow> named_accounts cache tx \<inter> ofac \<noteq> {}"
  by (auto simp: is_tx_ofac_related_def is_ofac_address_in_lookup_table_iff named_accounts_def
      is_ofac_address_in_static_keys_def list_ex_iff)

end
