(* ===== verification/Channels.thy ===== *)
theory Channels
  imports Relayer_Prelude
begin

text \<open>
  The sending half of a bounded \<open>tokio\<close> channel, as the relayer uses it. The channel is not part of
  the repository: a definition that sends takes the channel's operations as an argument, and the
  interface \<open>mpsc_sender\<close> states what the documentation promises of \<open>try_send\<close>. A sender value
  stands for the whole channel, including whatever its receiver does next, so a receiver that
  drains the queue between two sends is covered.
\<close>

text \<open>The outcomes of \<open>try_send\<close>: \<open>Ok(())\<close>, \<open>TrySendError::Full\<close>, \<open>TrySendError::Closed\<close>.\<close>

datatype send_outcome = SendOk | SendFull | SendClosed

record ('s, 'm) sender_ops =
  try_send :: "'s \<Rightarrow> 'm \<Rightarrow> send_outcome \<times> 's"
  capacity :: "'s \<Rightarrow> u64"

text \<open>Sending a list of messages one after another: the outcomes and the channel afterwards.\<close>

fun send_seq :: "('s, 'm) sender_ops \<Rightarrow> 's \<Rightarrow> 'm list \<Rightarrow> send_outcome list \<times> 's" where
  "send_seq ops s [] = ([], s)"
| "send_seq ops s (m # ms) =
     (let rs = send_seq ops (snd (try_send ops s m)) ms
      in (fst (try_send ops s m) # fst rs, snd rs))"

lemma length_send_seq [simp]: "length (fst (send_seq ops s ms)) = length ms"
  by (induction ms arbitrary: s) (auto simp: Let_def)

text \<open>
  \<open>accepted\<close> is the history of the messages the channel took. A message whose send fails is handed
  back and never enters the channel.
\<close>

locale mpsc_sender =
  fixes ops :: "('s, 'm) sender_ops"
    and accepted :: "'s \<Rightarrow> 'm list"
  assumes try_send_ok: "try_send ops s m = (SendOk, s') \<Longrightarrow> accepted s' = accepted s @ [m]"
    and try_send_err: "try_send ops s m = (r, s') \<Longrightarrow> r \<noteq> SendOk \<Longrightarrow> accepted s' = accepted s"
begin

lemma accepted_try_send:
  "accepted (snd (try_send ops s m))
     = accepted s @ (if fst (try_send ops s m) = SendOk then [m] else [])"
  by (cases "try_send ops s m") (auto dest: try_send_ok try_send_err)

lemma accepted_send_seq:
  "accepted (snd (send_seq ops s ms))
     = accepted s @ map snd (filter (\<lambda>(r, m). r = SendOk) (zip (fst (send_seq ops s ms)) ms))"
proof (induction ms arbitrary: s)
  case Nil
  then show ?case by simp
next
  case (Cons m ms)
  then show ?case
    using accepted_try_send [of s m] by (simp add: Let_def)
qed

lemma accepted_send_seq_all:
  assumes "list_all (\<lambda>r. r = SendOk) (fst (send_seq ops s ms))"
  shows "accepted (snd (send_seq ops s ms)) = accepted s @ ms"
proof -
  let ?zs = "zip (fst (send_seq ops s ms)) ms"
  have "filter (\<lambda>(r, m). r = SendOk) ?zs = ?zs"
    by (rule filter_True) (use assms in \<open>auto simp: list_all_iff dest: set_zip_leftD\<close>)
  then show ?thesis by (simp add: accepted_send_seq)
qed

lemma accepted_send_seq_subseq:
  "\<exists>ds. accepted (snd (send_seq ops s ms)) = accepted s @ ds \<and> subseq ds ms"
proof (intro exI conjI)
  show "accepted (snd (send_seq ops s ms))
      = accepted s @ map snd (filter (\<lambda>(r, m). r = SendOk) (zip (fst (send_seq ops s ms)) ms))"
    by (rule accepted_send_seq)
  have "subseq (map snd (filter (\<lambda>(r, m). r = SendOk) (zip (fst (send_seq ops s ms)) ms)))
      (map snd (zip (fst (send_seq ops s ms)) ms))"
    by (intro subseq_map subseq_filter_left)
  then show "subseq (map snd (filter (\<lambda>(r, m). r = SendOk) (zip (fst (send_seq ops s ms)) ms))) ms"
    by simp
qed

end

section \<open>A bounded channel\<close>

text \<open>
  A channel that meets the interface: a queue of bounded length, a flag for a dropped receiver and
  the history of accepted messages. Theorems about senders are applied to it in their witnesses.
\<close>

record 'm chan =
  ch_queue :: "'m list"
  ch_log :: "'m list"
  ch_bound :: nat
  ch_closed :: bool

definition chan_new :: "nat \<Rightarrow> 'm chan" where
  "chan_new n = \<lparr>ch_queue = [], ch_log = [], ch_bound = n, ch_closed = False\<rparr>"

definition chan_try_send :: "'m chan \<Rightarrow> 'm \<Rightarrow> send_outcome \<times> 'm chan" where
  "chan_try_send c m =
     (if ch_closed c then (SendClosed, c)
      else if ch_bound c \<le> length (ch_queue c) then (SendFull, c)
      else (SendOk, c\<lparr>ch_queue := ch_queue c @ [m], ch_log := ch_log c @ [m]\<rparr>))"

definition chan_capacity :: "'m chan \<Rightarrow> u64" where
  "chan_capacity c = word_of_nat (ch_bound c - length (ch_queue c))"

definition chan_ops :: "('m chan, 'm) sender_ops" where
  "chan_ops = \<lparr>try_send = chan_try_send, capacity = chan_capacity\<rparr>"

interpretation bounded_chan: mpsc_sender chan_ops ch_log
  by unfold_locales (auto simp: chan_ops_def chan_try_send_def split: if_splits)

end
