(* ===== verification/Schedule_Cache.thy ===== *)
theory Schedule_Cache
  imports Packets
begin

text \<open>
  The leader schedule of \<open>relayer/src/schedule_cache.rs\<close>: the map from slots to leaders, the queries
  of its handle, and the refresh from an RPC server. The two RPC answers are arguments
  (\<open>None\<close> for a failed call).
\<close>

type_synonym schedule = "(slot, pubkey) hmap"

section \<open>Queries of the handle\<close>

definition leader_for_slot :: "schedule \<Rightarrow> slot \<Rightarrow> pubkey option" where
  "leader_for_slot sched s = hm_get sched s"

text \<open>The result is a \<open>HashSet\<close>: a list without repetitions, in iteration order.\<close>

definition leaders_for_slots :: "schedule \<Rightarrow> slot list \<Rightarrow> pubkey list" where
  "leaders_for_slots sched slots = remdups (List.map_filter (\<lambda>s. hm_get sched s) slots)"

definition is_scheduled_validator :: "schedule \<Rightarrow> pubkey \<Rightarrow> bool" where
  "is_scheduled_validator sched pk = list_ex (\<lambda>(_, scheduled_pubkey). scheduled_pubkey = pk) sched"

section \<open>Refresh\<close>

record epoch_info =
  absolute_slot :: u64
  slot_index :: u64

text \<open>\<open>HashMap<String, Vec<usize>>\<close>, as the RPC returns it.\<close>

type_synonym rpc_schedule = "(string, u64 list) hmap"

definition insert_slots :: "sdk \<Rightarrow> u64 \<Rightarrow> string \<times> u64 list \<Rightarrow> schedule \<Rightarrow> schedule" where
  "insert_slots k epoch_offset entry m =
     (case entry of (pk_str, slots) \<Rightarrow>
        fold (\<lambda>slot m. case pubkey_from_str k pk_str of
                 Some pubkey \<Rightarrow> hm_insert (slot + epoch_offset) pubkey m
               | None \<Rightarrow> m) slots m)"

definition update_leader_cache ::
  "sdk \<Rightarrow> epoch_info option \<Rightarrow> rpc_schedule option option \<Rightarrow> schedule \<Rightarrow> bool \<times> schedule" where
  "update_leader_cache k epoch leader_sched schedule =
     (case epoch of
        Some info \<Rightarrow>
          (case leader_sched of
             Some (Some leader_schedule) \<Rightarrow>
               (let epoch_offset = absolute_slot info - slot_index info;
                    new_schedule = fold (insert_slots k epoch_offset) leader_schedule []
                in (True, new_schedule))
           | _ \<Rightarrow> (False, schedule))
      | None \<Rightarrow> (False, schedule))"

text \<open>One round of the refresh thread, with the data point it reports.\<close>

record schedule_datapoint =
  update_ok_count :: nat
  update_fail_count :: nat
  slots_in_schedule :: nat

definition refresh_round ::
  "sdk \<Rightarrow> schedule \<Rightarrow> epoch_info option \<times> rpc_schedule option option
     \<Rightarrow> schedule \<times> schedule_datapoint" where
  "refresh_round k schedule answers =
     (case update_leader_cache k (fst answers) (snd answers) schedule of
        (ok, schedule') \<Rightarrow>
          (schedule', \<lparr>update_ok_count = (if ok then 1 else 0),
                       update_fail_count = (if ok then 0 else 1),
                       slots_in_schedule = length schedule'\<rparr>))"

section \<open>What a refresh installs\<close>

definition schedule_pairs :: "sdk \<Rightarrow> u64 \<Rightarrow> rpc_schedule \<Rightarrow> (slot \<times> pubkey) list" where
  "schedule_pairs k epoch_offset sched =
     concat (map (\<lambda>(pk_str, slots). case pubkey_from_str k pk_str of
                     None \<Rightarrow> [] | Some pk \<Rightarrow> map (\<lambda>s. (s + epoch_offset, pk)) slots) sched)"

lemma in_schedule_pairs:
  "(s, pk) \<in> set (schedule_pairs k off sched) \<longleftrightarrow>
     (\<exists>pk_str slots x. (pk_str, slots) \<in> set sched \<and> x \<in> set slots \<and> s = x + off \<and>
        pubkey_from_str k pk_str = Some pk)"
proof (induction sched)
  case Nil
  then show ?case by (simp add: schedule_pairs_def)
next
  case (Cons e sched)
  obtain a b where e: "e = (a, b)" by (cases e)
  have "set (schedule_pairs k off (e # sched)) =
      (case pubkey_from_str k a of None \<Rightarrow> {} | Some pk \<Rightarrow> (\<lambda>s. (s + off, pk)) ` set b)
        \<union> set (schedule_pairs k off sched)"
    by (simp add: schedule_pairs_def e split: option.split)
  with Cons.IH e show ?case by (cases "pubkey_from_str k a") auto
qed

lemma insert_slots_fold:
  "insert_slots k off (pk_str, slots) m =
     fold (\<lambda>(s, pk). hm_insert s pk)
       (case pubkey_from_str k pk_str of
          None \<Rightarrow> [] | Some pk \<Rightarrow> map (\<lambda>s. (s + off, pk)) slots) m"
proof (cases "pubkey_from_str k pk_str")
  case None
  have "fold (\<lambda>slot m. m) slots m = m" by (induction slots) simp_all
  with None show ?thesis by (simp add: insert_slots_def)
next
  case (Some pk)
  then show ?thesis by (simp add: insert_slots_def fold_map comp_def)
qed

lemma build_schedule_fold:
  "fold (insert_slots k off) sched m = fold (\<lambda>(s, pk). hm_insert s pk) (schedule_pairs k off sched) m"
  by (induction sched arbitrary: m) (auto simp: schedule_pairs_def insert_slots_fold)

lemma build_schedule_inv: "hm_inv (fold (insert_slots k off) sched [])"
  unfolding build_schedule_fold by (rule hm.inv_fold_insert) (rule hm.inv_empty)

lemma update_leader_cache_inv:
  "hm_inv schedule \<Longrightarrow> hm_inv (snd (update_leader_cache k e l schedule))"
  by (auto simp: update_leader_cache_def Let_def build_schedule_inv split: option.splits)

lemma distinct_schedule_keys:
  "distinct (concat (map snd sched)) \<Longrightarrow> distinct (map fst (schedule_pairs k off sched))"
proof (induction sched)
  case Nil
  then show ?case by (simp add: schedule_pairs_def)
next
  case (Cons e sched)
  obtain pk_str slots where e: "e = (pk_str, slots)" by (cases e)
  have keys: "s - off \<in> set (concat (map snd sched))"
    if "(s, pk) \<in> set (schedule_pairs k off sched)" for s pk
    using that unfolding in_schedule_pairs by (auto intro: bexI [of _ "(_, _)"])
  show ?case
  proof (cases "pubkey_from_str k pk_str")
    case None
    with Cons e show ?thesis by (simp add: schedule_pairs_def)
  next
    case (Some pk)
    have split: "schedule_pairs k off (e # sched)
        = map (\<lambda>s. (s + off, pk)) slots @ schedule_pairs k off sched"
      by (simp add: schedule_pairs_def e Some)
    have "distinct (map fst (map (\<lambda>s. (s + off, pk)) slots))"
      using Cons.prems e by (simp add: distinct_map inj_on_def comp_def)
    moreover have "fst ` set (map (\<lambda>s. (s + off, pk)) slots) \<inter> fst ` set (schedule_pairs k off sched) = {}"
    proof -
      have "s \<notin> set (concat (map snd sched))" if "s \<in> set slots" for s
        using that Cons.prems e by (auto simp del: set_concat)
      then show ?thesis by (auto dest!: keys simp del: set_concat)
    qed
    ultimately show ?thesis
      using Cons e unfolding split map_append distinct_append by (simp add: image_image)
  qed
qed

lemma leader_after_update:
  assumes "distinct (concat (map snd sched))"
    and "update_leader_cache k (Some info) (Some (Some sched)) old = (True, new)"
  shows "leader_for_slot new s = Some pk \<longleftrightarrow>
    (\<exists>pk_str slots x. (pk_str, slots) \<in> set sched \<and> x \<in> set slots \<and>
       s = x + (absolute_slot info - slot_index info) \<and> pubkey_from_str k pk_str = Some pk)"
proof -
  define off where "off = absolute_slot info - slot_index info"
  have "leader_for_slot new s = map_of (rev (schedule_pairs k off sched)) s"
    using assms(2)
    by (auto simp: update_leader_cache_def Let_def off_def leader_for_slot_def build_schedule_fold
        hm.get_fold_insert hm.inv_empty hm.get_empty)
  moreover have "distinct (map fst (rev (schedule_pairs k off sched)))"
    using distinct_schedule_keys [OF assms(1), of k off]
    by (metis distinct_rev rev_map)
  ultimately have "leader_for_slot new s = Some pk \<longleftrightarrow> (s, pk) \<in> set (schedule_pairs k off sched)"
    by simp
  then show ?thesis by (simp add: in_schedule_pairs off_def)
qed

lemma is_scheduled_validator_iff:
  "hm_inv sched \<Longrightarrow> is_scheduled_validator sched pk \<longleftrightarrow> (\<exists>s. leader_for_slot sched s = Some pk)"
  by (auto simp: is_scheduled_validator_def leader_for_slot_def hm_get_def hm_inv_def list_ex_iff)

lemma set_leaders_for_slots:
  "set (leaders_for_slots sched slots) = {pk. \<exists>s\<in>set slots. leader_for_slot sched s = Some pk}"
  by (force simp: leaders_for_slots_def leader_for_slot_def map_filter_def)

lemma distinct_leaders_for_slots: "distinct (leaders_for_slots sched slots)"
  by (simp add: leaders_for_slots_def)

end
