(* ===== verification/Health_Manager.thy ===== *)
theory Health_Manager
  imports Relayer_Prelude
begin

text \<open>
  The health manager of \<open>relayer/src/health_manager.rs\<close>: a thread that forwards slots and decides,
  on a tick, whether the last one came recently enough. An event carries what its \<open>select!\<close> arm
  reads from the outside: the clock, the received value, whether the forwarding send succeeds, and
  the length of the outgoing channel at the end of the iteration.
\<close>

datatype health_state = Unhealthy | Healthy

record health_loop =
  health_state_cell :: health_state
  last_update :: instant
  slot_sender_max_len :: nat
  slots_forwarded :: "slot list"

datatype health_arm =
    CheckTick instant
  | SlotRecv "(slot, recv_error) result" bool instant
  | ChannelLenTick

type_synonym health_event = "health_arm \<times> nat"

definition health_manager_new :: "instant \<Rightarrow> health_loop" where
  "health_manager_new start =
     \<lparr>health_state_cell = Unhealthy, last_update = start, slot_sender_max_len = 0,
      slots_forwarded = []\<rparr>"

definition health_arm_step :: "duration \<Rightarrow> health_loop \<Rightarrow> health_arm \<Rightarrow> (health_loop, unit) result" where
  "health_arm_step threshold s arm =
     (case arm of
        CheckTick now \<Rightarrow>
          Ok (s\<lparr>health_state_cell :=
                (if elapsed now (last_update s) \<le> threshold then Healthy else Unhealthy)\<rparr>)
      | SlotRecv maybe_slot sent now \<Rightarrow>
          (case maybe_slot of
             Ok slot \<Rightarrow>
               if sent then Ok (s\<lparr>slots_forwarded := slots_forwarded s @ [slot], last_update := now\<rparr>)
               else Panic
           | _ \<Rightarrow> Panic)
      | ChannelLenTick \<Rightarrow> Ok (s\<lparr>slot_sender_max_len := 0\<rparr>))"

definition health_step :: "duration \<Rightarrow> health_loop \<Rightarrow> health_event \<Rightarrow> (health_loop, unit) result" where
  "health_step threshold s e =
     (case e of (arm, sender_len) \<Rightarrow>
        and_then (health_arm_step threshold s arm)
          (\<lambda>s'. Ok (s'\<lparr>slot_sender_max_len := max (slot_sender_max_len s') sender_len\<rparr>)))"

section \<open>What the thread has seen\<close>

fun arm_slots :: "health_event list \<Rightarrow> slot list" where
  "arm_slots [] = []"
| "arm_slots ((SlotRecv (Ok sl) sent now, n) # es) = sl # arm_slots es"
| "arm_slots (_ # es) = arm_slots es"

fun last_slot_time :: "instant \<Rightarrow> health_event list \<Rightarrow> instant" where
  "last_slot_time t [] = t"
| "last_slot_time t ((SlotRecv r sent now, n) # es) = last_slot_time now es"
| "last_slot_time t (_ # es) = last_slot_time t es"

definition is_check :: "health_event \<Rightarrow> bool" where
  "is_check e = (case fst e of CheckTick _ \<Rightarrow> True | _ \<Rightarrow> False)"

definition is_slot :: "health_event \<Rightarrow> bool" where
  "is_slot e = (case fst e of SlotRecv _ _ _ \<Rightarrow> True | _ \<Rightarrow> False)"

lemma health_step_cases:
  assumes "health_step thr s (arm, n) = Ok s'"
  shows "(\<exists>now. arm = CheckTick now \<and> last_update s' = last_update s \<and>
            slots_forwarded s' = slots_forwarded s \<and>
            (health_state_cell s' = Healthy \<longleftrightarrow> elapsed now (last_update s) \<le> thr))
       \<or> (\<exists>sl now. arm = SlotRecv (Ok sl) True now \<and> last_update s' = now \<and>
            slots_forwarded s' = slots_forwarded s @ [sl] \<and>
            health_state_cell s' = health_state_cell s)
       \<or> (arm = ChannelLenTick \<and> last_update s' = last_update s \<and>
            slots_forwarded s' = slots_forwarded s \<and> health_state_cell s' = health_state_cell s)"
  using assms
  by (auto simp: health_step_def health_arm_step_def rust_simps split: health_arm.splits result.splits
      if_splits)

lemma run_last_update:
  "run_loop (health_step thr) s es = Ok s' \<Longrightarrow> last_update s' = last_slot_time (last_update s) es"
proof (induction rule: run_loop_induct)
  case (Cons s e t es s')
  then show ?case by (cases e) (auto dest!: health_step_cases)
qed simp

lemma run_slots_forwarded:
  "run_loop (health_step thr) s es = Ok s' \<Longrightarrow> slots_forwarded s' = slots_forwarded s @ arm_slots es"
proof (induction rule: run_loop_induct)
  case (Cons s e t es s')
  then show ?case by (cases e) (auto dest!: health_step_cases)
qed simp

lemma run_no_check_state:
  "run_loop (health_step thr) s es = Ok s' \<Longrightarrow> list_all (\<lambda>e. \<not> is_check e) es
     \<Longrightarrow> health_state_cell s' = health_state_cell s"
proof (induction rule: run_loop_induct)
  case (Cons s e t es s')
  then show ?case by (cases e) (auto simp: is_check_def dest!: health_step_cases)
qed simp

text \<open>The verdict of a check depends only on its time and on the time of the last slot.\<close>

lemma health_after_check:
  assumes "run_loop (health_step thr) (health_manager_new start) (es @ (CheckTick t, n) # fs) = Ok s"
    and "list_all (\<lambda>e. \<not> is_check e) fs"
  shows "health_state_cell s = Healthy \<longleftrightarrow> elapsed t (last_slot_time start es) \<le> thr"
proof -
  from assms(1) obtain a b where a: "run_loop (health_step thr) (health_manager_new start) es = Ok a"
    and b: "health_step thr a (CheckTick t, n) = Ok b"
    and s: "run_loop (health_step thr) b fs = Ok s"
    by (auto simp: run_loop_append rust_simps)
  have "last_update a = last_slot_time start es"
    using run_last_update [OF a] by (simp add: health_manager_new_def)
  with health_step_cases [OF b] run_no_check_state [OF s assms(2)] show ?thesis by auto
qed

text \<open>A trace without any check leaves the initial verdict.\<close>

lemma unhealthy_before_first_check:
  assumes "run_loop (health_step thr) (health_manager_new start) es = Ok s"
    and "list_all (\<lambda>e. \<not> is_check e) es"
  shows "health_state_cell s = Unhealthy"
  using run_no_check_state [OF assms] by (simp add: health_manager_new_def)

end
