(* ===== verification/Relayer_Core.thy ===== *)
theory Relayer_Core
  imports Ofac Channels Schedule_Cache Health_Manager
begin

text \<open>
  The relayer service of \<open>relayer/src/relayer.rs\<close>: its metrics, the handlers of its event loop
  (slots, delayed packets, subscriptions, heartbeats, metrics), the loop itself and the two gRPC
  calls. A sender (\<open>TokioSender\<close>) is a value of the type variable \<open>'s\<close> with the operations
  \<open>sender_ops\<close>. \<open>usize\<close> is 64 bits wide and arithmetic wraps, as in the release build.
  A histogram is the list of the values recorded in it.
\<close>

section \<open>Metrics\<close>

record packet_forward_stats =
  num_packets_forwarded :: u64
  num_packets_dropped :: u64

record relayer_metrics =
  highest_slot :: u64
  num_added_connections :: u64
  num_removed_connections :: u64
  num_current_connections :: u64
  num_heartbeats :: u64
  max_heartbeat_tick_latency_us :: u64
  metrics_latency_us :: u64
  num_try_send_channel_full :: u64
  packet_latencies_us :: "u64 list"
  slot_receiver_processing_us :: "u64 list"
  delay_packet_receiver_processing_us :: "u64 list"
  subscription_receiver_processing_us :: "u64 list"
  heartbeat_tick_processing_us :: "u64 list"
  metrics_tick_processing_us :: "u64 list"
  slot_receiver_max_len :: u64
  slot_receiver_capacity :: u64
  subscription_receiver_max_len :: u64
  subscription_receiver_capacity :: u64
  delay_packet_receiver_max_len :: u64
  delay_packet_receiver_capacity :: u64
  packet_subscriptions_total_queued :: u64
  packet_stats_per_validator :: "(pubkey, packet_forward_stats) hmap"

definition relayer_metrics_new :: "u64 \<Rightarrow> u64 \<Rightarrow> u64 \<Rightarrow> relayer_metrics" where
  "relayer_metrics_new slot_cap subscription_cap delay_cap =
     \<lparr>highest_slot = 0, num_added_connections = 0, num_removed_connections = 0,
      num_current_connections = 0, num_heartbeats = 0, max_heartbeat_tick_latency_us = 0,
      metrics_latency_us = 0, num_try_send_channel_full = 0, packet_latencies_us = [],
      slot_receiver_processing_us = [], delay_packet_receiver_processing_us = [],
      subscription_receiver_processing_us = [], heartbeat_tick_processing_us = [],
      metrics_tick_processing_us = [], slot_receiver_max_len = 0,
      slot_receiver_capacity = slot_cap, subscription_receiver_max_len = 0,
      subscription_receiver_capacity = subscription_cap, delay_packet_receiver_max_len = 0,
      delay_packet_receiver_capacity = delay_cap, packet_subscriptions_total_queued = 0,
      packet_stats_per_validator = []\<rparr>"

definition update_max_len :: "relayer_metrics \<Rightarrow> u64 \<Rightarrow> u64 \<Rightarrow> u64 \<Rightarrow> relayer_metrics" where
  "update_max_len m slot_len subscription_len delay_len =
     m\<lparr>slot_receiver_max_len := max (slot_receiver_max_len m) slot_len,
       subscription_receiver_max_len := max (subscription_receiver_max_len m) subscription_len,
       delay_packet_receiver_max_len := max (delay_packet_receiver_max_len m) delay_len\<rparr>"

definition SUBSCRIBER_QUEUE_CAPACITY :: u64 where
  "SUBSCRIBER_QUEUE_CAPACITY = 50000"

definition update_packet_subscription_total_capacity ::
  "('s, 'm) sender_ops \<Rightarrow> (pubkey, 's) hmap \<Rightarrow> relayer_metrics \<Rightarrow> relayer_metrics" where
  "update_packet_subscription_total_capacity ops subs m =
     m\<lparr>packet_subscriptions_total_queued :=
         sum_list (map (\<lambda>(_, x). SUBSCRIBER_QUEUE_CAPACITY - capacity ops x) subs)\<rparr>"

definition increment_packets_forwarded :: "relayer_metrics \<Rightarrow> pubkey \<Rightarrow> u64 \<Rightarrow> relayer_metrics" where
  "increment_packets_forwarded m validator_id num_packets =
     m\<lparr>packet_stats_per_validator :=
        hm_insert validator_id
          (case hm_get (packet_stats_per_validator m) validator_id of
             Some entry \<Rightarrow>
               entry\<lparr>num_packets_forwarded := saturating_add (num_packets_forwarded entry) num_packets\<rparr>
           | None \<Rightarrow> \<lparr>num_packets_forwarded = num_packets, num_packets_dropped = 0\<rparr>)
          (packet_stats_per_validator m)\<rparr>"

definition increment_packets_dropped :: "relayer_metrics \<Rightarrow> pubkey \<Rightarrow> u64 \<Rightarrow> relayer_metrics" where
  "increment_packets_dropped m validator_id num_packets =
     m\<lparr>packet_stats_per_validator :=
        hm_insert validator_id
          (case hm_get (packet_stats_per_validator m) validator_id of
             Some entry \<Rightarrow>
               entry\<lparr>num_packets_dropped := saturating_add (num_packets_dropped entry) num_packets\<rparr>
           | None \<Rightarrow> \<lparr>num_packets_forwarded = 0, num_packets_dropped = num_packets\<rparr>)
          (packet_stats_per_validator m)\<rparr>"

section \<open>Messages, subscriptions, errors\<close>

text \<open>A \<open>SystemTime\<close> is a number of nanoseconds since the epoch.\<close>

type_synonym system_time = nat

record proto_header =
  header_ts :: "system_time option"

record proto_packet_batch =
  batch_packets :: "proto_packet list"

datatype subscribe_msg = BatchMsg proto_packet_batch | HeartbeatMsg u64

record subscribe_packets_response =
  resp_header :: "proto_header option"
  resp_msg :: "subscribe_msg option"

record relayer_packet_batches =
  rpb_stamp :: instant
  rpb_batch :: banking_packet_batch

datatype 's subscription = ValidatorPacketSubscription pubkey 's

datatype relayer_error = Shutdown

type_synonym 's packet_subscriptions = "(pubkey, 's) hmap"
type_synonym 's relayer_ops = "('s, subscribe_packets_response) sender_ops"

definition connected_validators :: "'s packet_subscriptions \<Rightarrow> pubkey list" where
  "connected_validators subs = hm_keys subs"

section \<open>Handlers\<close>

definition drop_connections ::
  "pubkey list \<Rightarrow> 's packet_subscriptions \<Rightarrow> relayer_metrics
     \<Rightarrow> 's packet_subscriptions \<times> relayer_metrics" where
  "drop_connections disconnected subs m =
     (fold hm_remove disconnected subs,
      m\<lparr>num_removed_connections :=
          num_removed_connections m + word_of_nat (length disconnected)\<rparr>)"

definition heartbeat_response :: "u64 \<Rightarrow> subscribe_packets_response" where
  "heartbeat_response n = \<lparr>resp_header = None, resp_msg = Some (HeartbeatMsg n)\<rparr>"

fun heartbeat_entries ::
  "'s relayer_ops \<Rightarrow> u64 \<Rightarrow> 's packet_subscriptions \<Rightarrow> u64
     \<Rightarrow> 's packet_subscriptions \<times> u64 \<times> pubkey list" where
  "heartbeat_entries ops n [] full = ([], full, [])"
| "heartbeat_entries ops n ((pk, sender) # rest) full =
     (case try_send ops sender (heartbeat_response n) of
        (SendOk, s') \<Rightarrow>
          (case heartbeat_entries ops n rest full of
             (subs, full', failed) \<Rightarrow> ((pk, s') # subs, full', failed))
      | (SendClosed, s') \<Rightarrow>
          (case heartbeat_entries ops n rest full of
             (subs, full', failed) \<Rightarrow> ((pk, s') # subs, full', pk # failed))
      | (SendFull, s') \<Rightarrow>
          (case heartbeat_entries ops n rest (full + 1) of
             (subs, full', failed) \<Rightarrow> ((pk, s') # subs, full', failed)))"

definition handle_heartbeat ::
  "'s relayer_ops \<Rightarrow> 's packet_subscriptions \<Rightarrow> relayer_metrics
     \<Rightarrow> pubkey list \<times> 's packet_subscriptions \<times> relayer_metrics" where
  "handle_heartbeat ops subs m =
     (case heartbeat_entries ops (num_heartbeats m) subs (num_try_send_channel_full m) of
        (subs', full, failed) \<Rightarrow>
          (failed, subs',
           m\<lparr>num_try_send_channel_full := full, num_heartbeats := num_heartbeats m + 1\<rparr>))"

text \<open>Discarded and OFAC-related packets are removed before packets are converted.\<close>

definition ofac_pass :: "sdk \<Rightarrow> pubkey set \<Rightarrow> lookup_cache \<Rightarrow> packet \<Rightarrow> packet option" where
  "ofac_pass k ofac cache packet =
     (if ofac \<noteq> {} then
        (case deserialize_slice k packet of
           None \<Rightarrow> None
         | Some tx \<Rightarrow> if \<not> is_tx_ofac_related tx ofac cache then Some packet else None)
      else Some packet)"

definition eligible_packets ::
  "sdk \<Rightarrow> pubkey set \<Rightarrow> lookup_cache \<Rightarrow> banking_packet_batch \<Rightarrow> proto_packet list" where
  "eligible_packets k ofac cache batches =
     concat (map (\<lambda>batch.
       List.map_filter (packet_to_proto_packet k)
         (List.map_filter (ofac_pass k ofac cache)
           (filter (\<lambda>p. \<not> discard (meta_flags (meta p))) batch))) batches)"

definition packet_response ::
  "(nat \<Rightarrow> pubkey \<Rightarrow> system_time) \<Rightarrow> nat \<Rightarrow> pubkey \<Rightarrow> proto_packet_batch \<Rightarrow> subscribe_packets_response" where
  "packet_response clock i pk batch =
     \<lparr>resp_header = Some \<lparr>header_ts = Some (clock i pk)\<rparr>, resp_msg = Some (BatchMsg batch)\<rparr>"

text \<open>
  The inner loop: one batch to every sender. \<open>clock i pk\<close> is the reading of \<open>SystemTime::now()\<close> for
  the \<open>i\<close>-th batch and subscriber \<open>pk\<close>. The senders are the subscribers' entries of the map.
\<close>

fun send_batch ::
  "'s relayer_ops \<Rightarrow> (nat \<Rightarrow> pubkey \<Rightarrow> system_time) \<Rightarrow> nat \<Rightarrow> proto_packet_batch \<Rightarrow> pubkey list
     \<Rightarrow> 's packet_subscriptions \<times> relayer_metrics \<times> pubkey list
     \<Rightarrow> 's packet_subscriptions \<times> relayer_metrics \<times> pubkey list" where
  "send_batch ops clock i batch [] st = st"
| "send_batch ops clock i batch (pk # pks) (subs, m, failed) =
     (case hm_get subs pk of
        None \<Rightarrow> send_batch ops clock i batch pks (subs, m, failed)
      | Some sender \<Rightarrow>
          (case try_send ops sender (packet_response clock i pk batch) of
             (SendOk, s') \<Rightarrow>
               send_batch ops clock i batch pks
                 (hm_insert pk s' subs,
                  increment_packets_forwarded m pk (word_of_nat (length (batch_packets batch))), failed)
           | (SendFull, s') \<Rightarrow>
               send_batch ops clock i batch pks
                 (hm_insert pk s' subs,
                  increment_packets_dropped m pk (word_of_nat (length (batch_packets batch))), failed)
           | (SendClosed, s') \<Rightarrow>
               send_batch ops clock i batch pks (hm_insert pk s' subs, m, failed @ [pk])))"

fun send_batches ::
  "'s relayer_ops \<Rightarrow> (nat \<Rightarrow> pubkey \<Rightarrow> system_time) \<Rightarrow> nat \<Rightarrow> proto_packet_batch list \<Rightarrow> pubkey list
     \<Rightarrow> 's packet_subscriptions \<times> relayer_metrics \<times> pubkey list
     \<Rightarrow> 's packet_subscriptions \<times> relayer_metrics \<times> pubkey list" where
  "send_batches ops clock i [] senders st = st"
| "send_batches ops clock i (batch # batches) senders st =
     send_batches ops clock (Suc i) batches senders
       (if batch_packets batch = [] then st else send_batch ops clock i batch senders st)"

definition select_senders :: "bool \<Rightarrow> 's packet_subscriptions \<Rightarrow> pubkey list \<Rightarrow> pubkey list" where
  "select_senders forward_all subs slot_leaders =
     (if forward_all then hm_keys subs
      else filter (\<lambda>pk. hm_get subs pk \<noteq> None) slot_leaders)"

record forward_config =
  ofac_addresses :: "pubkey set"
  validator_packet_batch_size :: nat
  forward_all :: bool

definition forward_packets ::
  "sdk \<Rightarrow> 's relayer_ops \<Rightarrow> (nat \<Rightarrow> pubkey \<Rightarrow> system_time) \<Rightarrow> instant \<Rightarrow> forward_config \<Rightarrow> lookup_cache
     \<Rightarrow> (relayer_packet_batches, recv_error) result \<Rightarrow> 's packet_subscriptions \<Rightarrow> pubkey list
     \<Rightarrow> relayer_metrics
     \<Rightarrow> (pubkey list \<times> 's packet_subscriptions \<times> relayer_metrics, relayer_error) result" where
  "forward_packets k ops clock now cfg cache maybe_packet_batches subs slot_leaders m =
     and_then (map_err (\<lambda>_. Shutdown) maybe_packet_batches) (\<lambda>packet_batches.
       let m1 = m\<lparr>packet_latencies_us :=
                   packet_latencies_us m @ [as_micros_u64 (elapsed now (rpb_stamp packet_batches))]\<rparr>;
           packets = eligible_packets k (ofac_addresses cfg) cache (rpb_batch packet_batches)
       in if validator_packet_batch_size cfg = 0 then Panic
          else
            let batches = map (\<lambda>c. \<lparr>batch_packets = c\<rparr>) (chunks (validator_packet_batch_size cfg) packets);
                senders = select_senders (forward_all cfg) subs slot_leaders
            in (case send_batches ops clock 0 batches senders (subs, m1, []) of
                  (subs', m2, failed) \<Rightarrow> Ok (failed, subs', m2)))"

definition handle_subscription ::
  "('s subscription, recv_error) result \<Rightarrow> 's packet_subscriptions \<Rightarrow> relayer_metrics
     \<Rightarrow> ('s packet_subscriptions \<times> relayer_metrics, relayer_error) result" where
  "handle_subscription maybe_subscription subs m =
     and_then (map_err (\<lambda>_. Shutdown) maybe_subscription) (\<lambda>sub.
       case sub of ValidatorPacketSubscription pk sender \<Rightarrow>
         (case hm_get subs pk of
            None \<Rightarrow> Ok (hm_insert pk sender subs,
                         m\<lparr>num_added_connections := num_added_connections m + 1\<rparr>)
          | Some _ \<Rightarrow> Ok (hm_insert pk sender subs, m)))"

definition update_highest_slot ::
  "(slot, recv_error) result \<Rightarrow> relayer_metrics \<Rightarrow> (slot \<times> relayer_metrics, relayer_error) result" where
  "update_highest_slot maybe_slot m =
     and_then (map_err (\<lambda>_. Shutdown) maybe_slot) (\<lambda>s. Ok (s, m\<lparr>highest_slot := s\<rparr>))"

section \<open>The event loop\<close>

text \<open>\<open>(a..b).collect()\<close> on \<open>u64\<close>.\<close>

definition u64_range :: "u64 \<Rightarrow> u64 \<Rightarrow> u64 list" where
  "u64_range a b = map word_of_nat [unat a..<unat b]"

record 's relayer_loop =
  cur_highest_slot :: slot
  slot_leaders :: "pubkey list"
  loop_metrics :: relayer_metrics
  packet_subscriptions :: "'s packet_subscriptions"
  reports :: "relayer_metrics list"

record loop_config =
  fwd_config :: forward_config
  slot_lookahead :: u64
  slot_chan_capacity :: u64
  subscription_chan_capacity :: u64
  delay_chan_capacity :: u64

text \<open>
  One iteration's view of the outside: the instants read at the start and at the end of the arm, the
  wall clock, the shared leader schedule, health state and lookup table cache, and the lengths of
  the three channels after the arm.
\<close>

record loop_env =
  env_start :: instant
  env_end :: instant
  env_clock :: "nat \<Rightarrow> pubkey \<Rightarrow> system_time"
  env_schedule :: schedule
  env_health :: health_state
  env_lookup :: lookup_cache
  env_lens :: "u64 \<times> u64 \<times> u64"

datatype 's relayer_arm =
    SlotArm "(slot, recv_error) result"
  | DelayPacketArm "(relayer_packet_batches, recv_error) result"
  | SubscriptionArm "('s subscription, recv_error) result"
  | HeartbeatArm "(instant, recv_error) result"
  | MetricsArm "(instant, recv_error) result"

definition slot_arm :: "loop_config \<Rightarrow> loop_env \<Rightarrow> 's relayer_loop \<Rightarrow> (slot, recv_error) result
    \<Rightarrow> ('s relayer_loop, relayer_error) result" where
  "slot_arm cfg env s maybe_slot =
     and_then (update_highest_slot maybe_slot (loop_metrics s)) (\<lambda>(hs, m).
       let slots = u64_range hs (hs + slot_lookahead cfg);
           leaders = leaders_for_slots (env_schedule env) slots
       in Ok (s\<lparr>cur_highest_slot := hs, slot_leaders := leaders,
                loop_metrics := m\<lparr>slot_receiver_processing_us := slot_receiver_processing_us m
                  @ [as_micros_u64 (elapsed (env_end env) (env_start env))]\<rparr>\<rparr>))"

definition delay_packet_arm ::
  "sdk \<Rightarrow> 's relayer_ops \<Rightarrow> loop_config \<Rightarrow> loop_env \<Rightarrow> 's relayer_loop
     \<Rightarrow> (relayer_packet_batches, recv_error) result \<Rightarrow> ('s relayer_loop, relayer_error) result" where
  "delay_packet_arm k ops cfg env s maybe_batches =
     and_then (forward_packets k ops (env_clock env) (env_start env) (fwd_config cfg) (env_lookup env)
                 maybe_batches (packet_subscriptions s) (slot_leaders s) (loop_metrics s))
       (\<lambda>(failed, subs, m).
          case drop_connections failed subs m of (subs', m') \<Rightarrow>
            Ok (s\<lparr>packet_subscriptions := subs',
                  loop_metrics := m'\<lparr>delay_packet_receiver_processing_us :=
                    delay_packet_receiver_processing_us m'
                    @ [as_micros_u64 (elapsed (env_end env) (env_start env))]\<rparr>\<rparr>))"

definition subscription_arm :: "loop_env \<Rightarrow> 's relayer_loop \<Rightarrow> ('s subscription, recv_error) result
    \<Rightarrow> ('s relayer_loop, relayer_error) result" where
  "subscription_arm env s maybe_subscription =
     and_then (handle_subscription maybe_subscription (packet_subscriptions s) (loop_metrics s))
       (\<lambda>(subs, m).
          Ok (s\<lparr>packet_subscriptions := subs,
                loop_metrics := m\<lparr>subscription_receiver_processing_us :=
                  subscription_receiver_processing_us m
                  @ [as_micros_u64 (elapsed (env_end env) (env_start env))]\<rparr>\<rparr>))"

definition heartbeat_arm :: "'s relayer_ops \<Rightarrow> loop_env \<Rightarrow> 's relayer_loop \<Rightarrow> (instant, recv_error) result
    \<Rightarrow> ('s relayer_loop, relayer_error) result" where
  "heartbeat_arm ops env s time_generated =
     (let m = loop_metrics s;
          m1 = (case time_generated of
                  Ok t \<Rightarrow> m\<lparr>max_heartbeat_tick_latency_us :=
                    max (max_heartbeat_tick_latency_us m) (as_micros_u64 (elapsed (env_start env) t))\<rparr>
                | _ \<Rightarrow> m);
          (to_drop, subs, m2) =
            (case env_health env of
               Healthy \<Rightarrow> handle_heartbeat ops (packet_subscriptions s) m1
             | Unhealthy \<Rightarrow> (hm_keys (packet_subscriptions s), packet_subscriptions s, m1));
          (subs', m3) = drop_connections to_drop subs m2
      in Ok (s\<lparr>packet_subscriptions := subs',
               loop_metrics := m3\<lparr>heartbeat_tick_processing_us := heartbeat_tick_processing_us m3
                 @ [as_micros_u64 (elapsed (env_end env) (env_start env))]\<rparr>\<rparr>))"

text \<open>\<open>reports\<close> lists the metrics handed to \<open>report\<close>, oldest first.\<close>

definition metrics_arm ::
  "'s relayer_ops \<Rightarrow> loop_config \<Rightarrow> loop_env \<Rightarrow> 's relayer_loop \<Rightarrow> (instant, recv_error) result
     \<Rightarrow> ('s relayer_loop, relayer_error) result" where
  "metrics_arm ops cfg env s time_generated =
     (let m = (loop_metrics s)\<lparr>num_current_connections := word_of_nat (length (packet_subscriptions s))\<rparr>;
          m1 = update_packet_subscription_total_capacity ops (packet_subscriptions s) m;
          m2 = (case time_generated of
                  Ok t \<Rightarrow> m1\<lparr>metrics_latency_us := as_micros_u64 (elapsed (env_start env) t)\<rparr>
                | _ \<Rightarrow> m1);
          m3 = m2\<lparr>metrics_tick_processing_us := metrics_tick_processing_us m2
                 @ [as_micros_u64 (elapsed (env_end env) (env_start env))]\<rparr>
      in Ok (s\<lparr>reports := reports s @ [m3],
               loop_metrics := relayer_metrics_new (slot_chan_capacity cfg)
                 (subscription_chan_capacity cfg) (delay_chan_capacity cfg)\<rparr>))"

definition relayer_step ::
  "sdk \<Rightarrow> 's relayer_ops \<Rightarrow> loop_config \<Rightarrow> 's relayer_loop \<Rightarrow> 's relayer_arm \<times> loop_env
     \<Rightarrow> ('s relayer_loop, relayer_error) result" where
  "relayer_step k ops cfg s ev =
     (case ev of (arm, env) \<Rightarrow>
        and_then
          (case arm of
             SlotArm r \<Rightarrow> slot_arm cfg env s r
           | DelayPacketArm r \<Rightarrow> delay_packet_arm k ops cfg env s r
           | SubscriptionArm r \<Rightarrow> subscription_arm env s r
           | HeartbeatArm r \<Rightarrow> heartbeat_arm ops env s r
           | MetricsArm r \<Rightarrow> metrics_arm ops cfg env s r)
          (\<lambda>s'. case env_lens env of (a, b, c) \<Rightarrow>
             Ok (s'\<lparr>loop_metrics := update_max_len (loop_metrics s') a b c\<rparr>)))"

definition relayer_init :: "loop_config \<Rightarrow> 's relayer_loop" where
  "relayer_init cfg =
     \<lparr>cur_highest_slot = 0, slot_leaders = [],
      loop_metrics = relayer_metrics_new (slot_chan_capacity cfg) (subscription_chan_capacity cfg)
        (delay_chan_capacity cfg),
      packet_subscriptions = [], reports = []\<rparr>"

definition run_event_loop ::
  "sdk \<Rightarrow> 's relayer_ops \<Rightarrow> loop_config \<Rightarrow> ('s relayer_arm \<times> loop_env) list
     \<Rightarrow> ('s relayer_loop, relayer_error) result" where
  "run_event_loop k ops cfg events = run_loop (relayer_step k ops cfg) (relayer_init cfg) events"

section \<open>The gRPC calls\<close>

definition check_health :: "health_state \<Rightarrow> (unit, status) result" where
  "check_health h = (if h \<noteq> Healthy then Err (Internal ''relayer is unhealthy'') else Ok ())"

record relayer_impl =
  tpu_quic_ports :: "u16 list"
  tpu_fwd_quic_ports :: "u16 list"
  public_ip :: ip_addr
  seq :: u64

definition relayer_impl_new :: "ip_addr \<Rightarrow> u16 list \<Rightarrow> u16 list \<Rightarrow> relayer_impl" where
  "relayer_impl_new ip quic_ports fwd_ports =
     \<lparr>tpu_quic_ports = quic_ports, tpu_fwd_quic_ports = fwd_ports, public_ip = ip, seq = 0\<rparr>"

record socket =
  socket_ip :: string
  socket_port :: "64 word"

record get_tpu_configs_response =
  tpu :: "socket option"
  tpu_forward :: "socket option"

text \<open>\<open>ports[seq % len] - 6\<close>: an empty port list is a remainder by zero.\<close>

definition pick_port :: "u16 list \<Rightarrow> u64 \<Rightarrow> ('p::len word, 'e) result" where
  "pick_port ports n =
     (if ports = [] then Panic
      else Ok (ucast (ports ! (unat n mod length ports) - 6)))"

definition get_tpu_configs ::
  "sdk \<Rightarrow> relayer_impl \<Rightarrow> relayer_impl \<times> (get_tpu_configs_response, status) result" where
  "get_tpu_configs k r =
     (r\<lparr>seq := seq r + 1\<rparr>,
      and_then (pick_port (tpu_quic_ports r) (seq r)) (\<lambda>p.
      and_then (pick_port (tpu_fwd_quic_ports r) (seq r)) (\<lambda>q.
        Ok \<lparr>tpu = Some \<lparr>socket_ip = ip_to_string (ip_text k) (public_ip r), socket_port = p\<rparr>,
            tpu_forward = Some \<lparr>socket_ip = ip_to_string (ip_text k) (public_ip r), socket_port = q\<rparr>\<rparr>)))"

text \<open>
  \<open>pubkey_ext\<close> is the public key the interceptor stored in the request, \<open>sender\<close> the new channel of
  capacity \<open>SUBSCRIBER_QUEUE_CAPACITY\<close>, \<open>sent\<close> whether the event loop's channel took the
  subscription. The result is the subscription put on that channel.
\<close>

definition subscribe_packets ::
  "health_state \<Rightarrow> pubkey option \<Rightarrow> 's \<Rightarrow> bool \<Rightarrow> ('s subscription, status) result" where
  "subscribe_packets health pubkey_ext sender sent =
     and_then (check_health health) (\<lambda>_.
     and_then (ok_or pubkey_ext (Internal ''internal error fetching public key'')) (\<lambda>pk.
       if sent then Ok (ValidatorPacketSubscription pk sender)
       else Err (Internal ''internal error adding subscription'')))"

end
