(* ===== verification/Relayer_Forwarding.thy ===== *)
theory Relayer_Forwarding
  imports Relayer_Core
begin

text \<open>
  Correctness of packet forwarding to validators. The code walks batch by batch over the
  subscribers; the lemmas here turn that into one independent sequence of sends per subscriber
  (\<open>send_seq\<close>) and derive delivery, failure and accounting from it.
\<close>

section \<open>The packets that are forwarded\<close>

definition ofac_clean :: "sdk \<Rightarrow> pubkey set \<Rightarrow> lookup_cache \<Rightarrow> packet \<Rightarrow> bool" where
  "ofac_clean k ofac cache p \<longleftrightarrow>
     ofac = {} \<or> (\<exists>tx. deserialize_slice k p = Some tx \<and> named_accounts cache tx \<inter> ofac = {})"

lemma ofac_pass_eq_Some: "ofac_pass k ofac cache p = Some q \<longleftrightarrow> q = p \<and> ofac_clean k ofac cache p"
  by (auto simp: ofac_pass_def ofac_clean_def is_tx_ofac_related_iff split: option.splits if_splits)

lemma eligible_packets_alt:
  "eligible_packets k ofac cache batches =
     List.map_filter (packet_to_proto_packet k)
       (filter (\<lambda>p. \<not> discard (meta_flags (meta p)) \<and> ofac_clean k ofac cache p) (concat batches))"
proof -
  have pass: "List.map_filter (ofac_pass k ofac cache) ps = filter (ofac_clean k ofac cache) ps" for ps
  proof (induction ps)
    case (Cons p ps)
    then show ?case
      using ofac_pass_eq_Some [of k ofac cache p]
      by (cases "ofac_pass k ofac cache p") (auto simp: map_filter_simps)
  qed (simp add: map_filter_simps)
  have app: "List.map_filter f (xs @ ys) = List.map_filter f xs @ List.map_filter f ys"
    for f :: "packet \<Rightarrow> proto_packet option" and xs ys
    by (simp add: List.map_filter_def)
  show ?thesis
    by (induction batches)
      (simp_all add: eligible_packets_def pass app filter_filter conj_commute map_filter_simps)
qed

lemma in_eligible_packets:
  "q \<in> set (eligible_packets k ofac cache batches) \<longleftrightarrow>
     (\<exists>batch\<in>set batches. \<exists>p\<in>set batch. \<not> discard (meta_flags (meta p)) \<and>
        ofac_clean k ofac cache p \<and> packet_to_proto_packet k p = Some q)"
  unfolding eligible_packets_alt by (force simp: List.map_filter_def)

section \<open>One batch to all senders\<close>

definition send_result :: "'s relayer_ops \<Rightarrow> (nat \<Rightarrow> pubkey \<Rightarrow> system_time) \<Rightarrow> nat \<Rightarrow> proto_packet_batch
    \<Rightarrow> 's packet_subscriptions \<Rightarrow> pubkey \<Rightarrow> send_outcome \<times> 's" where
  "send_result ops clock i b subs pk =
     try_send ops (the (hm_get subs pk)) (packet_response clock i pk b)"

text \<open>Packets forwarded and dropped for a validator, zero before the first.\<close>

definition stat :: "relayer_metrics \<Rightarrow> pubkey \<Rightarrow> u64 \<times> u64" where
  "stat m pk = (case hm_get (packet_stats_per_validator m) pk of
      None \<Rightarrow> (0, 0) | Some e \<Rightarrow> (num_packets_forwarded e, num_packets_dropped e))"

lemma stat_latencies: "stat (m\<lparr>packet_latencies_us := x\<rparr>) = stat m"
  by (simp add: stat_def fun_eq_iff)

fun account :: "send_outcome \<times> u64 \<Rightarrow> u64 \<times> u64 \<Rightarrow> u64 \<times> u64" where
  "account (SendOk, n) (f, d) = (saturating_add f n, d)"
| "account (SendFull, n) (f, d) = (f, saturating_add d n)"
| "account (SendClosed, n) (f, d) = (f, d)"

lemma saturating_add_0 [simp]: "saturating_add 0 n = n"
proof -
  have "unat n < 2 ^ LENGTH('a)" by (rule unsigned_less)
  then show ?thesis by (simp add: saturating_add_def)
qed

lemma stat_increment_packets_forwarded:
  "stat (increment_packets_forwarded m pk n) = (stat m)(pk := account (SendOk, n) (stat m pk))"
  by (auto simp: stat_def increment_packets_forwarded_def fun_eq_iff split: option.splits)

lemma stat_increment_packets_dropped:
  "stat (increment_packets_dropped m pk n) = (stat m)(pk := account (SendFull, n) (stat m pk))"
  by (auto simp: stat_def increment_packets_dropped_def fun_eq_iff split: option.splits)

lemma account_closed [simp]: "account (SendClosed, n) x = x"
  by (cases x) simp

lemma send_batch_Cons:
  assumes "hm_get subs pk = Some s" "send_result ops clock i b subs pk = (r, s')"
  shows "\<exists>m1. send_batch ops clock i b (pk # pks) (subs, m, failed) =
      send_batch ops clock i b pks
        (hm_insert pk s' subs, m1, failed @ (if r = SendClosed then [pk] else [])) \<and>
      stat m1 = (stat m)(pk := account (r, word_of_nat (length (batch_packets b))) (stat m pk))"
  using assms
  by (cases r)
    (auto simp: send_result_def stat_increment_packets_forwarded stat_increment_packets_dropped)

lemma send_batch_closed_form:
  assumes "send_batch ops clock i b pks (subs, m, failed) = (subs', m', failed')"
    and "distinct pks" "set pks \<subseteq> dom (hm_get subs)" "hm_inv subs"
  shows "hm_inv subs' \<and> hm_keys subs' = hm_keys subs \<and>
    hm_get subs' = (\<lambda>pk. if pk \<in> set pks then Some (snd (send_result ops clock i b subs pk))
                         else hm_get subs pk) \<and>
    failed' = failed @ filter (\<lambda>pk. fst (send_result ops clock i b subs pk) = SendClosed) pks \<and>
    stat m' = (\<lambda>pk. if pk \<in> set pks
        then account (fst (send_result ops clock i b subs pk), word_of_nat (length (batch_packets b)))
               (stat m pk)
        else stat m pk)"
  using assms
proof (induction pks arbitrary: subs m failed)
  case Nil
  then show ?case by simp
next
  case (Cons pk pks)
  from Cons.prems(3) obtain s where s: "hm_get subs pk = Some s" by auto
  obtain r s' where rs: "send_result ops clock i b subs pk = (r, s')"
    by (cases "send_result ops clock i b subs pk")
  obtain m1 where step: "send_batch ops clock i b (pk # pks) (subs, m, failed) =
      send_batch ops clock i b pks
        (hm_insert pk s' subs, m1, failed @ (if r = SendClosed then [pk] else []))"
    and m1: "stat m1 = (stat m)(pk := account (r, word_of_nat (length (batch_packets b))) (stat m pk))"
    using send_batch_Cons [OF s rs] by blast
  have other: "send_result ops clock i b (hm_insert pk s' subs) q = send_result ops clock i b subs q"
    if "q \<in> set pks" for q
    using that Cons.prems(2) by (auto simp: send_result_def)
  have keys: "hm_keys (hm_insert pk s' subs) = hm_keys subs"
    using s by (intro hm_keys_insert_present) (rule hm_get_in_keys)
  have eq: "send_batch ops clock i b pks
      (hm_insert pk s' subs, m1, failed @ (if r = SendClosed then [pk] else [])) = (subs', m', failed')"
    using Cons.prems(1) step by simp
  have d: "distinct pks" "set pks \<subseteq> dom (hm_get (hm_insert pk s' subs))"
    "hm_inv (hm_insert pk s' subs)"
    using Cons.prems by (auto simp: hm.inv_insert)
  have notin: "pk \<notin> set pks" using Cons.prems(2) by simp
  show ?case
    using Cons.IH [OF eq d] keys notin rs m1 other
    by (auto simp: fun_eq_iff cong: filter_cong)
qed

section \<open>All batches\<close>

fun responses :: "(nat \<Rightarrow> pubkey \<Rightarrow> system_time) \<Rightarrow> nat \<Rightarrow> pubkey \<Rightarrow> proto_packet_batch list
    \<Rightarrow> subscribe_packets_response list" where
  "responses clock i pk [] = []"
| "responses clock i pk (b # bs) = packet_response clock i pk b # responses clock (Suc i) pk bs"

definition deliveries :: "'s relayer_ops \<Rightarrow> (nat \<Rightarrow> pubkey \<Rightarrow> system_time) \<Rightarrow> nat \<Rightarrow> proto_packet_batch list
    \<Rightarrow> 's packet_subscriptions \<Rightarrow> pubkey \<Rightarrow> send_outcome list \<times> 's" where
  "deliveries ops clock i bs subs pk = send_seq ops (the (hm_get subs pk)) (responses clock i pk bs)"

definition batch_sizes :: "proto_packet_batch list \<Rightarrow> u64 list" where
  "batch_sizes bs = map (\<lambda>b. word_of_nat (length (batch_packets b))) bs"

lemma deliveries_Cons:
  assumes "\<And>pk. pk \<in> A \<Longrightarrow> hm_get subs1 pk = Some (snd (send_result ops clock i b subs pk))"
    and "pk \<in> A"
  shows "deliveries ops clock i (b # bs) subs pk =
     (fst (send_result ops clock i b subs pk) # fst (deliveries ops clock (Suc i) bs subs1 pk),
      snd (deliveries ops clock (Suc i) bs subs1 pk))"
  using assms by (simp add: deliveries_def send_result_def Let_def)

lemma send_batches_closed_form:
  assumes "send_batches ops clock i bs pks (subs, m, failed) = (subs', m', failed')"
    and "\<forall>b\<in>set bs. batch_packets b \<noteq> []"
    and "distinct pks" "set pks \<subseteq> dom (hm_get subs)" "hm_inv subs"
  shows "hm_inv subs' \<and> hm_keys subs' = hm_keys subs \<and>
    hm_get subs' = (\<lambda>pk. if pk \<in> set pks then Some (snd (deliveries ops clock i bs subs pk))
                         else hm_get subs pk) \<and>
    (\<forall>pk. count_list failed' pk = count_list failed pk +
       (if pk \<in> set pks then count_list (fst (deliveries ops clock i bs subs pk)) SendClosed else 0)) \<and>
    stat m' = (\<lambda>pk. if pk \<in> set pks
        then fold account (zip (fst (deliveries ops clock i bs subs pk)) (batch_sizes bs)) (stat m pk)
        else stat m pk)"
  using assms
proof (induction bs arbitrary: i subs m failed)
  case Nil
  then show ?case by (auto simp: deliveries_def fun_eq_iff batch_sizes_def)
next
  case (Cons b bs)
  obtain subs1 m1 failed1 where one: "send_batch ops clock i b pks (subs, m, failed) = (subs1, m1, failed1)"
    by (cases "send_batch ops clock i b pks (subs, m, failed)") auto
  note cf = send_batch_closed_form [OF one Cons.prems(3,4,5)]
  have rest: "send_batches ops clock (Suc i) bs pks (subs1, m1, failed1) = (subs', m', failed')"
    using Cons.prems(1,2) one by simp
  have pre: "\<forall>b\<in>set bs. batch_packets b \<noteq> []" "set pks \<subseteq> dom (hm_get subs1)" "hm_inv subs1"
    using Cons.prems cf by (auto simp: dom_def)
  note IH = Cons.IH [OF rest pre(1) Cons.prems(3) pre(2,3)]
  have dl: "deliveries ops clock i (b # bs) subs pk =
      (fst (send_result ops clock i b subs pk) # fst (deliveries ops clock (Suc i) bs subs1 pk),
       snd (deliveries ops clock (Suc i) bs subs1 pk))" if "pk \<in> set pks" for pk
    using that cf by (intro deliveries_Cons [where A = "set pks"]) auto
  have cnt: "count_list (filter P pks) pk = (if pk \<in> set pks \<and> P pk then 1 else 0)" for P pk
    using Cons.prems(3) by (induction pks) auto
  show ?case
    using IH cf dl by (auto simp: cnt fun_eq_iff batch_sizes_def)
qed

section \<open>forward\_packets\<close>

definition proto_batches :: "sdk \<Rightarrow> forward_config \<Rightarrow> lookup_cache \<Rightarrow> banking_packet_batch
    \<Rightarrow> proto_packet_batch list" where
  "proto_batches k cfg cache bb =
     map (\<lambda>c. \<lparr>batch_packets = c\<rparr>)
       (chunks (validator_packet_batch_size cfg) (eligible_packets k (ofac_addresses cfg) cache bb))"

lemma proto_batches_nonempty: "\<forall>b\<in>set (proto_batches k cfg cache bb). batch_packets b \<noteq> []"
  by (auto simp: proto_batches_def dest: chunks_sizes)

lemma proto_batches_size:
  "b \<in> set (proto_batches k cfg cache bb) \<Longrightarrow> length (batch_packets b) \<le> validator_packet_batch_size cfg"
  by (auto simp: proto_batches_def dest: chunks_sizes)

lemma concat_proto_batches:
  "0 < validator_packet_batch_size cfg \<Longrightarrow>
     concat (map batch_packets (proto_batches k cfg cache bb))
       = eligible_packets k (ofac_addresses cfg) cache bb"
  by (simp add: proto_batches_def comp_def concat_chunks)

lemma select_senders_wf:
  assumes "hm_inv subs" "distinct leaders"
  shows "distinct (select_senders fa subs leaders)"
    and "set (select_senders fa subs leaders) \<subseteq> dom (hm_get subs)"
    and "set (select_senders fa subs leaders)
      = (if fa then dom (hm_get subs) else set leaders \<inter> dom (hm_get subs))"
  using assms hm.set_keys [OF assms(1)] hm.distinct_keys [OF assms(1)]
  by (auto simp: select_senders_def)

lemma forward_packets_Ok:
  assumes "forward_packets k ops clock now cfg cache (Ok rpb) subs leaders m = Ok (failed, subs', m')"
  shows "0 < validator_packet_batch_size cfg"
    and "send_batches ops clock 0 (proto_batches k cfg cache (rpb_batch rpb))
      (select_senders (forward_all cfg) subs leaders)
      (subs, m\<lparr>packet_latencies_us :=
                packet_latencies_us m @ [as_micros_u64 (elapsed now (rpb_stamp rpb))]\<rparr>, [])
      = (subs', m', failed)"
  using assms
  by (auto simp: forward_packets_def Let_def proto_batches_def split: if_splits prod.splits)

lemma forward_packets_total:
  assumes "0 < validator_packet_batch_size cfg"
  shows "\<exists>failed subs' m'.
    forward_packets k ops clock now cfg cache (Ok rpb) subs leaders m = Ok (failed, subs', m')"
  using assms by (auto simp: forward_packets_def Let_def split: prod.splits)

text \<open>The whole call, subscriber by subscriber.\<close>

lemma forward_packets_closed_form:
  assumes "forward_packets k ops clock now cfg cache (Ok rpb) subs leaders m = Ok (failed, subs', m')"
    and "hm_inv subs" "distinct leaders"
  shows "hm_inv subs' \<and> hm_keys subs' = hm_keys subs \<and>
    hm_get subs' =
      (\<lambda>pk. if pk \<in> set (select_senders (forward_all cfg) subs leaders)
            then Some (snd (deliveries ops clock 0 (proto_batches k cfg cache (rpb_batch rpb)) subs pk))
            else hm_get subs pk) \<and>
    (\<forall>pk. count_list failed pk =
      (if pk \<in> set (select_senders (forward_all cfg) subs leaders)
       then count_list (fst (deliveries ops clock 0 (proto_batches k cfg cache (rpb_batch rpb)) subs pk))
              SendClosed
       else 0)) \<and>
    stat m' =
      (\<lambda>pk. if pk \<in> set (select_senders (forward_all cfg) subs leaders)
            then fold account
              (zip (fst (deliveries ops clock 0 (proto_batches k cfg cache (rpb_batch rpb)) subs pk))
                (batch_sizes (proto_batches k cfg cache (rpb_batch rpb)))) (stat m pk)
            else stat m pk)"
  using send_batches_closed_form [OF forward_packets_Ok(2) [OF assms(1)] proto_batches_nonempty
      select_senders_wf(1,2) [OF assms(2,3)] assms(2)]
  unfolding stat_latencies by simp

end
