(* ===== verification/Witness_Data.thy ===== *)
theory Witness_Data
  imports Relayer_Core
begin

text \<open>
  Concrete instances of the external functions and small inputs, on which the witnesses of the
  properties evaluate. A demo transaction is read off the packet's bytes: each byte is one static
  account key. Packets whose buffer is empty do not deserialize.
\<close>

definition demo_packet :: "bytes \<Rightarrow> packet" where
  "demo_packet bs =
     \<lparr>meta = \<lparr>meta_size = length bs, meta_addr = V4 0x7F000001, meta_port = 8000,
              meta_flags = \<lparr>discard = False, forwarded = False, repair = False,
                simple_vote_tx = False, perf_track_packet = False, from_staked_node = False\<rparr>\<rparr>,
      buffer = bs\<rparr>"

definition demo_tx :: "bytes \<Rightarrow> versioned_tx" where
  "demo_tx bs =
     \<lparr>static_account_keys = map ucast bs, address_table_lookups = None, tx_payload = []\<rparr>"

text \<open>The demo text form of an IPv6 address is a string of colons, one more than its value.\<close>

definition demo_v6 :: v6_text where
  "demo_v6 = \<lparr>v6_display = (\<lambda>a. replicate (Suc (unat a)) (CHR '':'')),
     v6_from_str = (\<lambda>s. if s \<noteq> [] \<and> list_all (\<lambda>c. c = CHR '':'') s then Some (word_of_nat (length s - 1)) else None)\<rparr>"

text \<open>The demo text form of a public key is a string of as many characters as its value.\<close>

definition demo_sdk :: sdk where
  "demo_sdk =
     \<lparr>packet_data = (\<lambda>p. if discard (meta_flags (meta p)) then None else Some (buffer p)),
      deserialize_slice = (\<lambda>p. if buffer p = [] then None else Some (demo_tx (buffer p))),
      is_maybe_writable = (\<lambda>tx i. True),
      pubkey_from_str = (\<lambda>s. if s = ''*'' then None else Some (word_of_nat (length s))),
      pubkey_to_string = (\<lambda>pk. replicate (unat pk) (CHR ''k'')),
      pubkey_try_from = (\<lambda>bs. if length bs = 32 then Some (ucast (hd bs)) else None),
      ip_text = demo_v6\<rparr>"

definition demo_rpb :: relayer_packet_batches where
  "demo_rpb = \<lparr>rpb_stamp = 0, rpb_batch = [[demo_packet [1], demo_packet [2]], [demo_packet [3]]]\<rparr>"

definition demo_fwd_config :: forward_config where
  "demo_fwd_config =
     \<lparr>ofac_addresses = {2}, validator_packet_batch_size = 1, forward_all = False\<rparr>"

definition demo_chan :: "subscribe_packets_response chan" where
  "demo_chan = chan_new 10"

definition demo_closed_chan :: "subscribe_packets_response chan" where
  "demo_closed_chan = (chan_new 10)\<lparr>ch_closed := True\<rparr>"

text \<open>Validator 7 listens, validator 8 has gone away, validator 9 is connected but no leader.\<close>

definition demo_subs :: "subscribe_packets_response chan packet_subscriptions" where
  "demo_subs = [(7, demo_chan), (8, demo_closed_chan), (9, demo_chan)]"

definition demo_metrics :: relayer_metrics where
  "demo_metrics = relayer_metrics_new 100 100 100"

definition demo_clock :: "nat \<Rightarrow> pubkey \<Rightarrow> system_time" where
  "demo_clock i pk = i"

definition demo_loop_config :: loop_config where
  "demo_loop_config =
     \<lparr>fwd_config = demo_fwd_config, slot_lookahead = 2, slot_chan_capacity = 100,
      subscription_chan_capacity = 100, delay_chan_capacity = 100\<rparr>"

definition demo_env :: "health_state \<Rightarrow> loop_env" where
  "demo_env h =
     \<lparr>env_start = 0, env_end = 5000, env_clock = demo_clock, env_schedule = [(40, 7), (41, 8)],
      env_health = h, env_lookup = (\<lambda>_. None), env_lens = (0, 0, 0)\<rparr>"

definition demo_loop :: "subscribe_packets_response chan relayer_loop" where
  "demo_loop =
     \<lparr>cur_highest_slot = 40, slot_leaders = [7, 8], loop_metrics = demo_metrics,
      packet_subscriptions = demo_subs, reports = []\<rparr>"

definition demo_forward ::
  "(pubkey list \<times> subscribe_packets_response chan packet_subscriptions \<times> relayer_metrics, relayer_error) result" where
  "demo_forward =
     forward_packets demo_sdk chan_ops demo_clock 0 demo_fwd_config (\<lambda>_. None) (Ok demo_rpb)
       demo_subs [7, 8] demo_metrics"

definition demo_events :: "(subscribe_packets_response chan relayer_arm \<times> loop_env) list" where
  "demo_events = [(SubscriptionArm (Ok (ValidatorPacketSubscription 7 demo_chan)), demo_env Healthy),
     (SlotArm (Ok 40), demo_env Healthy), (DelayPacketArm (Ok demo_rpb), demo_env Healthy)]"

definition demo_impl :: relayer_impl where
  "demo_impl = \<lparr>tpu_quic_ports = [11228, 11230], tpu_fwd_quic_ports = [11229],
     public_ip = V4 0x7F000001, seq = 0\<rparr>"

lemmas demo_defs = demo_packet_def demo_tx_def demo_v6_def demo_sdk_def demo_rpb_def
  demo_fwd_config_def demo_chan_def demo_closed_chan_def demo_subs_def demo_metrics_def
  demo_clock_def demo_loop_config_def demo_env_def demo_loop_def

text \<open>Evaluation of the relayer's handlers on closed inputs.\<close>

lemmas relayer_eval = forward_packets_def Let_def eligible_packets_def map_filter_simps ofac_pass_def
  is_tx_ofac_related_def is_ofac_address_in_static_keys_def is_ofac_address_in_lookup_table_def
  packet_to_proto_packet_def chunks.simps select_senders_def packet_response_def
  increment_packets_forwarded_def increment_packets_dropped_def chan_ops_def chan_try_send_def
  chan_new_def hm_insert_def hm_get_def hm_keys_def hm_remove_def

lemma demo_subs_inv: "hm_inv demo_subs"
  by (simp add: demo_subs_def hm_inv_def)

lemma demo_forward_runs:
  "case demo_forward of
     Ok (failed, subs', m') \<Rightarrow> failed = [8, 8] \<and> map fst subs' = [7, 8, 9]
        \<and> map (length \<circ> ch_log \<circ> snd) subs' = [2, 0, 0]
   | _ \<Rightarrow> False"
  by (simp add: demo_forward_def demo_defs relayer_eval)

end
