(* ===== verification/Relayer_Props.thy ===== *)
theory Relayer_Props
  imports Relayer_Forwarding Witness_Data
begin

text \<open>
  The properties of the relayer service: what a validator receives, who is disconnected, the
  invariant of the event loop, and the TPU ports handed out.
\<close>

section \<open>Helper lemmas\<close>

subsection \<open>Accounting\<close>

definition outcome_total :: "send_outcome \<Rightarrow> (send_outcome \<times> u64) list \<Rightarrow> nat" where
  "outcome_total r xs = sum_list (map (\<lambda>x. unat (snd x)) (filter (\<lambda>x. fst x = r) xs))"

lemma outcome_total_Cons [simp]:
  "outcome_total r (x # xs) = (if fst x = r then unat (snd x) else 0) + outcome_total r xs"
  by (simp add: outcome_total_def)

lemma outcome_total_Nil [simp]: "outcome_total r [] = 0"
  by (simp add: outcome_total_def)

lemma unat_saturating_add_u64:
  "unat (saturating_add a (b :: u64)) = min (unat a + unat b) (2 ^ 64 - 1)"
  by (simp add: unat_saturating_add)

lemma unat_u64_le: "unat (a :: u64) \<le> 2 ^ 64 - 1"
proof -
  have "unat a < 2 ^ LENGTH(64)" by (rule unsigned_less)
  then show ?thesis by simp
qed

lemma fold_account:
  "unat (fst (fold account xs (f, d))) = min (unat f + outcome_total SendOk xs) (2 ^ 64 - 1) \<and>
   unat (snd (fold account xs (f, d))) = min (unat d + outcome_total SendFull xs) (2 ^ 64 - 1)"
proof (induction xs arbitrary: f d)
  case Nil
  then show ?case using unat_u64_le [of f] unat_u64_le [of d] by simp
next
  case (Cons x xs)
  obtain r n where x: "x = (r, n)" by (cases x)
  show ?case
    by (cases r) (simp_all add: x Cons.IH unat_saturating_add_u64 min_def)
qed

subsection \<open>Responses\<close>

definition response_packets :: "subscribe_packets_response \<Rightarrow> proto_packet list" where
  "response_packets r =
     (case resp_msg r of Some (BatchMsg b) \<Rightarrow> batch_packets b | _ \<Rightarrow> [])"

lemma response_packets_packet_response [simp]:
  "response_packets (packet_response clock i pk b) = batch_packets b"
  by (simp add: response_packets_def packet_response_def)

lemma in_responses:
  "r \<in> set (responses clock i pk bs) \<Longrightarrow> \<exists>j. \<exists>b\<in>set bs. r = packet_response clock j pk b"
  by (induction clock i pk bs rule: responses.induct) auto

lemma concat_responses:
  "concat (map response_packets (responses clock i pk bs)) = concat (map batch_packets bs)"
  by (induction clock i pk bs rule: responses.induct) auto

lemma length_responses [simp]: "length (responses clock i pk bs) = length bs"
  by (induction clock i pk bs rule: responses.induct) auto

subsection \<open>What reaches a validator\<close>

lemma subseq_set: "subseq xs ys \<Longrightarrow> set xs \<subseteq> set ys"
  by (induction rule: list_emb.induct) auto

lemma target_deliveries:
  assumes "mpsc_sender ops accepted" "hm_get subs pk = Some c"
  shows "\<exists>ds. accepted (snd (deliveries ops clock i bs subs pk)) = accepted c @ ds \<and>
    subseq ds (responses clock i pk bs)"
  using mpsc_sender.accepted_send_seq_subseq [OF assms(1), of c "responses clock i pk bs"] assms(2)
  by (simp add: deliveries_def)

text \<open>
  A batch that may be sent to a validator: not empty, not longer than the batch size, and made of
  received packets that were neither discarded nor OFAC-related.
\<close>

definition clean_batch ::
  "sdk \<Rightarrow> forward_config \<Rightarrow> lookup_cache \<Rightarrow> banking_packet_batch \<Rightarrow> subscribe_packets_response \<Rightarrow> bool" where
  "clean_batch k cfg cache batches r \<longleftrightarrow>
     response_packets r \<noteq> [] \<and> length (response_packets r) \<le> validator_packet_batch_size cfg \<and>
     (\<forall>q\<in>set (response_packets r). \<exists>batch\<in>set batches. \<exists>p\<in>set batch.
        \<not> discard (meta_flags (meta p)) \<and> ofac_clean k (ofac_addresses cfg) cache p \<and>
        packet_to_proto_packet k p = Some q)"

lemma responses_clean:
  assumes "r \<in> set (responses clock i pk (proto_batches k cfg cache batches))"
  shows "clean_batch k cfg cache batches r"
proof -
  let ?bs = "proto_batches k cfg cache batches"
  from assms obtain j b where b: "b \<in> set ?bs" "r = packet_response clock j pk b"
    using in_responses by blast
  have "set (batch_packets b) \<subseteq> set (eligible_packets k (ofac_addresses cfg) cache batches)"
    using b(1) set_chunks_subset by (force simp: proto_batches_def)
  with b proto_batches_nonempty proto_batches_size show ?thesis
    by (fastforce simp: clean_batch_def in_eligible_packets)
qed

lemma delivered_messages:
  assumes "mpsc_sender ops accepted" "hm_get subs pk = Some c"
  shows "\<exists>new. accepted (snd (deliveries ops clock i (proto_batches k cfg cache batches) subs pk))
      = accepted c @ new \<and> (\<forall>r\<in>set new. clean_batch k cfg cache batches r)"
  using target_deliveries [OF assms] responses_clean subseq_set by (meson subsetD)

section \<open>The relayer loop\<close>

subsection \<open>Heartbeats\<close>

lemma heartbeat_entries_closed_form:
  "heartbeat_entries ops n subs full =
     (map (\<lambda>(pk, s). (pk, snd (try_send ops s (heartbeat_response n)))) subs,
      full + word_of_nat (length
        (filter (\<lambda>(pk, s). fst (try_send ops s (heartbeat_response n)) = SendFull) subs)),
      map fst (filter (\<lambda>(pk, s). fst (try_send ops s (heartbeat_response n)) = SendClosed) subs))"
proof (induction subs arbitrary: full)
  case Nil
  then show ?case by simp
next
  case (Cons e subs)
  obtain pk s where e: "e = (pk, s)" by (cases e)
  obtain r s' where t: "try_send ops s (heartbeat_response n) = (r, s')"
    by (cases "try_send ops s (heartbeat_response n)")
  show ?case by (cases r) (simp_all add: e t Cons.IH algebra_simps)
qed

lemma hm_get_map_values: "hm_get (map (\<lambda>(k, v). (k, f v)) m) k = map_option f (hm_get m k)"
  by (induction m) (auto simp: hm_get_def)

lemma hm_keys_map_values [simp]: "hm_keys (map (\<lambda>(k, v). (k, f v)) m) = hm_keys m"
  by (simp add: hm_keys_def comp_def case_prod_unfold)

lemma hm_inv_map_values [simp]: "hm_inv (map (\<lambda>(k, v). (k, f v)) m) = hm_inv m"
  by (simp add: hm_inv_def comp_def case_prod_unfold)

lemma in_filter_keys:
  assumes "hm_inv m"
  shows "k \<in> set (map fst (filter (\<lambda>(k, v). P v) m)) \<longleftrightarrow> (\<exists>v. hm_get m k = Some v \<and> P v)"
  using assms by (force simp: hm_get_def hm_inv_def)

subsection \<open>The loop invariant\<close>

definition relayer_inv :: "'s relayer_loop \<Rightarrow> bool" where
  "relayer_inv s \<longleftrightarrow> hm_inv (packet_subscriptions s) \<and> distinct (slot_leaders s)"

lemma drop_connections_get:
  assumes "drop_connections ks subs m = (subs', m')" "hm_inv subs"
  shows "hm_get subs' = (hm_get subs) |` (- set ks)" "hm_inv subs'"
  using assms hm.get_fold_remove [of subs ks] hm.inv_fold_remove [of subs ks]
  by (auto simp: drop_connections_def)

lemma forward_packets_recv_Ok:
  assumes "forward_packets k ops clock now cfg cache r subs leaders m = Ok x"
  obtains rpb where "r = Ok rpb"
  using assms by (cases r) (auto simp: forward_packets_def)

lemma delay_packet_arm_Ok:
  assumes "delay_packet_arm k ops cfg env s r = Ok s'"
  obtains rpb failed subs m m' where "r = Ok rpb"
    "forward_packets k ops (env_clock env) (env_start env) (fwd_config cfg) (env_lookup env) (Ok rpb)
       (packet_subscriptions s) (slot_leaders s) (loop_metrics s) = Ok (failed, subs, m)"
    "drop_connections failed subs m = (packet_subscriptions s', m')"
    "slot_leaders s' = slot_leaders s"
    "num_removed_connections (loop_metrics s') = num_removed_connections m'"
proof -
  from assms obtain x where x: "forward_packets k ops (env_clock env) (env_start env) (fwd_config cfg)
      (env_lookup env) r (packet_subscriptions s) (slot_leaders s) (loop_metrics s) = Ok x"
    by (auto simp: delay_packet_arm_def rust_simps)
  then obtain rpb where r: "r = Ok rpb" by (rule forward_packets_recv_Ok)
  obtain failed subs m where xx: "x = (failed, subs, m)" by (cases x)
  obtain subs' m' where d: "drop_connections failed subs m = (subs', m')"
    by (cases "drop_connections failed subs m")
  have "packet_subscriptions s' = subs'" "slot_leaders s' = slot_leaders s"
    "num_removed_connections (loop_metrics s') = num_removed_connections m'"
    using assms x xx d by (auto simp: delay_packet_arm_def)
  with that [OF r, of failed subs m m'] x xx d r show ?thesis by simp
qed

lemma delay_packet_arm_subscriptions:
  assumes "delay_packet_arm k ops cfg env s (Ok rpb) = Ok s'" "relayer_inv s"
  shows "hm_get (packet_subscriptions s') pk =
    (if pk \<in> set (select_senders (forward_all (fwd_config cfg)) (packet_subscriptions s) (slot_leaders s))
     then let d = deliveries ops (env_clock env) 0
                    (proto_batches k (fwd_config cfg) (env_lookup env) (rpb_batch rpb))
                    (packet_subscriptions s) pk
          in if SendClosed \<in> set (fst d) then None else Some (snd d)
     else hm_get (packet_subscriptions s) pk)"
  using assms(1)
proof (rule delay_packet_arm_Ok)
  fix rpb' failed subs m m'
  assume r: "Ok rpb = (Ok rpb' :: (relayer_packet_batches, recv_error) result)"
    and f: "forward_packets k ops (env_clock env) (env_start env) (fwd_config cfg) (env_lookup env)
      (Ok rpb') (packet_subscriptions s) (slot_leaders s) (loop_metrics s) = Ok (failed, subs, m)"
    and d: "drop_connections failed subs m = (packet_subscriptions s', m')"
  from assms(2) have inv: "hm_inv (packet_subscriptions s)" "distinct (slot_leaders s)"
    by (auto simp: relayer_inv_def)
  note cf = forward_packets_closed_form [OF f inv]
  have mem: "x \<in> set ys \<longleftrightarrow> 0 < count_list ys x" for x :: 'x and ys
    by (metis count_list_0_iff gr0I less_not_refl)
  from cf have "hm_inv subs" by blast
  note g = drop_connections_get(1) [OF d this]
  from r have rr: "rpb' = rpb" by simp
  show ?thesis
    unfolding g using cf
    by (auto simp: Let_def restrict_map_def mem [of _ failed] mem [of SendClosed] rr)
qed

lemma heartbeat_arm_subscriptions:
  assumes "heartbeat_arm ops env s t = Ok s'" "relayer_inv s"
  shows "hm_get (packet_subscriptions s') pk =
    (case env_health env of
       Unhealthy \<Rightarrow> None
     | Healthy \<Rightarrow>
         (case hm_get (packet_subscriptions s) pk of
            None \<Rightarrow> None
          | Some c \<Rightarrow>
              (case try_send ops c (heartbeat_response (num_heartbeats (loop_metrics s))) of
                 (r, c') \<Rightarrow> if r = SendClosed then None else Some c')))"
    and "relayer_inv s'"
proof -
  have inv: "hm_inv (packet_subscriptions s)" and sl: "distinct (slot_leaders s)"
    using assms(2) by (auto simp: relayer_inv_def)
  define hb where "hb = heartbeat_response (num_heartbeats (loop_metrics s))"
  define sent where "sent = map (\<lambda>(pk, c). (pk, snd (try_send ops c hb))) (packet_subscriptions s)"
  define closed where
    "closed = map fst (filter (\<lambda>(pk, c). fst (try_send ops c hb) = SendClosed) (packet_subscriptions s))"
  have si: "hm_inv sent" using inv by (simp add: sent_def)
  have subs': "packet_subscriptions s' =
      (case env_health env of
         Unhealthy \<Rightarrow> fold hm_remove (hm_keys (packet_subscriptions s)) (packet_subscriptions s)
       | Healthy \<Rightarrow> fold hm_remove closed sent)" and lead: "slot_leaders s' = slot_leaders s"
    using assms(1)
    by (auto simp: heartbeat_arm_def Let_def handle_heartbeat_def heartbeat_entries_closed_form
        drop_connections_def hb_def sent_def closed_def split: health_state.splits result.splits)
  show "relayer_inv s'"
    using hm.inv_fold_remove [OF inv] hm.inv_fold_remove [OF si] subs' lead sl
    by (auto simp: relayer_inv_def split: health_state.splits)
  have in_closed: "pk \<in> set closed \<longleftrightarrow>
      (\<exists>c. hm_get (packet_subscriptions s) pk = Some c \<and> fst (try_send ops c hb) = SendClosed)"
    unfolding closed_def using inv by (rule in_filter_keys)
  have get_sent: "hm_get sent pk = map_option (\<lambda>c. snd (try_send ops c hb)) (hm_get (packet_subscriptions s) pk)"
    unfolding sent_def by (rule hm_get_map_values)
  show "hm_get (packet_subscriptions s') pk =
    (case env_health env of
       Unhealthy \<Rightarrow> None
     | Healthy \<Rightarrow>
         (case hm_get (packet_subscriptions s) pk of
            None \<Rightarrow> None
          | Some c \<Rightarrow>
              (case try_send ops c (heartbeat_response (num_heartbeats (loop_metrics s))) of
                 (r, c') \<Rightarrow> if r = SendClosed then None else Some c')))"
  proof (cases "env_health env")
    case Unhealthy
    then show ?thesis
      using hm.get_fold_remove [OF inv] hm.set_keys [OF inv]
      by (auto simp: subs' restrict_map_def)
  next
    case Healthy
    then show ?thesis
      using hm.get_fold_remove [OF si, of closed] in_closed get_sent
      by (auto simp: subs' restrict_map_def hb_def [symmetric] split: option.splits prod.splits)
  qed
qed

lemma subscription_arm_subscriptions:
  assumes "subscription_arm env s r = Ok s'" "relayer_inv s"
  shows "\<exists>pk c. r = Ok (ValidatorPacketSubscription pk c) \<and>
      hm_get (packet_subscriptions s') = (hm_get (packet_subscriptions s))(pk \<mapsto> c)"
    and "relayer_inv s'"
proof -
  from assms(1) obtain sub where r: "r = Ok sub"
    by (cases r) (auto simp: subscription_arm_def handle_subscription_def)
  obtain pk c where sub: "sub = ValidatorPacketSubscription pk c" by (cases sub)
  have "packet_subscriptions s' = hm_insert pk c (packet_subscriptions s)"
    "slot_leaders s' = slot_leaders s"
    using assms(1) by (auto simp: subscription_arm_def handle_subscription_def r sub
        split: option.splits)
  then show "\<exists>pk c. r = Ok (ValidatorPacketSubscription pk c) \<and>
      hm_get (packet_subscriptions s') = (hm_get (packet_subscriptions s))(pk \<mapsto> c)"
    and "relayer_inv s'"
    using assms(2) r sub by (auto simp: relayer_inv_def hm.inv_insert)
qed

lemma delay_packet_arm_inv:
  assumes "delay_packet_arm k ops cfg env s r = Ok s'" "relayer_inv s"
  shows "relayer_inv s'"
  using assms(1)
proof (rule delay_packet_arm_Ok)
  fix rpb failed subs m m'
  assume f: "forward_packets k ops (env_clock env) (env_start env) (fwd_config cfg) (env_lookup env)
      (Ok rpb) (packet_subscriptions s) (slot_leaders s) (loop_metrics s) = Ok (failed, subs, m)"
    and d: "drop_connections failed subs m = (packet_subscriptions s', m')"
    and l: "slot_leaders s' = slot_leaders s"
  from assms(2) have inv: "hm_inv (packet_subscriptions s)" "distinct (slot_leaders s)"
    by (auto simp: relayer_inv_def)
  have "hm_inv subs" using forward_packets_closed_form [OF f inv] by blast
  then show ?thesis
    using drop_connections_get(2) [OF d] l inv by (simp add: relayer_inv_def)
qed

lemma slot_arm_inv: "slot_arm cfg env s r = Ok s' \<Longrightarrow> relayer_inv s \<Longrightarrow> relayer_inv s'"
  by (auto simp: slot_arm_def update_highest_slot_def rust_simps relayer_inv_def Let_def
      distinct_leaders_for_slots)

lemma metrics_arm_inv: "metrics_arm ops cfg env s r = Ok s' \<Longrightarrow> relayer_inv s \<Longrightarrow> relayer_inv s'"
  by (auto simp: metrics_arm_def relayer_inv_def Let_def)

lemmas arm_invs = slot_arm_inv delay_packet_arm_inv subscription_arm_subscriptions(2)
  heartbeat_arm_subscriptions(2) metrics_arm_inv

definition run_arm :: "sdk \<Rightarrow> 's relayer_ops \<Rightarrow> loop_config \<Rightarrow> 's relayer_loop \<Rightarrow> 's relayer_arm \<Rightarrow> loop_env
    \<Rightarrow> ('s relayer_loop, relayer_error) result" where
  "run_arm k ops cfg s arm env =
     (case arm of
        SlotArm r \<Rightarrow> slot_arm cfg env s r
      | DelayPacketArm r \<Rightarrow> delay_packet_arm k ops cfg env s r
      | SubscriptionArm r \<Rightarrow> subscription_arm env s r
      | HeartbeatArm r \<Rightarrow> heartbeat_arm ops env s r
      | MetricsArm r \<Rightarrow> metrics_arm ops cfg env s r)"

lemma relayer_step_Ok:
  assumes "relayer_step k ops cfg s (arm, env) = Ok s'"
  obtains t where "run_arm k ops cfg s arm env = Ok t"
    "packet_subscriptions s' = packet_subscriptions t" "slot_leaders s' = slot_leaders t"
    "cur_highest_slot s' = cur_highest_slot t"
proof -
  from assms obtain t where "run_arm k ops cfg s arm env = Ok t"
    and "s' = t\<lparr>loop_metrics := update_max_len (loop_metrics t) (fst (env_lens env))
      (fst (snd (env_lens env))) (snd (snd (env_lens env)))\<rparr>"
    by (cases "env_lens env") (auto simp: relayer_step_def run_arm_def [symmetric] rust_simps)
  with that show ?thesis by simp
qed

lemma run_arm_inv: "run_arm k ops cfg s arm env = Ok t \<Longrightarrow> relayer_inv s \<Longrightarrow> relayer_inv t"
  by (auto simp: run_arm_def split: relayer_arm.splits intro: arm_invs)

interpretation relayer_loop: event_loop "relayer_step k ops cfg" relayer_inv "\<lambda>_. True" for k ops cfg
proof unfold_locales
  fix s :: "'a relayer_loop" and e s'
  assume inv: "relayer_inv s" and step: "relayer_step k ops cfg s e = Ok s'"
  obtain arm env where e: "e = (arm, env)" by (cases e)
  from step [unfolded e] show "relayer_inv s'"
  proof (rule relayer_step_Ok)
    fix t assume t: "run_arm k ops cfg s arm env = Ok t"
      "packet_subscriptions s' = packet_subscriptions t" "slot_leaders s' = slot_leaders t"
    from run_arm_inv [OF t(1) inv] t(2,3) show ?thesis by (simp add: relayer_inv_def)
  qed
qed

lemma relayer_inv_init: "relayer_inv (relayer_init cfg)"
  by (simp add: relayer_inv_def relayer_init_def hm_inv_def)

subsection \<open>Who is connected\<close>

definition subscribed :: "('s relayer_arm \<times> loop_env) list \<Rightarrow> pubkey set" where
  "subscribed es = {pk. \<exists>c env. (SubscriptionArm (Ok (ValidatorPacketSubscription pk c)), env) \<in> set es}"

lemma run_arm_connected:
  assumes "run_arm k ops cfg s arm env = Ok t" "relayer_inv s"
    "hm_get (packet_subscriptions t) pk = Some c"
  shows "hm_get (packet_subscriptions s) pk \<noteq> None \<or>
    arm = SubscriptionArm (Ok (ValidatorPacketSubscription pk c))"
proof (cases arm)
  case (SlotArm r)
  with assms show ?thesis
    by (auto simp: run_arm_def slot_arm_def rust_simps Let_def)
next
  case (DelayPacketArm r)
  then have d: "delay_packet_arm k ops cfg env s r = Ok t" using assms(1) by (simp add: run_arm_def)
  then obtain rpb where r: "r = Ok rpb" by (rule delay_packet_arm_Ok)
  have "set (select_senders (forward_all (fwd_config cfg)) (packet_subscriptions s) (slot_leaders s))
      \<subseteq> dom (hm_get (packet_subscriptions s))"
    using assms(2) by (intro select_senders_wf(2)) (simp_all add: relayer_inv_def)
  then show ?thesis
    using delay_packet_arm_subscriptions [OF d [unfolded r] assms(2), of pk] assms(3)
    by (auto simp: eq_commute [of "Some c"] split: if_splits)
next
  case (SubscriptionArm r)
  then have "subscription_arm env s r = Ok t" using assms(1) by (simp add: run_arm_def)
  from subscription_arm_subscriptions(1) [OF this assms(2)] assms(3) SubscriptionArm show ?thesis
    by (auto split: if_splits)
next
  case (HeartbeatArm r)
  then have "heartbeat_arm ops env s r = Ok t" using assms(1) by (simp add: run_arm_def)
  from heartbeat_arm_subscriptions(1) [OF this assms(2), of pk] assms(3) show ?thesis
    by (auto split: health_state.splits option.splits)
next
  case (MetricsArm r)
  with assms show ?thesis by (auto simp: run_arm_def metrics_arm_def Let_def)
qed

lemma relayer_run_connected:
  "run_loop (relayer_step k ops cfg) s es = Ok s' \<Longrightarrow> relayer_inv s \<Longrightarrow>
     dom (hm_get (packet_subscriptions s')) \<subseteq> dom (hm_get (packet_subscriptions s)) \<union> subscribed es"
proof (induction rule: run_loop_induct)
  case (Nil s)
  then show ?case by simp
next
  case (Cons s e t es s')
  obtain arm env where e: "e = (arm, env)" by (cases e)
  from Cons.prems Cons.hyps(1) have ti: "relayer_inv t"
    by (blast intro: relayer_loop.step_inv)
  have "dom (hm_get (packet_subscriptions t)) \<subseteq> dom (hm_get (packet_subscriptions s)) \<union> subscribed [e]"
    using Cons.hyps(1) [unfolded e]
  proof (rule relayer_step_Ok)
    fix u assume "run_arm k ops cfg s arm env = Ok u"
      "packet_subscriptions t = packet_subscriptions u"
    with run_arm_connected [OF _ Cons.prems] e show ?thesis
      by (fastforce simp: subscribed_def)
  qed
  moreover have "subscribed (e # es) = subscribed [e] \<union> subscribed es"
    by (auto simp: subscribed_def)
  ultimately show ?case using Cons.IH [OF ti] by blast
qed

subsection \<open>The stream of a validator\<close>

definition is_heartbeat :: "subscribe_packets_response \<Rightarrow> bool" where
  "is_heartbeat r \<longleftrightarrow> (\<exists>n. r = heartbeat_response n)"

definition clean_message ::
  "sdk \<Rightarrow> loop_config \<Rightarrow> ('s relayer_arm \<times> loop_env) list \<Rightarrow> subscribe_packets_response \<Rightarrow> bool" where
  "clean_message k cfg es r \<longleftrightarrow> is_heartbeat r \<or>
     (\<exists>rpb env. (DelayPacketArm (Ok rpb), env) \<in> set es \<and>
        clean_batch k (fwd_config cfg) (env_lookup env) (rpb_batch rpb) r)"

lemma clean_message_mono: "clean_message k cfg es r \<Longrightarrow> set es \<subseteq> set fs \<Longrightarrow> clean_message k cfg fs r"
  by (auto simp: clean_message_def)

text \<open>
  \<open>opened es s pk c\<close>: channel \<open>c\<close> was registered for \<open>pk\<close> before the events \<open>es\<close> or by one of them.
\<close>

definition opened ::
  "('s relayer_arm \<times> loop_env) list \<Rightarrow> 's relayer_loop \<Rightarrow> pubkey \<Rightarrow> 's \<Rightarrow> bool" where
  "opened es s pk c \<longleftrightarrow> hm_get (packet_subscriptions s) pk = Some c \<or>
     (\<exists>env. (SubscriptionArm (Ok (ValidatorPacketSubscription pk c)), env) \<in> set es)"

lemma run_arm_stream:
  assumes "mpsc_sender ops accepted" "run_arm k ops cfg s arm env = Ok t" "relayer_inv s"
    and "hm_get (packet_subscriptions t) pk = Some c'"
  shows "\<exists>c new. opened [(arm, env)] s pk c \<and> accepted c' = accepted c @ new \<and>
    (\<forall>r\<in>set new. clean_message k cfg [(arm, env)] r)"
proof (cases arm)
  case (SlotArm r)
  with assms have "hm_get (packet_subscriptions s) pk = Some c'"
    by (auto simp: run_arm_def slot_arm_def rust_simps Let_def)
  then show ?thesis by (intro exI [of _ c'] exI [of _ "[]"]) (simp add: opened_def)
next
  case (DelayPacketArm r)
  then have d: "delay_packet_arm k ops cfg env s r = Ok t" using assms(2) by (simp add: run_arm_def)
  then obtain rpb where r: "r = Ok rpb" by (rule delay_packet_arm_Ok)
  let ?T = "set (select_senders (forward_all (fwd_config cfg)) (packet_subscriptions s) (slot_leaders s))"
  let ?d = "deliveries ops (env_clock env) 0
    (proto_batches k (fwd_config cfg) (env_lookup env) (rpb_batch rpb)) (packet_subscriptions s) pk"
  note g = delay_packet_arm_subscriptions [OF d [unfolded r] assms(3), of pk]
  show ?thesis
  proof (cases "pk \<in> ?T")
    case False
    then have "hm_get (packet_subscriptions s) pk = Some c'" using g assms(4) by simp
    then show ?thesis by (intro exI [of _ c'] exI [of _ "[]"]) (simp add: opened_def)
  next
    case True
    have "?T \<subseteq> dom (hm_get (packet_subscriptions s))"
      using assms(3) by (intro select_senders_wf(2)) (simp_all add: relayer_inv_def)
    with True obtain c where c: "hm_get (packet_subscriptions s) pk = Some c" by blast
    have "c' = snd ?d" using g assms(4) True by (simp add: Let_def split: if_splits)
    then obtain new where "accepted c' = accepted c @ new"
      "\<forall>q\<in>set new. clean_batch k (fwd_config cfg) (env_lookup env) (rpb_batch rpb) q"
      using delivered_messages [OF assms(1) c] by blast
    with c DelayPacketArm r show ?thesis
      by (intro exI [of _ c] exI [of _ new]) (auto simp: opened_def clean_message_def)
  qed
next
  case (SubscriptionArm r)
  then have "subscription_arm env s r = Ok t" using assms(2) by (simp add: run_arm_def)
  from subscription_arm_subscriptions(1) [OF this assms(3)] assms(4) SubscriptionArm
  have "opened [(arm, env)] s pk c'" by (auto simp: opened_def split: if_splits)
  then show ?thesis by (intro exI [of _ c'] exI [of _ "[]"]) simp
next
  case (HeartbeatArm r)
  define hb where "hb = heartbeat_response (num_heartbeats (loop_metrics s))"
  from HeartbeatArm have "heartbeat_arm ops env s r = Ok t" using assms(2) by (simp add: run_arm_def)
  from heartbeat_arm_subscriptions(1) [OF this assms(3), of pk] assms(4)
  obtain c where c: "hm_get (packet_subscriptions s) pk = Some c" "c' = snd (try_send ops c hb)"
    by (auto simp: hb_def split: health_state.splits option.splits prod.splits if_splits)
  have "is_heartbeat hb" by (auto simp: is_heartbeat_def hb_def)
  with c mpsc_sender.accepted_try_send [OF assms(1), of c hb] show ?thesis
    by (intro exI [of _ c] exI [of _ "if fst (try_send ops c hb) = SendOk then [hb] else []"])
      (simp add: opened_def clean_message_def)
next
  case (MetricsArm r)
  with assms have "hm_get (packet_subscriptions s) pk = Some c'"
    by (auto simp: run_arm_def metrics_arm_def Let_def)
  then show ?thesis by (intro exI [of _ c'] exI [of _ "[]"]) (simp add: opened_def)
qed

lemma relayer_run_stream:
  assumes sender: "mpsc_sender ops accepted"
  shows "run_loop (relayer_step k ops cfg) s es = Ok s' \<Longrightarrow> relayer_inv s \<Longrightarrow>
    hm_get (packet_subscriptions s') pk = Some c' \<Longrightarrow>
    \<exists>c new. opened es s pk c \<and> accepted c' = accepted c @ new \<and>
      (\<forall>r\<in>set new. clean_message k cfg es r)"
proof (induction rule: run_loop_induct)
  case (Nil s)
  then show ?case by (intro exI [of _ c'] exI [of _ "[]"]) (simp add: opened_def)
next
  case (Cons s e t es s')
  obtain arm env where e: "e = (arm, env)" by (cases e)
  from Cons.prems(1) Cons.hyps(1) have ti: "relayer_inv t"
    by (blast intro: relayer_loop.step_inv)
  from Cons.IH [OF ti Cons.prems(2)] obtain ct new where
    ct: "opened es t pk ct" "accepted c' = accepted ct @ new" "\<forall>r\<in>set new. clean_message k cfg es r"
    by blast
  have new: "\<forall>r\<in>set new. clean_message k cfg (e # es) r"
    using ct(3) clean_message_mono by (meson set_subset_Cons)
  show ?case
  proof (cases "hm_get (packet_subscriptions t) pk = Some ct")
    case False
    with ct(1) have "opened (e # es) s pk ct" by (auto simp: opened_def)
    with ct(2) new show ?thesis by blast
  next
    case True
    from Cons.hyps(1) [unfolded e] obtain u where u: "run_arm k ops cfg s arm env = Ok u"
      "packet_subscriptions t = packet_subscriptions u" by (rule relayer_step_Ok)
    from run_arm_stream [OF sender u(1) Cons.prems(1)] True u(2) obtain c first where
      c: "opened [e] s pk c" "accepted ct = accepted c @ first" "\<forall>r\<in>set first. clean_message k cfg [e] r"
      unfolding e by metis
    have "\<forall>r\<in>set (first @ new). clean_message k cfg (e # es) r"
      using c(3) new clean_message_mono [of k cfg "[e]" _ "e # es"] by auto
    moreover have "opened (e # es) s pk c" using c(1) by (auto simp: opened_def)
    ultimately show ?thesis using ct(2) c(2) by (metis append.assoc)
  qed
qed

subsection \<open>The leaders of the lookahead window\<close>

lemma set_u64_range:
  assumes "unat a + unat n < 2 ^ 64"
  shows "set (u64_range a (a + n)) = {a + word_of_nat i | i. i < unat n}"
proof -
  have "unat (a + n) = unat a + unat n"
    using assms by (simp add: unat_word_ariths)
  then have "set (u64_range a (a + n)) = word_of_nat ` {unat a..<unat a + unat n}"
    by (simp add: u64_range_def)
  also have "{unat a..<unat a + unat n} = (\<lambda>i. unat a + i) ` {..<unat n}"
    by (simp add: lessThan_atLeast0 add.commute)
  finally show ?thesis by (auto simp: image_iff)
qed

subsection \<open>Ports\<close>

text \<open>The answers to \<open>n\<close> calls of \<open>get_tpu_configs\<close> in a row.\<close>

fun tpu_calls :: "sdk \<Rightarrow> nat \<Rightarrow> relayer_impl \<Rightarrow> (get_tpu_configs_response, status) result list" where
  "tpu_calls k 0 r = []"
| "tpu_calls k (Suc n) r = (case get_tpu_configs k r of (r', a) \<Rightarrow> a # tpu_calls k n r')"

definition advertised :: "sdk \<Rightarrow> relayer_impl \<Rightarrow> u16 \<Rightarrow> u16 \<Rightarrow> get_tpu_configs_response" where
  "advertised k r p q =
     \<lparr>tpu = Some \<lparr>socket_ip = ip_to_string (ip_text k) (public_ip r), socket_port = ucast (p - 6)\<rparr>,
      tpu_forward =
        Some \<lparr>socket_ip = ip_to_string (ip_text k) (public_ip r), socket_port = ucast (q - 6)\<rparr>\<rparr>"

lemma get_tpu_configs_eq:
  assumes "tpu_quic_ports r \<noteq> []" "tpu_fwd_quic_ports r \<noteq> []"
  shows "get_tpu_configs k r = (r\<lparr>seq := seq r + 1\<rparr>,
     Ok (advertised k r (tpu_quic_ports r ! (unat (seq r) mod length (tpu_quic_ports r)))
          (tpu_fwd_quic_ports r ! (unat (seq r) mod length (tpu_fwd_quic_ports r)))))"
  using assms by (simp add: get_tpu_configs_def pick_port_def advertised_def)

lemma tpu_calls_eq:
  assumes "tpu_quic_ports r \<noteq> []" "tpu_fwd_quic_ports r \<noteq> []" "unat (seq r) + n < 2 ^ 64"
  shows "tpu_calls k n r =
    map (\<lambda>i. Ok (advertised k r (tpu_quic_ports r ! ((unat (seq r) + i) mod length (tpu_quic_ports r)))
      (tpu_fwd_quic_ports r ! ((unat (seq r) + i) mod length (tpu_fwd_quic_ports r))))) [0..<n]"
  using assms
proof (induction n arbitrary: r)
  case 0
  then show ?case by simp
next
  case (Suc n)
  let ?r = "r\<lparr>seq := seq r + 1\<rparr>"
  have s: "unat (seq r + 1) = unat (seq r) + 1"
    using Suc.prems by (simp add: unat_word_ariths)
  have "tpu_calls k n ?r =
    map (\<lambda>i. Ok (advertised k r (tpu_quic_ports r ! ((unat (seq r) + Suc i) mod length (tpu_quic_ports r)))
      (tpu_fwd_quic_ports r ! ((unat (seq r) + Suc i) mod length (tpu_fwd_quic_ports r))))) [0..<n]"
    using Suc.IH [of ?r] Suc.prems s by (simp add: advertised_def)
  then show ?case
    using Suc.prems
    by (simp add: get_tpu_configs_eq upt_rec [of 0 "Suc n"] map_Suc_upt [symmetric] del: upt_Suc)
qed

lemma advertised_port:
  assumes "6 \<le> p"
  shows "unat (ucast (p - 6 :: u16) :: 64 word) = unat p - 6"
proof -
  have "unat (p - 6) = unat p - 6"
    using assms by (simp add: unat_sub)
  moreover have "unat (p - 6) < 2 ^ LENGTH(16)" by (rule unsigned_less)
  ultimately show ?thesis by (simp add: unsigned_ucast_eq take_bit_nat_eq_self)
qed

end
