(* ===== verification/Relayer_Theorems.thy ===== *)
theory Relayer_Theorems
  imports Relayer_Props
begin

text \<open>
  The statements about the relayer service that the development is for, each with a closed witness
  on the demo inputs.
\<close>

section \<open>Delivery\<close>

lemma demo_forward_Ok:
  obtains subs' m' where
    "forward_packets demo_sdk chan_ops demo_clock 0 demo_fwd_config (\<lambda>_. None) (Ok demo_rpb)
       demo_subs [7, 8] demo_metrics = Ok ([8, 8], subs', m')"
    and "map fst subs' = [7, 8, 9]" "map (length \<circ> ch_log \<circ> snd) subs' = [2, 0, 0]"
proof -
  from demo_forward_runs obtain failed subs' m' where "demo_forward = Ok (failed, subs', m')"
    "failed = [8, 8]" "map fst subs' = [7, 8, 9]" "map (length \<circ> ch_log \<circ> snd) subs' = [2, 0, 0]"
    by (auto split: result.splits)
  with that show ?thesis by (simp add: demo_forward_def)
qed

text \<open>
  C7: a validator that is a target of the call and whose channel takes every message receives all
  eligible packets (not discarded, OFAC-clean, convertible), in the order received and each exactly
  once, and is not reported as failed.
\<close>

theorem forward_packets_delivers:
  assumes "mpsc_sender ops accepted" "hm_inv subs" "distinct leaders"
    and "forward_packets k ops clock now cfg cache (Ok rpb) subs leaders m = Ok (failed, subs', m')"
    and "hm_get subs pk = Some c" "forward_all cfg \<or> pk \<in> set leaders"
    and "list_all (\<lambda>r. r = SendOk)
      (fst (send_seq ops c (responses clock 0 pk (proto_batches k cfg cache (rpb_batch rpb)))))"
  shows "\<exists>c' new. hm_get subs' pk = Some c' \<and> accepted c' = accepted c @ new \<and>
    concat (map response_packets new) = eligible_packets k (ofac_addresses cfg) cache (rpb_batch rpb) \<and>
    pk \<notin> set failed"
proof -
  let ?bs = "proto_batches k cfg cache (rpb_batch rpb)"
  let ?ms = "responses clock 0 pk ?bs"
  note cf = forward_packets_closed_form [OF assms(4) assms(2,3)]
  have T: "pk \<in> set (select_senders (forward_all cfg) subs leaders)"
    using assms(5,6) select_senders_wf(3) [OF assms(2,3)] by auto
  have d: "deliveries ops clock 0 ?bs subs pk = send_seq ops c ?ms"
    using assms(5) by (simp add: deliveries_def)
  have new: "accepted (snd (send_seq ops c ?ms)) = accepted c @ ?ms"
    by (rule mpsc_sender.accepted_send_seq_all [OF assms(1,7)])
  have "concat (map response_packets ?ms) = eligible_packets k (ofac_addresses cfg) cache (rpb_batch rpb)"
    by (simp add: concat_responses concat_proto_batches [OF forward_packets_Ok(1) [OF assms(4)]])
  moreover have "SendClosed \<notin> set (fst (send_seq ops c ?ms))"
    using assms(7) by (auto simp: list_all_iff)
  then have "count_list failed pk = 0"
    using cf T d by simp
  then have "pk \<notin> set failed" by (simp add: count_list_0_iff)
  ultimately show ?thesis using cf T d new by auto
qed

theorem forward_packets_delivers_witness:
  "\<exists>subs' m' c' new.
     forward_packets demo_sdk chan_ops demo_clock 0 demo_fwd_config (\<lambda>_. None) (Ok demo_rpb)
       demo_subs [7, 8] demo_metrics = Ok ([8, 8], subs', m') \<and>
     hm_get subs' 7 = Some c' \<and> ch_log c' = ch_log demo_chan @ new \<and>
     concat (map response_packets new) = eligible_packets demo_sdk {2} (\<lambda>_. None) (rpb_batch demo_rpb)"
proof -
  obtain subs' m' where run: "forward_packets demo_sdk chan_ops demo_clock 0 demo_fwd_config (\<lambda>_. None)
      (Ok demo_rpb) demo_subs [7, 8] demo_metrics = Ok ([8, 8], subs', m')"
    by (rule demo_forward_Ok)
  have c: "hm_get demo_subs 7 = Some demo_chan" by (simp add: demo_subs_def hm_get_def)
  have l: "distinct [7, 8 :: pubkey]" by simp
  have t: "forward_all demo_fwd_config \<or> 7 \<in> set [7, 8 :: pubkey]" by simp
  have ok: "list_all (\<lambda>r. r = SendOk)
      (fst (send_seq chan_ops demo_chan
        (responses demo_clock 0 7 (proto_batches demo_sdk demo_fwd_config (\<lambda>_. None) (rpb_batch demo_rpb)))))"
    by (simp add: demo_defs relayer_eval proto_batches_def)
  from forward_packets_delivers [OF bounded_chan.mpsc_sender_axioms demo_subs_inv l run c t ok] run
  show ?thesis by (auto simp: demo_fwd_config_def)
qed

text \<open>
  A call touches only its targets: with \<open>forward_all\<close> every connected validator, otherwise the
  connected leaders of the lookahead window. For any other validator the channel, the counters and
  the list of failures are as before, and the set of connections does not change.
\<close>

lemma forward_packets_isolation:
  assumes "hm_inv subs" "distinct leaders"
    and "forward_packets k ops clock now cfg cache (Ok rpb) subs leaders m = Ok (failed, subs', m')"
    and "\<not> (hm_get subs pk \<noteq> None \<and> (forward_all cfg \<or> pk \<in> set leaders))"
  shows "hm_get subs' pk = hm_get subs pk \<and> stat m' pk = stat m pk \<and> pk \<notin> set failed \<and>
    hm_keys subs' = hm_keys subs"
proof -
  note cf = forward_packets_closed_form [OF assms(3) assms(1,2)]
  have "pk \<notin> set (select_senders (forward_all cfg) subs leaders)"
    using assms(4) select_senders_wf(3) [OF assms(1,2)] by auto
  moreover from this have "count_list failed pk = 0" using cf by simp
  then have "pk \<notin> set failed" by (simp add: count_list_0_iff)
  ultimately show ?thesis using cf by simp
qed

lemma forward_packets_isolation_example:
  "\<exists>subs' m'.
     forward_packets demo_sdk chan_ops demo_clock 0 demo_fwd_config (\<lambda>_. None) (Ok demo_rpb)
       demo_subs [7, 8] demo_metrics = Ok ([8, 8], subs', m') \<and>
     hm_get subs' 9 = Some demo_chan \<and> hm_keys subs' = [7, 8, 9]"
proof -
  obtain subs' m' where run: "forward_packets demo_sdk chan_ops demo_clock 0 demo_fwd_config (\<lambda>_. None)
      (Ok demo_rpb) demo_subs [7, 8] demo_metrics = Ok ([8, 8], subs', m')"
    by (rule demo_forward_Ok)
  have l: "distinct [7, 8 :: pubkey]" by simp
  have t: "\<not> (hm_get demo_subs 9 \<noteq> None \<and> (forward_all demo_fwd_config \<or> (9 :: pubkey) \<in> set [7, 8]))"
    by (simp add: demo_fwd_config_def)
  from forward_packets_isolation [OF demo_subs_inv l run t] run
  show ?thesis by (auto simp: demo_subs_def hm_get_def hm_keys_def)
qed

section \<open>Iteration order\<close>

text \<open>
  C25: the iteration order of the two hash collections does not matter. Two runs from the same
  subscriptions and leaders in different orders leave every subscriber's channel, every
  subscriber's counters and the number of reported failures the same.
\<close>

theorem forward_packets_order_independent:
  assumes "hm_inv subs1" "mset subs1 = mset subs2"
    and "distinct leaders1" "distinct leaders2" "set leaders1 = set leaders2"
    and "forward_packets k ops clock now cfg cache (Ok rpb) subs1 leaders1 m = Ok (f1, subs1', m1)"
    and "forward_packets k ops clock now cfg cache (Ok rpb) subs2 leaders2 m = Ok (f2, subs2', m2)"
  shows "hm_get subs1' pk = hm_get subs2' pk \<and> stat m1 pk = stat m2 pk \<and> mset f1 = mset f2"
proof -
  have inv2: "hm_inv subs2"
    using assms(1,2) unfolding hm_inv_def by (metis mset_eq_imp_distinct_iff mset_map)
  have get: "hm_get subs1 = hm_get subs2" using assms(1,2) by (rule hm_get_perm)
  have T: "set (select_senders (forward_all cfg) subs1 leaders1)
      = set (select_senders (forward_all cfg) subs2 leaders2)"
    using select_senders_wf(3) [OF assms(1,3)] select_senders_wf(3) [OF inv2 assms(4)] get assms(5)
    by simp
  have d: "deliveries ops clock 0 bs subs1 = deliveries ops clock 0 bs subs2" for bs
    by (simp add: deliveries_def get fun_eq_iff)
  note cf1 = forward_packets_closed_form [OF assms(6) assms(1,3)]
  note cf2 = forward_packets_closed_form [OF assms(7) inv2 assms(4)]
  have "count_list f1 x = count_list f2 x" for x
    using cf1 cf2 T d by simp
  then have "mset f1 = mset f2" by (intro multiset_eqI) (simp add: count_mset)
  with cf1 cf2 T d get show ?thesis by simp
qed

theorem forward_packets_order_independent_witness:
  "\<exists>subs1' subs2' m1 m2 f2.
     forward_packets demo_sdk chan_ops demo_clock 0 demo_fwd_config (\<lambda>_. None) (Ok demo_rpb)
       demo_subs [7, 8] demo_metrics = Ok ([8, 8], subs1', m1) \<and>
     forward_packets demo_sdk chan_ops demo_clock 0 demo_fwd_config (\<lambda>_. None) (Ok demo_rpb)
       (rev demo_subs) [8, 7] demo_metrics = Ok (f2, subs2', m2) \<and>
     hm_get subs1' 7 = hm_get subs2' 7 \<and> mset [8, 8] = mset f2"
proof -
  obtain subs1' m1 where run1: "forward_packets demo_sdk chan_ops demo_clock 0 demo_fwd_config (\<lambda>_. None)
      (Ok demo_rpb) demo_subs [7, 8] demo_metrics = Ok ([8, 8], subs1', m1)"
    by (rule demo_forward_Ok)
  have "0 < validator_packet_batch_size demo_fwd_config" by (simp add: demo_fwd_config_def)
  then obtain f2 subs2' m2 where run2: "forward_packets demo_sdk chan_ops demo_clock 0 demo_fwd_config
      (\<lambda>_. None) (Ok demo_rpb) (rev demo_subs) [8, 7] demo_metrics = Ok (f2, subs2', m2)"
    using forward_packets_total by blast
  have h: "mset demo_subs = mset (rev demo_subs)" "distinct [7, 8 :: pubkey]" "distinct [8, 7 :: pubkey]"
    "set [7, 8 :: pubkey] = set [8, 7]" by auto
  from forward_packets_order_independent [OF demo_subs_inv h run1 run2, of 7] run1 run2
  show ?thesis by blast
qed

section \<open>Accounting and disconnection\<close>

text \<open>
  C24: the per-validator counters of a target grow by exactly the number of packets its channel
  accepted (forwarded) and refused because it was full (dropped), saturating at the top of \<open>u64\<close>;
  the outcomes are those of sending the batches one after the other.
\<close>

theorem forward_packets_accounting:
  assumes "hm_inv subs" "distinct leaders"
    and "forward_packets k ops clock now cfg cache (Ok rpb) subs leaders m = Ok (failed, subs', m')"
    and "hm_get subs pk = Some c" "forward_all cfg \<or> pk \<in> set leaders"
  shows "let bs = proto_batches k cfg cache (rpb_batch rpb);
             outcomes = zip (fst (send_seq ops c (responses clock 0 pk bs))) (batch_sizes bs)
         in unat (fst (stat m' pk)) = min (unat (fst (stat m pk)) + outcome_total SendOk outcomes) (2 ^ 64 - 1) \<and>
            unat (snd (stat m' pk)) = min (unat (snd (stat m pk)) + outcome_total SendFull outcomes) (2 ^ 64 - 1)"
proof -
  note cf = forward_packets_closed_form [OF assms(3) assms(1,2)]
  have T: "pk \<in> set (select_senders (forward_all cfg) subs leaders)"
    using assms(4,5) select_senders_wf(3) [OF assms(1,2)] by auto
  have "stat m' pk = fold account (zip (fst (deliveries ops clock 0
      (proto_batches k cfg cache (rpb_batch rpb)) subs pk)) (batch_sizes (proto_batches k cfg cache (rpb_batch rpb))))
      (stat m pk)"
    using cf T by simp
  with fold_account [of _ "fst (stat m pk)" "snd (stat m pk)"] assms(4) show ?thesis
    by (simp add: Let_def deliveries_def)
qed

theorem forward_packets_accounting_witness:
  "\<exists>subs' m'.
     forward_packets demo_sdk chan_ops demo_clock 0 demo_fwd_config (\<lambda>_. None) (Ok demo_rpb)
       demo_subs [7, 8] demo_metrics = Ok ([8, 8], subs', m') \<and>
     unat (fst (stat m' 7)) = 2 \<and> unat (snd (stat m' 7)) = 0"
proof -
  obtain subs' m' where run: "forward_packets demo_sdk chan_ops demo_clock 0 demo_fwd_config (\<lambda>_. None)
      (Ok demo_rpb) demo_subs [7, 8] demo_metrics = Ok ([8, 8], subs', m')"
    by (rule demo_forward_Ok)
  have c: "hm_get demo_subs 7 = Some demo_chan" by (simp add: demo_subs_def hm_get_def)
  have l: "distinct [7, 8 :: pubkey]" by simp
  have t: "forward_all demo_fwd_config \<or> 7 \<in> set [7, 8 :: pubkey]" by simp
  have "unat (fst (stat m' 7)) = 2 \<and> unat (snd (stat m' 7)) = 0"
    using forward_packets_accounting [OF demo_subs_inv l run c t]
    by (simp add: demo_defs relayer_eval proto_batches_def batch_sizes_def stat_def
        relayer_metrics_new_def outcome_total_def)
  with run show ?thesis by blast
qed

text \<open>
  C19: after a delayed packet batch is handled, a validator is still connected exactly when it was
  connected and, if it was a target, no send to it found its channel closed. A full channel never
  costs a validator its connection.
\<close>

theorem delay_packet_arm_disconnects:
  assumes "relayer_inv s" "delay_packet_arm k ops cfg env s (Ok rpb) = Ok s'"
  shows "hm_get (packet_subscriptions s') pk \<noteq> None \<longleftrightarrow>
    (\<exists>c. hm_get (packet_subscriptions s) pk = Some c \<and>
      (forward_all (fwd_config cfg) \<or> pk \<in> set (slot_leaders s) \<longrightarrow>
        SendClosed \<notin> set (fst (send_seq ops c (responses (env_clock env) 0 pk
          (proto_batches k (fwd_config cfg) (env_lookup env) (rpb_batch rpb)))))))"
proof -
  from assms(1) have inv: "hm_inv (packet_subscriptions s)" "distinct (slot_leaders s)"
    by (auto simp: relayer_inv_def)
  show ?thesis
    unfolding delay_packet_arm_subscriptions [OF assms(2,1)] Let_def select_senders_wf(3) [OF inv]
    by (auto simp: deliveries_def)
qed

lemma demo_delay_arm:
  "case delay_packet_arm demo_sdk chan_ops demo_loop_config (demo_env Healthy) demo_loop (Ok demo_rpb) of
     Ok s' \<Rightarrow> hm_keys (packet_subscriptions s') = [7, 9]
       \<and> num_removed_connections (loop_metrics s') = 2 | _ \<Rightarrow> False"
  by (simp add: delay_packet_arm_def drop_connections_def relayer_metrics_new_def demo_defs relayer_eval)

lemma demo_loop_inv: "relayer_inv demo_loop"
  by (simp add: relayer_inv_def demo_loop_def demo_subs_inv)

theorem delay_packet_arm_disconnects_witness:
  "\<exists>s'. delay_packet_arm demo_sdk chan_ops demo_loop_config (demo_env Healthy) demo_loop (Ok demo_rpb) = Ok s'
     \<and> hm_get (packet_subscriptions s') 7 \<noteq> None \<and> hm_get (packet_subscriptions s') 8 = None"
proof -
  from demo_delay_arm obtain s' where s': "delay_packet_arm demo_sdk chan_ops demo_loop_config
      (demo_env Healthy) demo_loop (Ok demo_rpb) = Ok s'"
    by (auto split: result.splits)
  note d = delay_packet_arm_disconnects [OF demo_loop_inv s']
  have "hm_get (packet_subscriptions s') 7 \<noteq> None"
    unfolding d by (simp add: demo_defs relayer_eval proto_batches_def)
  moreover have "\<not> hm_get (packet_subscriptions s') 8 \<noteq> None"
    unfolding d by (simp add: demo_defs relayer_eval proto_batches_def)
  ultimately show ?thesis using s' by simp
qed

section \<open>Heartbeats\<close>

text \<open>
  C20: on a heartbeat tick an unhealthy relayer disconnects every validator. A healthy one sends each
  connected validator one heartbeat carrying the number of heartbeats sent so far in the metrics
  interval, keeps those whose channel took it or was full, and drops exactly those whose channel is
  closed.
\<close>

theorem heartbeat_arm_behaviour:
  assumes "relayer_inv s"
  shows "\<exists>s'. heartbeat_arm ops env s t = Ok s' \<and> relayer_inv s' \<and>
    (env_health env = Unhealthy \<longrightarrow> packet_subscriptions s' = []) \<and>
    (env_health env = Healthy \<longrightarrow>
      (\<forall>pk. hm_get (packet_subscriptions s') pk =
         (case hm_get (packet_subscriptions s) pk of
            None \<Rightarrow> None
          | Some c \<Rightarrow>
              (case try_send ops c (heartbeat_response (num_heartbeats (loop_metrics s))) of
                 (SendClosed, c') \<Rightarrow> None
               | (_, c') \<Rightarrow> Some c'))))"
proof -
  obtain s' where s': "heartbeat_arm ops env s t = Ok s'"
    by (simp add: heartbeat_arm_def Let_def case_prod_unfold)
  note g = heartbeat_arm_subscriptions [OF s' assms]
  have "packet_subscriptions s' = []" if "env_health env = Unhealthy"
  proof -
    have "hm_get (packet_subscriptions s') = (\<lambda>_. None)" using g(1) that by auto
    then show ?thesis
      by (cases "packet_subscriptions s'") (auto simp: hm_get_def fun_eq_iff split: if_splits)
  qed
  moreover have "hm_get (packet_subscriptions s') pk =
         (case hm_get (packet_subscriptions s) pk of
            None \<Rightarrow> None
          | Some c \<Rightarrow>
              (case try_send ops c (heartbeat_response (num_heartbeats (loop_metrics s))) of
                 (SendClosed, c') \<Rightarrow> None
               | (_, c') \<Rightarrow> Some c'))" if "env_health env = Healthy" for pk
    unfolding g(1) using that by (auto split: option.splits prod.splits send_outcome.splits)
  ultimately show ?thesis using s' g(2) by blast
qed

theorem heartbeat_arm_behaviour_witness:
  "\<exists>s1 s2. heartbeat_arm chan_ops (demo_env Unhealthy) demo_loop (Ok 0) = Ok s1 \<and>
     packet_subscriptions s1 = [] \<and>
     heartbeat_arm chan_ops (demo_env Healthy) demo_loop (Ok 0) = Ok s2 \<and>
     hm_get (packet_subscriptions s2) 8 = None \<and>
     (\<exists>c. hm_get (packet_subscriptions s2) 9 = Some c \<and> ch_log c = [heartbeat_response 0])"
proof -
  have h: "env_health (demo_env h) = h" for h by (simp add: demo_env_def)
  obtain s1 where 1: "heartbeat_arm chan_ops (demo_env Unhealthy) demo_loop (Ok 0) = Ok s1"
     "packet_subscriptions s1 = []"
    using heartbeat_arm_behaviour [OF demo_loop_inv, of chan_ops "demo_env Unhealthy" "Ok 0"] h by blast
  obtain s2 where 2: "heartbeat_arm chan_ops (demo_env Healthy) demo_loop (Ok 0) = Ok s2"
    "\<forall>pk. hm_get (packet_subscriptions s2) pk =
         (case hm_get (packet_subscriptions demo_loop) pk of
            None \<Rightarrow> None
          | Some c \<Rightarrow>
              (case try_send chan_ops c (heartbeat_response (num_heartbeats (loop_metrics demo_loop))) of
                 (SendClosed, c') \<Rightarrow> None
               | (_, c') \<Rightarrow> Some c'))"
    using heartbeat_arm_behaviour [OF demo_loop_inv, of chan_ops "demo_env Healthy" "Ok 0"] h by blast
  from 2(2) [rule_format, of 8] 2(2) [rule_format, of 9] 1 2(1) show ?thesis
    by (simp add: demo_defs relayer_eval relayer_metrics_new_def)
qed

section \<open>The event loop\<close>

text \<open>
  C2: the stream of a validator over a whole run of the relayer. Everything that the channel of a
  connected validator has accepted since it was registered is a heartbeat or a non-empty batch of
  bounded size made of packets received during the run, none of them discarded or OFAC-related at the
  time of forwarding.
\<close>

theorem run_event_loop_stream_safe:
  assumes "mpsc_sender ops accepted" "run_event_loop k ops cfg es = Ok s"
    and "hm_get (packet_subscriptions s) pk = Some c'"
  shows "\<exists>c env new. (SubscriptionArm (Ok (ValidatorPacketSubscription pk c)), env) \<in> set es \<and>
    accepted c' = accepted c @ new \<and> (\<forall>r\<in>set new. clean_message k cfg es r)"
proof -
  have run: "run_loop (relayer_step k ops cfg) (relayer_init cfg) es = Ok s"
    using assms(2) by (simp add: run_event_loop_def)
  show ?thesis
    using relayer_run_stream [OF assms(1) run relayer_inv_init assms(3)]
    by (simp add: opened_def relayer_init_def)
qed

lemma demo_run_outcome:
  "case run_event_loop demo_sdk chan_ops demo_loop_config demo_events of
     Ok s \<Rightarrow> connected_validators (packet_subscriptions s) = [7] \<and>
        map (length \<circ> ch_log \<circ> snd) (packet_subscriptions s) = [2]
   | _ \<Rightarrow> False"
  by (simp add: run_event_loop_def demo_events_def relayer_step_def subscription_arm_def
      handle_subscription_def slot_arm_def delay_packet_arm_def drop_connections_def
      update_highest_slot_def relayer_init_def relayer_metrics_new_def u64_range_def
      leaders_for_slots_def connected_validators_def demo_defs relayer_eval)

lemma demo_run:
  obtains s where "run_event_loop demo_sdk chan_ops demo_loop_config demo_events = Ok s"
    "connected_validators (packet_subscriptions s) = [7]"
  using demo_run_outcome by (auto split: result.splits)

theorem run_event_loop_stream_safe_witness:
  "\<exists>s c' c env new. run_event_loop demo_sdk chan_ops demo_loop_config demo_events = Ok s \<and>
     hm_get (packet_subscriptions s) 7 = Some c' \<and>
     (SubscriptionArm (Ok (ValidatorPacketSubscription 7 c)), env) \<in> set demo_events \<and>
     ch_log c' = ch_log c @ new \<and> (\<forall>r\<in>set new. clean_message demo_sdk demo_loop_config demo_events r)"
proof -
  obtain s where s: "run_event_loop demo_sdk chan_ops demo_loop_config demo_events = Ok s"
    "connected_validators (packet_subscriptions s) = [7]" by (rule demo_run)
  then obtain c' where c': "hm_get (packet_subscriptions s) 7 = Some c'"
    by (cases "packet_subscriptions s") (auto simp: connected_validators_def hm_keys_def hm_get_def)
  from run_event_loop_stream_safe [OF bounded_chan.mpsc_sender_axioms s(1) c']
  obtain c env new where
    "(SubscriptionArm (Ok (ValidatorPacketSubscription 7 c)), env) \<in> set demo_events"
    "ch_log c' = ch_log c @ new" "\<forall>r\<in>set new. clean_message demo_sdk demo_loop_config demo_events r"
    by (elim exE conjE)
  with s(1) c' show ?thesis by (intro exI conjI)
qed

text \<open>
  In every state the event loop reaches, the subscription map has one entry per validator, the
  list of window leaders has no duplicates, and every connected validator has subscribed through the
  subscription channel during the run.
\<close>

lemma run_event_loop_connected:
  assumes "run_event_loop k ops cfg es = Ok s"
  shows "relayer_inv s \<and> set (connected_validators (packet_subscriptions s)) \<subseteq> subscribed es"
proof -
  from assms have run: "run_loop (relayer_step k ops cfg) (relayer_init cfg) es = Ok s"
    by (simp add: run_event_loop_def)
  have inv: "relayer_inv s" by (rule relayer_loop.run_inv [OF relayer_inv_init _ run]) (simp add: list_all_iff)
  have "dom (hm_get (packet_subscriptions s)) \<subseteq> subscribed es"
    using relayer_run_connected [OF run relayer_inv_init] by (simp add: relayer_init_def dom_def)
  with inv hm.set_keys [of "packet_subscriptions s"] show ?thesis
    by (simp add: connected_validators_def relayer_inv_def)
qed

lemma run_event_loop_connected_example:
  "\<exists>s. run_event_loop demo_sdk chan_ops demo_loop_config demo_events = Ok s \<and>
     connected_validators (packet_subscriptions s) = [7] \<and> 7 \<in> subscribed demo_events"
proof -
  obtain s where s: "run_event_loop demo_sdk chan_ops demo_loop_config demo_events = Ok s"
    "connected_validators (packet_subscriptions s) = [7]" by (rule demo_run)
  from run_event_loop_connected [OF s(1)] s show ?thesis by simp
qed

text \<open>
  After a slot is received, the targets of the loop are exactly the leaders scheduled for one of
  the next \<open>slot_lookahead\<close> slots starting at that slot, provided the window does not run past the
  top of \<open>u64\<close>.
\<close>

lemma slot_arm_window:
  assumes "unat sl + unat (slot_lookahead cfg) < 2 ^ 64"
  shows "\<exists>s'. slot_arm cfg env s (Ok sl) = Ok s' \<and> cur_highest_slot s' = sl \<and>
    distinct (slot_leaders s') \<and>
    set (slot_leaders s') = {pk. \<exists>i < unat (slot_lookahead cfg).
      leader_for_slot (env_schedule env) (sl + word_of_nat i) = Some pk}"
  using set_u64_range [OF assms] distinct_leaders_for_slots
  by (fastforce simp: slot_arm_def update_highest_slot_def Let_def set_leaders_for_slots)

lemma slot_arm_window_example:
  "\<exists>s'. slot_arm demo_loop_config (demo_env Healthy) demo_loop (Ok 40) = Ok s' \<and>
    set (slot_leaders s') = {pk. \<exists>i < 2.
      leader_for_slot [(40, 7), (41, 8)] (40 + word_of_nat i) = Some pk}"
  using slot_arm_window [of 40 demo_loop_config "demo_env Healthy" demo_loop]
  by (auto simp: demo_loop_config_def demo_env_def)

section \<open>Advertised ports\<close>

text \<open>
  Successive calls of \<open>get_tpu_configs\<close> hand the configured QUIC ports out in turn, each lowered
  by the QUIC offset 6, with the public IP address: the \<open>i\<close>-th call uses entry \<open>(seq + i) mod n\<close> of
  each port list.
\<close>

lemma get_tpu_configs_round_robin:
  assumes "tpu_quic_ports r \<noteq> []" "tpu_fwd_quic_ports r \<noteq> []" "unat (seq r) + n < 2 ^ 64"
    and "\<forall>p\<in>set (tpu_quic_ports r) \<union> set (tpu_fwd_quic_ports r). 6 \<le> p"
  shows "length (tpu_calls k n r) = n \<and>
    (\<forall>i<n. \<exists>a t f. tpu_calls k n r ! i = Ok a \<and> tpu a = Some t \<and> tpu_forward a = Some f \<and>
      socket_ip t = ip_to_string (ip_text k) (public_ip r) \<and>
      socket_ip f = ip_to_string (ip_text k) (public_ip r) \<and>
      unat (socket_port t)
        = unat (tpu_quic_ports r ! ((unat (seq r) + i) mod length (tpu_quic_ports r))) - 6 \<and>
      unat (socket_port f)
        = unat (tpu_fwd_quic_ports r ! ((unat (seq r) + i) mod length (tpu_fwd_quic_ports r))) - 6)"
proof -
  have "6 \<le> tpu_quic_ports r ! (j mod length (tpu_quic_ports r))"
    "6 \<le> tpu_fwd_quic_ports r ! (j mod length (tpu_fwd_quic_ports r))" for j
    using assms by auto
  then show ?thesis
    by (simp add: tpu_calls_eq [OF assms(1-3)] advertised_def advertised_port)
qed

lemma get_tpu_configs_round_robin_example:
  "\<exists>a t. tpu_calls demo_sdk 3 demo_impl ! 1 = Ok a \<and> tpu a = Some t \<and> unat (socket_port t) = 11224"
proof -
  have h: "tpu_quic_ports demo_impl \<noteq> []" "tpu_fwd_quic_ports demo_impl \<noteq> []"
    "unat (seq demo_impl) + 3 < 2 ^ 64"
    "\<forall>p\<in>set (tpu_quic_ports demo_impl) \<union> set (tpu_fwd_quic_ports demo_impl). 6 \<le> p"
    by (simp_all add: demo_impl_def)
  have "(1 :: nat) < 3" by simp
  from get_tpu_configs_round_robin [OF h, of demo_sdk, THEN conjunct2, rule_format, OF this]
  show ?thesis by (auto simp: demo_impl_def)
qed

end
