(* ===== verification/Component_Theorems.thy ===== *)
theory Component_Theorems
  imports Witness_Data
begin

text \<open>
  The statements about the components the relayer service builds on: the OFAC check, the conversion
  of packets, the leader schedule and the health manager.
\<close>

text \<open>
  C23: the OFAC check is exact. It answers true precisely when one of the accounts the transaction
  names is listed, where the named accounts are the static keys and the in-range entries of each
  cached lookup table at the transaction's writable and readonly indexes.
\<close>

theorem is_tx_ofac_related_exact:
  "is_tx_ofac_related tx ofac cache \<longleftrightarrow>
     (\<exists>a\<in>ofac. a \<in> set (static_account_keys tx) \<or>
        (\<exists>ts t info i. address_table_lookups tx = Some ts \<and> t \<in> set ts \<and>
           cache (account_key t) = Some info \<and>
           i \<in> set (writable_indexes t) \<union> set (readonly_indexes t) \<and>
           unat i < length (addresses info) \<and> a = addresses info ! unat i))"
proof -
  have table: "a \<in> table_accounts info idxs \<longleftrightarrow>
      (\<exists>i\<in>set idxs. unat i < length (addresses info) \<and> a = addresses info ! unat i)" for a info idxs
    by (auto simp: table_accounts_def)
  have loaded: "a \<in> loaded_accounts cache sel tx \<longleftrightarrow>
      (\<exists>ts. address_table_lookups tx = Some ts \<and> (\<exists>t\<in>set ts. \<exists>info.
         cache (account_key t) = Some info \<and> a \<in> table_accounts info (sel t)))" for a sel
    by (auto simp: loaded_accounts_def split: option.splits)
  show ?thesis
    unfolding is_tx_ofac_related_iff named_accounts_def disjoint_iff Un_iff loaded table set_append
    by blast
qed

text \<open>
  The protobuf form of a packet keeps everything the relayer sends: the payload bytes, and
  a metadata record from which the size, the IPv4 source address, the port and all six flags can be
  read back.
\<close>

lemma packet_to_proto_packet_roundtrip:
  assumes "packet_to_proto_packet k p = Some q" "is_v4_packet p" "meta_size (meta p) < 2 ^ 64"
  shows "\<exists>pm. p_meta q = Some pm \<and> packet_data k p = Some (p_data q) \<and>
    proto_to_meta k pm = Some (meta p)"
  using proto_roundtrip [OF assms] by auto

lemma packet_to_proto_packet_roundtrip_example:
  "\<exists>q pm. packet_to_proto_packet demo_sdk (demo_packet [1, 2]) = Some q \<and> p_meta q = Some pm \<and>
     p_data q = [1, 2] \<and> proto_to_meta demo_sdk pm = Some (meta (demo_packet [1, 2]))"
proof -
  obtain q where q: "packet_to_proto_packet demo_sdk (demo_packet [1, 2]) = Some q"
    by (simp add: packet_to_proto_packet_def demo_sdk_def demo_packet_def)
  have d: "packet_data demo_sdk (demo_packet [1, 2]) = Some [1, 2]"
    by (simp add: demo_sdk_def demo_packet_def)
  have h: "is_v4_packet (demo_packet [1, 2])" "meta_size (meta (demo_packet [1, 2])) < 2 ^ 64"
    by (simp_all add: is_v4_packet_def is_ipv4_def demo_packet_def)
  from packet_to_proto_packet_roundtrip [OF q h] q d show ?thesis by auto
qed

text \<open>
  C27: one refresh of the leader schedule. If a call to the RPC server failed or returned no schedule,
  the old schedule stays. Otherwise it is replaced as a whole: slot \<open>s\<close> has leader \<open>pk\<close> afterwards
  exactly when the answer lists the epoch-relative slot \<open>s - (absolute_slot - slot_index)\<close> under a
  string that parses to \<open>pk\<close>, and the validators counted as scheduled are exactly the leaders of
  some slot.
\<close>

theorem refresh_round_schedule:
  assumes "hm_inv old" "refresh_round k old (epoch, answer) = (new, dp)"
    and "\<forall>sched. answer = Some (Some sched) \<longrightarrow> distinct (concat (map snd sched))"
  shows "hm_inv new \<and>
    (epoch = None \<or> answer = None \<or> answer = Some None \<longrightarrow> new = old \<and> update_fail_count dp = 1) \<and>
    (\<forall>info sched. epoch = Some info \<and> answer = Some (Some sched) \<longrightarrow>
       update_ok_count dp = 1 \<and>
       (\<forall>s pk. leader_for_slot new s = Some pk \<longleftrightarrow>
          (\<exists>pk_str slots. (pk_str, slots) \<in> set sched \<and>
             s - (absolute_slot info - slot_index info) \<in> set slots \<and>
             pubkey_from_str k pk_str = Some pk))) \<and>
    (\<forall>pk. is_scheduled_validator new pk \<longleftrightarrow> (\<exists>s. leader_for_slot new s = Some pk))"
proof -
  obtain ok where u: "update_leader_cache k epoch answer old = (ok, new)"
    and dp: "dp = \<lparr>update_ok_count = (if ok then 1 else 0), update_fail_count = (if ok then 0 else 1),
                   slots_in_schedule = length new\<rparr>"
    using assms(2) by (auto simp: refresh_round_def split: prod.splits)
  have inv: "hm_inv new" using update_leader_cache_inv [OF assms(1), of k epoch answer] u by simp
  have fail: "new = old \<and> \<not> ok" if "epoch = None \<or> answer = None \<or> answer = Some None"
    using that u by (auto simp: update_leader_cache_def split: option.splits)
  have good: "ok \<and> (leader_for_slot new s = Some pk \<longleftrightarrow>
          (\<exists>pk_str slots. (pk_str, slots) \<in> set sched \<and>
             s - (absolute_slot info - slot_index info) \<in> set slots \<and>
             pubkey_from_str k pk_str = Some pk))"
    if "epoch = Some info" "answer = Some (Some sched)" for info sched s pk
  proof -
    have ok: ok using that u by (auto simp: update_leader_cache_def Let_def)
    have x: "s = x + off \<longleftrightarrow> x = s - off" for x off :: u64 by (auto simp: algebra_simps)
    from that u ok have "update_leader_cache k (Some info) (Some (Some sched)) old = (True, new)" by simp
    from leader_after_update [OF _ this, of s pk] assms(3) that ok show ?thesis
      unfolding x by (auto simp del: set_concat)
  qed
  show ?thesis
    using inv fail good dp is_scheduled_validator_iff [OF inv] by (intro conjI allI impI) auto
qed

definition demo_answer :: "rpc_schedule" where
  "demo_answer = [(''aa'', [0, 1]), (''aaa'', [2])]"

theorem refresh_round_schedule_witness:
  "\<exists>new dp. refresh_round demo_sdk []
     (Some \<lparr>absolute_slot = 105, slot_index = 5\<rparr>, Some (Some demo_answer)) = (new, dp) \<and>
     update_ok_count dp = 1 \<and> leader_for_slot new 101 = Some 2 \<and> leader_for_slot new 102 = Some 3"
proof -
  obtain new dp where r: "refresh_round demo_sdk []
     (Some \<lparr>absolute_slot = 105, slot_index = 5\<rparr>, Some (Some demo_answer)) = (new, dp)"
    by (meson surj_pair)
  have h: "\<forall>sched. Some (Some demo_answer) = Some (Some sched) \<longrightarrow> distinct (concat (map snd sched))"
    by (simp add: demo_answer_def)
  have inv: "hm_inv ([] :: schedule)" by (simp add: hm_inv_def)
  note fact = refresh_round_schedule [OF inv r h, THEN conjunct2, THEN conjunct2, THEN conjunct1,
      rule_format, OF conjI [OF refl refl]]
  have "leader_for_slot new 101 = Some 2"
    unfolding conjunct2 [OF fact, rule_format]
    by (intro exI [of _ "''aa''"] exI [of _ "[0, 1]"]) (simp add: demo_answer_def demo_sdk_def)
  moreover have "leader_for_slot new 102 = Some 3"
    unfolding conjunct2 [OF fact, rule_format]
    by (intro exI [of _ "''aaa''"] exI [of _ "[2]"]) (simp add: demo_answer_def demo_sdk_def)
  ultimately show ?thesis using r fact by blast
qed

text \<open>
  C26: the health manager. After a run that has served at least one check tick, the state is
  \<open>Healthy\<close> exactly when, at the last check, no more than the threshold had passed since the last
  slot was received (since the start, if none was); a run without a check is \<open>Unhealthy\<close>. Every slot
  received is passed on, in order.
\<close>

theorem health_manager_verdict:
  assumes "run_loop (health_step thr) (health_manager_new start) es = Ok s"
  shows "slots_forwarded s = arm_slots es \<and>
    (\<forall>as t n bs. es = as @ (CheckTick t, n) # bs \<and> list_all (\<lambda>e. \<not> is_check e) bs \<longrightarrow>
       (health_state_cell s = Healthy \<longleftrightarrow> elapsed t (last_slot_time start as) \<le> thr)) \<and>
    (list_all (\<lambda>e. \<not> is_check e) es \<longrightarrow> health_state_cell s = Unhealthy)"
proof (intro conjI allI impI)
  show "slots_forwarded s = arm_slots es"
    using run_slots_forwarded [OF assms] by (simp add: health_manager_new_def)
next
  fix as t n bs
  assume "es = as @ (CheckTick t, n) # bs \<and> list_all (\<lambda>e. \<not> is_check e) bs"
  with assms show "health_state_cell s = Healthy \<longleftrightarrow> elapsed t (last_slot_time start as) \<le> thr"
    using health_after_check by blast
next
  assume "list_all (\<lambda>e. \<not> is_check e) es"
  with assms show "health_state_cell s = Unhealthy" by (rule unhealthy_before_first_check)
qed

definition demo_health_events :: "health_event list" where
  "demo_health_events =
     [(SlotRecv (Ok 40) True 100, 1), (CheckTick 150, 0), (SlotRecv (Ok 41) True 160, 1)]"

theorem health_manager_verdict_witness:
  "\<exists>s. run_loop (health_step 50) (health_manager_new 0) demo_health_events = Ok s \<and>
     slots_forwarded s = [40, 41] \<and> health_state_cell s = Healthy"
proof -
  obtain s where s: "run_loop (health_step 50) (health_manager_new 0) demo_health_events = Ok s"
    by (simp add: demo_health_events_def health_step_def health_arm_step_def)
  have e: "demo_health_events = [(SlotRecv (Ok 40) True 100, 1)] @ (CheckTick 150, 0)
      # [(SlotRecv (Ok 41) True 160, 1)] \<and> list_all (\<lambda>e. \<not> is_check e) [(SlotRecv (Ok 41) True 160, 1)]"
    by (simp add: demo_health_events_def is_check_def)
  note v = health_manager_verdict [OF s]
  have "arm_slots demo_health_events = [40, 41]" by (simp add: demo_health_events_def)
  with v have "slots_forwarded s = [40, 41]" by simp
  moreover have "health_state_cell s = Healthy"
    using v [THEN conjunct2, THEN conjunct1, rule_format, OF e] by (simp add: elapsed_def)
  ultimately show ?thesis using s by blast
qed

end
