(* ===== verification/Forwarder.thy ===== *)
theory Forwarder
  imports Relayer_Core
begin

text \<open>
  The forward-and-delay threads of \<open>transaction-relayer/src/forwarder.rs\<close>. Each thread takes verified
  batches, offers them to the block engine handler at once, and holds them back for the packet delay
  before it passes them on to the relayer. All threads share the two outgoing channels; each has its
  own buffer and metrics. A run of the threads is a list of loop iterations, each naming its thread,
  in the order in which they happen.
\<close>

section \<open>Data\<close>

definition BLOCK_ENGINE_FORWARDER_QUEUE_CAPACITY :: u64 where
  "BLOCK_ENGINE_FORWARDER_QUEUE_CAPACITY = 5000"

text \<open>The message to the block engine handler (\<open>block_engine/src/block_engine.rs\<close>).\<close>

record block_engine_packets =
  bep_batch :: banking_packet_batch
  bep_stamp :: system_time
  bep_expiration :: u32

record forwarder_metrics =
  num_batches_received :: u64
  num_packets_received :: u64
  num_be_packets_forwarded :: u64
  num_be_packets_dropped :: u64
  num_be_sender_full :: u64
  num_relayer_packets_forwarded :: u64
  buffered_packet_batches_max_len :: u64
  buffered_packet_batches_capacity :: u64
  verified_receiver_max_len :: u64
  verified_receiver_capacity :: u64
  block_engine_sender_max_len :: u64
  block_engine_sender_capacity :: u64

definition forwarder_metrics_new :: "u64 \<Rightarrow> u64 \<Rightarrow> u64 \<Rightarrow> forwarder_metrics" where
  "forwarder_metrics_new buffered_cap receiver_cap be_cap =
     \<lparr>num_batches_received = 0, num_packets_received = 0, num_be_packets_forwarded = 0,
      num_be_packets_dropped = 0, num_be_sender_full = 0, num_relayer_packets_forwarded = 0,
      buffered_packet_batches_max_len = 0, buffered_packet_batches_capacity = buffered_cap,
      verified_receiver_max_len = 0, verified_receiver_capacity = receiver_cap,
      block_engine_sender_max_len = 0, block_engine_sender_capacity = be_cap\<rparr>"

definition update_queue_lengths :: "forwarder_metrics \<Rightarrow> u64 \<Rightarrow> u64 \<Rightarrow> u64 \<Rightarrow> u64 \<Rightarrow> forwarder_metrics" where
  "update_queue_lengths m buffered_len buffered_cap receiver_len be_len =
     m\<lparr>buffered_packet_batches_max_len := max (buffered_packet_batches_max_len m) buffered_len,
       buffered_packet_batches_capacity := max (buffered_packet_batches_capacity m) buffered_cap,
       verified_receiver_max_len := max (verified_receiver_max_len m) receiver_len,
       block_engine_sender_max_len := max (block_engine_sender_max_len m) be_len\<rparr>"

record forwarder_config =
  packet_delay_ms :: u32
  disable_mempool :: bool

definition packet_delay :: "forwarder_config \<Rightarrow> duration" where
  "packet_delay cfg = from_millis (unat (packet_delay_ms cfg))"

text \<open>The locals of one thread.\<close>

record forwarder_thread =
  buffered_packet_batches :: "relayer_packet_batches list"
  fwd_metrics :: forwarder_metrics
  last_metrics_upload :: instant
  fwd_reports :: "forwarder_metrics list"

text \<open>
  What the threads share: the channel to the block engine handler, and the batches sent on
  \<open>delay_packet_sender\<close>, each with the sending thread and the clock reading that released it.
\<close>

record 's forwarder_shared =
  be_sender :: 's
  delayed_out :: "(nat \<times> relayer_packet_batches \<times> instant) list"

datatype 'a recv_timeout = Received 'a | RecvTimeout | RecvDisconnected

text \<open>
  What one iteration reads from outside: the clock for the metrics check and the upload stamp, the
  outcome of \<open>recv_timeout\<close>, the two stamps taken after it, the clock at the \<open>i\<close>-th look at the front
  of the buffer, whether the \<open>i\<close>-th send to the relayer succeeds, and the sizes of the queues.
\<close>

record forwarder_env =
  fe_check_at :: instant
  fe_upload_at :: instant
  fe_recv :: "banking_packet_batch recv_timeout"
  fe_instant :: instant
  fe_system_time :: system_time
  fe_clock :: "nat \<Rightarrow> instant"
  fe_relayer_alive :: "nat \<Rightarrow> bool"
  fe_buffer_capacity :: "u64 \<times> u64"
  fe_receiver_capacity :: "u64 option"
  fe_receiver_len :: u64

type_synonym 's be_ops = "('s, block_engine_packets) sender_ops"

section \<open>One iteration\<close>

definition metrics_interval :: duration where
  "metrics_interval = from_secs 1"

definition upload_metrics :: "'s be_ops \<Rightarrow> forwarder_env \<Rightarrow> 's \<Rightarrow> forwarder_thread \<Rightarrow> forwarder_thread" where
  "upload_metrics ops env be t =
     (if metrics_interval \<le> elapsed (fe_check_at env) (last_metrics_upload t) then
        t\<lparr>fwd_reports := fwd_reports t @ [fwd_metrics t],
          fwd_metrics := forwarder_metrics_new (fst (fe_buffer_capacity env))
            (case fe_receiver_capacity env of None \<Rightarrow> 0 | Some c \<Rightarrow> c) (capacity ops be),
          last_metrics_upload := fe_upload_at env\<rparr>
      else t)"

definition offer_to_block_engine ::
  "'s be_ops \<Rightarrow> forwarder_config \<Rightarrow> system_time \<Rightarrow> banking_packet_batch \<Rightarrow> 's \<Rightarrow> forwarder_metrics
     \<Rightarrow> ('s \<times> forwarder_metrics, unit) result" where
  "offer_to_block_engine ops cfg now batch be m =
     (if \<not> disable_mempool cfg then
        (case try_send ops be \<lparr>bep_batch = batch, bep_stamp = now, bep_expiration = packet_delay_ms cfg\<rparr> of
           (SendOk, be') \<Rightarrow>
             Ok (be', m\<lparr>num_be_packets_forwarded := num_be_packets_forwarded m + sum_len_u64 batch\<rparr>)
         | (SendClosed, be') \<Rightarrow> Panic
         | (SendFull, be') \<Rightarrow>
             Ok (be', m\<lparr>num_be_packets_dropped := num_be_packets_dropped m + sum_len_u64 batch,
                        num_be_sender_full := num_be_sender_full m + 1\<rparr>))
      else Ok (be, m))"

definition receive_batch ::
  "'s be_ops \<Rightarrow> forwarder_config \<Rightarrow> forwarder_env \<Rightarrow> 's \<Rightarrow> forwarder_thread
     \<Rightarrow> ('s \<times> forwarder_thread, unit) result" where
  "receive_batch ops cfg env be t =
     (case fe_recv env of
        Received batch \<Rightarrow>
          and_then
            (offer_to_block_engine ops cfg (fe_system_time env) batch be
               ((fwd_metrics t)\<lparr>num_batches_received := num_batches_received (fwd_metrics t) + 1,
                  num_packets_received := num_packets_received (fwd_metrics t) + sum_len_u64 batch\<rparr>))
            (\<lambda>(be', m). Ok (be', t\<lparr>fwd_metrics := m,
               buffered_packet_batches := buffered_packet_batches t
                 @ [\<lparr>rpb_stamp = fe_instant env, rpb_batch = batch\<rparr>]\<rparr>))
      | RecvTimeout \<Rightarrow> Ok (be, t)
      | RecvDisconnected \<Rightarrow> Panic)"

text \<open>\<open>while let Some(packet_batches) = buffered_packet_batches.front()\<close>.\<close>

fun drain_delayed ::
  "forwarder_config \<Rightarrow> forwarder_env \<Rightarrow> nat \<Rightarrow> relayer_packet_batches list \<Rightarrow> forwarder_metrics
     \<Rightarrow> (relayer_packet_batches list \<times> forwarder_metrics \<times> (relayer_packet_batches \<times> instant) list, unit) result" where
  "drain_delayed cfg env i [] m = Ok ([], m, [])"
| "drain_delayed cfg env i (batch # rest) m =
     (if elapsed (fe_clock env i) (rpb_stamp batch) < packet_delay cfg then Ok (batch # rest, m, [])
      else if \<not> fe_relayer_alive env i then Panic
      else and_then
        (drain_delayed cfg env (Suc i) rest
           (m\<lparr>num_relayer_packets_forwarded :=
                num_relayer_packets_forwarded m + sum_len_u64 (rpb_batch batch)\<rparr>))
        (\<lambda>(buf, m', out). Ok (buf, m', (batch, fe_clock env i) # out)))"

definition forwarder_iteration ::
  "'s be_ops \<Rightarrow> forwarder_config \<Rightarrow> nat \<Rightarrow> forwarder_env \<Rightarrow> 's forwarder_shared \<Rightarrow> forwarder_thread
     \<Rightarrow> ('s forwarder_shared \<times> forwarder_thread, unit) result" where
  "forwarder_iteration ops cfg tid env sh t =
     and_then (receive_batch ops cfg env (be_sender sh) (upload_metrics ops env (be_sender sh) t))
       (\<lambda>(be, t1).
          and_then (drain_delayed cfg env 0 (buffered_packet_batches t1) (fwd_metrics t1))
            (\<lambda>(buf, m, out).
               Ok (sh\<lparr>be_sender := be, delayed_out := delayed_out sh @ map (\<lambda>(b, at). (tid, b, at)) out\<rparr>,
                   t1\<lparr>buffered_packet_batches := buf,
                      fwd_metrics := update_queue_lengths m (word_of_nat (length buf))
                        (snd (fe_buffer_capacity env)) (fe_receiver_len env)
                        (BLOCK_ENGINE_FORWARDER_QUEUE_CAPACITY - capacity ops be)\<rparr>)))"

section \<open>The threads together\<close>

record 's forwarder =
  fwd_shared :: "'s forwarder_shared"
  fwd_threads :: "forwarder_thread list"

text \<open>\<open>caps\<close> and \<open>starts\<close> give each thread's queue capacities and first clock reading.\<close>

definition start_forward_and_delay_thread ::
  "'s be_ops \<Rightarrow> 's \<Rightarrow> u64 \<Rightarrow> (nat \<Rightarrow> u64 \<times> u64 option) \<Rightarrow> (nat \<Rightarrow> instant) \<Rightarrow> 's forwarder" where
  "start_forward_and_delay_thread ops be num_threads caps starts =
     \<lparr>fwd_shared = \<lparr>be_sender = be, delayed_out = []\<rparr>,
      fwd_threads = map (\<lambda>thread_id.
        \<lparr>buffered_packet_batches = [],
         fwd_metrics = forwarder_metrics_new (fst (caps thread_id))
           (case snd (caps thread_id) of None \<Rightarrow> 0 | Some c \<Rightarrow> c) (capacity ops be),
         last_metrics_upload = starts thread_id, fwd_reports = []\<rparr>) [0..<unat num_threads]\<rparr>"

definition forwarder_step ::
  "'s be_ops \<Rightarrow> forwarder_config \<Rightarrow> 's forwarder \<Rightarrow> nat \<times> forwarder_env \<Rightarrow> ('s forwarder, unit) result" where
  "forwarder_step ops cfg f ev =
     (case ev of (tid, env) \<Rightarrow>
        if tid < length (fwd_threads f) then
          and_then (forwarder_iteration ops cfg tid env (fwd_shared f) (fwd_threads f ! tid))
            (\<lambda>(sh, t). Ok (f\<lparr>fwd_shared := sh, fwd_threads := (fwd_threads f)[tid := t]\<rparr>))
        else Ok f)"

section \<open>What a run received and released\<close>

fun received_batches :: "nat \<Rightarrow> (nat \<times> forwarder_env) list \<Rightarrow> relayer_packet_batches list" where
  "received_batches tid [] = []"
| "received_batches tid ((i, env) # es) =
     (case fe_recv env of
        Received batch \<Rightarrow> if i = tid then [\<lparr>rpb_stamp = fe_instant env, rpb_batch = batch\<rparr>] else []
      | _ \<Rightarrow> []) @ received_batches tid es"

definition released :: "nat \<Rightarrow> 's forwarder_shared \<Rightarrow> relayer_packet_batches list" where
  "released tid sh = map (fst \<circ> snd) (filter (\<lambda>x. fst x = tid) (delayed_out sh))"

text \<open>The messages for the block engine handler, in the order of the run.\<close>

fun be_offers :: "forwarder_config \<Rightarrow> nat \<Rightarrow> (nat \<times> forwarder_env) list \<Rightarrow> block_engine_packets list" where
  "be_offers cfg n [] = []"
| "be_offers cfg n ((i, env) # es) =
     (case fe_recv env of
        Received batch \<Rightarrow>
          if i < n \<and> \<not> disable_mempool cfg
          then [\<lparr>bep_batch = batch, bep_stamp = fe_system_time env,
                 bep_expiration = packet_delay_ms cfg\<rparr>]
          else []
      | _ \<Rightarrow> []) @ be_offers cfg n es"

section \<open>Lemmas\<close>

lemma drain_delayed_Ok:
  "drain_delayed cfg env i buf m = Ok (buf', m', out) \<Longrightarrow>
     buf = map fst out @ buf' \<and>
     (\<forall>(b, at)\<in>set out. packet_delay cfg \<le> elapsed at (rpb_stamp b)) \<and>
     (buf' \<noteq> [] \<longrightarrow> (\<exists>j. elapsed (fe_clock env j) (rpb_stamp (hd buf')) < packet_delay cfg)) \<and>
     num_packets_received m' = num_packets_received m \<and>
     num_be_packets_forwarded m' = num_be_packets_forwarded m \<and>
     num_be_packets_dropped m' = num_be_packets_dropped m"
proof (induction cfg env i buf m arbitrary: buf' m' out rule: drain_delayed.induct)
  case (1 cfg env i m)
  then show ?case by simp
next
  case (2 cfg env i batch rest m)
  let ?m = "m\<lparr>num_relayer_packets_forwarded :=
                num_relayer_packets_forwarded m + sum_len_u64 (rpb_batch batch)\<rparr>"
  show ?case
  proof (cases "elapsed (fe_clock env i) (rpb_stamp batch) < packet_delay cfg")
    case True
    with "2.prems" show ?thesis by auto
  next
    case False
    with "2.prems" have alive: "fe_relayer_alive env i" by (auto split: if_splits)
    with False "2.prems" obtain out' where d: "drain_delayed cfg env (Suc i) rest ?m = Ok (buf', m', out')"
      and out: "out = (batch, fe_clock env i) # out'"
      by (auto simp: rust_simps)
    from "2.IH" [OF False _ d] alive False out show ?thesis by auto
  qed
qed

lemma receive_batch_Ok:
  assumes "receive_batch ops cfg env be t = Ok (be', t')"
  shows "buffered_packet_batches t' = buffered_packet_batches t @
      (case fe_recv env of
         Received batch \<Rightarrow> [\<lparr>rpb_stamp = fe_instant env, rpb_batch = batch\<rparr>] | _ \<Rightarrow> [])"
    and "fwd_reports t' = fwd_reports t" "last_metrics_upload t' = last_metrics_upload t"
  using assms by (auto simp: receive_batch_def rust_simps split: recv_timeout.splits)

lemma upload_metrics_simps [simp]:
  "buffered_packet_batches (upload_metrics ops env be t) = buffered_packet_batches t"
  by (simp add: upload_metrics_def)

lemma forwarder_iteration_Ok:
  assumes "forwarder_iteration ops cfg tid env sh t = Ok (sh', t')"
  obtains be t1 out m where
    "receive_batch ops cfg env (be_sender sh) (upload_metrics ops env (be_sender sh) t) = Ok (be, t1)"
    "drain_delayed cfg env 0 (buffered_packet_batches t1) (fwd_metrics t1)
       = Ok (buffered_packet_batches t', m, out)"
    "be_sender sh' = be" "delayed_out sh' = delayed_out sh @ map (\<lambda>(b, at). (tid, b, at)) out"
    "num_packets_received (fwd_metrics t') = num_packets_received m"
    "num_be_packets_forwarded (fwd_metrics t') = num_be_packets_forwarded m"
    "num_be_packets_dropped (fwd_metrics t') = num_be_packets_dropped m"
    "fwd_reports t' = fwd_reports t1"
  using assms by (auto simp: forwarder_iteration_def rust_simps update_queue_lengths_def)

lemma forwarder_iteration_fifo:
  assumes "forwarder_iteration ops cfg tid env sh t = Ok (sh', t')"
  shows "released tid sh' @ buffered_packet_batches t' =
      released tid sh @ buffered_packet_batches t @ received_batches tid [(tid, env)]"
    and "\<And>i. i \<noteq> tid \<Longrightarrow> released i sh' = released i sh"
    and "\<exists>new. delayed_out sh' = delayed_out sh @ new \<and>
      (\<forall>(i, b, at)\<in>set new. packet_delay cfg \<le> elapsed at (rpb_stamp b))"
    and "buffered_packet_batches t' \<noteq> [] \<Longrightarrow>
      \<exists>j. elapsed (fe_clock env j) (rpb_stamp (hd (buffered_packet_batches t'))) < packet_delay cfg"
proof -
  from assms obtain be t1 out m where
    r: "receive_batch ops cfg env (be_sender sh) (upload_metrics ops env (be_sender sh) t) = Ok (be, t1)"
    and d: "drain_delayed cfg env 0 (buffered_packet_batches t1) (fwd_metrics t1)
       = Ok (buffered_packet_batches t', m, out)"
    and out: "delayed_out sh' = delayed_out sh @ map (\<lambda>(b, at). (tid, b, at)) out"
    by (rule forwarder_iteration_Ok)
  note dr = drain_delayed_Ok [OF d]
  have rel: "released i sh' = released i sh @ (if i = tid then map fst out else [])" for i
    by (auto simp: released_def out comp_def case_prod_unfold filter_empty_conv filter_map)
  show "released tid sh' @ buffered_packet_batches t' =
      released tid sh @ buffered_packet_batches t @ received_batches tid [(tid, env)]"
    using receive_batch_Ok(1) [OF r] dr by (auto simp: rel split: recv_timeout.splits)
  show "\<And>i. i \<noteq> tid \<Longrightarrow> released i sh' = released i sh" by (simp add: rel)
  show "\<exists>new. delayed_out sh' = delayed_out sh @ new \<and>
      (\<forall>(i, b, at)\<in>set new. packet_delay cfg \<le> elapsed at (rpb_stamp b))"
    using dr by (auto simp: out)
  show "\<exists>j. elapsed (fe_clock env j) (rpb_stamp (hd (buffered_packet_batches t'))) < packet_delay cfg"
    if "buffered_packet_batches t' \<noteq> []"
    using dr that by blast
qed

lemma forwarder_step_Ok:
  assumes "forwarder_step ops cfg f (tid, env) = Ok f'"
  obtains "length (fwd_threads f) \<le> tid" "f' = f"
  | sh t where "tid < length (fwd_threads f)"
    "forwarder_iteration ops cfg tid env (fwd_shared f) (fwd_threads f ! tid) = Ok (sh, t)"
    "fwd_shared f' = sh" "fwd_threads f' = (fwd_threads f)[tid := t]"
  using assms by (auto simp: forwarder_step_def rust_simps split: if_splits)

text \<open>Every thread releases what it received, in order, and keeps the rest.\<close>

lemma forwarder_run_fifo:
  "run_loop (forwarder_step ops cfg) f es = Ok f' \<Longrightarrow> tid < length (fwd_threads f) \<Longrightarrow>
     length (fwd_threads f') = length (fwd_threads f) \<and>
     released tid (fwd_shared f') @ buffered_packet_batches (fwd_threads f' ! tid) =
       released tid (fwd_shared f) @ buffered_packet_batches (fwd_threads f ! tid)
         @ received_batches tid es"
proof (induction rule: run_loop_induct)
  case (Nil s)
  then show ?case by simp
next
  case (Cons s e t es s')
  obtain i env where e: "e = (i, env)" by (cases e)
  from Cons.hyps(1) [unfolded e]
  have "length (fwd_threads t) = length (fwd_threads s) \<and>
     released tid (fwd_shared t) @ buffered_packet_batches (fwd_threads t ! tid) =
       released tid (fwd_shared s) @ buffered_packet_batches (fwd_threads s ! tid)
         @ received_batches tid [e]"
  proof (cases rule: forwarder_step_Ok)
    case 1
    with Cons.prems e show ?thesis by (auto split: recv_timeout.splits)
  next
    case (2 sh th)
    from forwarder_iteration_fifo(1,2) [OF 2(2)] 2 Cons.prems e show ?thesis
      by (cases "i = tid") (auto split: recv_timeout.splits)
  qed
  moreover have "received_batches tid (e # es) = received_batches tid [e] @ received_batches tid es"
    by (simp add: e)
  ultimately show ?case using Cons.IH Cons.prems by auto
qed

lemma forwarder_run_delay:
  "run_loop (forwarder_step ops cfg) f es = Ok f' \<Longrightarrow>
     \<forall>(i, b, at)\<in>set (delayed_out (fwd_shared f)). packet_delay cfg \<le> elapsed at (rpb_stamp b) \<Longrightarrow>
     \<forall>(i, b, at)\<in>set (delayed_out (fwd_shared f')). packet_delay cfg \<le> elapsed at (rpb_stamp b)"
proof (induction rule: run_loop_induct)
  case (Nil s)
  then show ?case by simp
next
  case (Cons s e t es s')
  obtain i env where e: "e = (i, env)" by (cases e)
  from Cons.hyps(1) [unfolded e]
  have "\<forall>(i, b, at)\<in>set (delayed_out (fwd_shared t)). packet_delay cfg \<le> elapsed at (rpb_stamp b)"
  proof (cases rule: forwarder_step_Ok)
    case 1
    with Cons.prems show ?thesis by simp
  next
    case (2 sh th)
    from forwarder_iteration_fifo(3) [OF 2(2)] 2(3) Cons.prems show ?thesis by auto
  qed
  with Cons.IH show ?case by blast
qed

subsection \<open>The metrics balance\<close>

text \<open>
  With the block engine path on, every packet received is counted as forwarded or as dropped;
  with it off, none is.
\<close>

definition balanced :: "forwarder_config \<Rightarrow> forwarder_metrics \<Rightarrow> bool" where
  "balanced cfg m \<longleftrightarrow>
     num_be_packets_forwarded m + num_be_packets_dropped m
       = (if disable_mempool cfg then 0 else num_packets_received m)"

definition forwarder_inv :: "forwarder_config \<Rightarrow> 's forwarder \<Rightarrow> bool" where
  "forwarder_inv cfg f \<longleftrightarrow>
     (\<forall>t\<in>set (fwd_threads f). balanced cfg (fwd_metrics t) \<and> list_all (balanced cfg) (fwd_reports t))"

lemma balanced_new [simp]: "balanced cfg (forwarder_metrics_new a b c)"
  by (simp add: balanced_def forwarder_metrics_new_def)

lemma offer_to_block_engine_balanced:
  assumes "offer_to_block_engine ops cfg now batch be
      (m\<lparr>num_batches_received := n, num_packets_received := num_packets_received m + sum_len_u64 batch\<rparr>)
      = Ok (be', m')" "balanced cfg m"
  shows "balanced cfg m'"
  using assms
  by (auto simp: offer_to_block_engine_def balanced_def algebra_simps split: if_splits prod.splits
      send_outcome.splits)

lemma receive_batch_balanced:
  assumes "receive_batch ops cfg env be t = Ok (be', t')" "balanced cfg (fwd_metrics t)"
  shows "balanced cfg (fwd_metrics t')"
proof (cases "fe_recv env")
  case (Received batch)
  with assms show ?thesis
    by (auto simp: receive_batch_def rust_simps intro: offer_to_block_engine_balanced)
qed (use assms in \<open>auto simp: receive_batch_def\<close>)

lemma forwarder_iteration_balanced:
  assumes "forwarder_iteration ops cfg tid env sh t = Ok (sh', t')"
    and "balanced cfg (fwd_metrics t)" "list_all (balanced cfg) (fwd_reports t)"
  shows "balanced cfg (fwd_metrics t') \<and> list_all (balanced cfg) (fwd_reports t')"
  using assms(1)
proof (rule forwarder_iteration_Ok)
  fix be t1 out m
  assume r: "receive_batch ops cfg env (be_sender sh) (upload_metrics ops env (be_sender sh) t) = Ok (be, t1)"
    and d: "drain_delayed cfg env 0 (buffered_packet_batches t1) (fwd_metrics t1)
       = Ok (buffered_packet_batches t', m, out)"
    and m: "num_packets_received (fwd_metrics t') = num_packets_received m"
    "num_be_packets_forwarded (fwd_metrics t') = num_be_packets_forwarded m"
    "num_be_packets_dropped (fwd_metrics t') = num_be_packets_dropped m"
    "fwd_reports t' = fwd_reports t1"
  have u: "balanced cfg (fwd_metrics (upload_metrics ops env (be_sender sh) t))"
    "list_all (balanced cfg) (fwd_reports (upload_metrics ops env (be_sender sh) t))"
    using assms(2,3) by (auto simp: upload_metrics_def)
  from receive_batch_balanced [OF r u(1)] u(2) receive_batch_Ok(2) [OF r] drain_delayed_Ok [OF d] m
  show ?thesis by (simp add: balanced_def)
qed

interpretation forwarder_loop: event_loop "forwarder_step ops cfg" "forwarder_inv cfg" "\<lambda>_. True"
  for ops cfg
proof unfold_locales
  fix f :: "'a forwarder" and e f'
  assume inv: "forwarder_inv cfg f" and step: "forwarder_step ops cfg f e = Ok f'"
  obtain i env where e: "e = (i, env)" by (cases e)
  from step [unfolded e] show "forwarder_inv cfg f'"
  proof (cases rule: forwarder_step_Ok)
    case 1
    with inv show ?thesis by simp
  next
    case (2 sh th)
    from 2(1) inv have "balanced cfg (fwd_metrics (fwd_threads f ! i))"
      "list_all (balanced cfg) (fwd_reports (fwd_threads f ! i))"
      by (simp_all add: forwarder_inv_def)
    from forwarder_iteration_balanced [OF 2(2) this] inv 2(4) show ?thesis
      unfolding forwarder_inv_def by (metis insertE set_update_subset_insert subsetD)
  qed
qed

lemma forwarder_inv_init: "forwarder_inv cfg (start_forward_and_delay_thread ops be n caps starts)"
  by (auto simp: forwarder_inv_def start_forward_and_delay_thread_def)

subsection \<open>The block engine channel\<close>

lemma receive_batch_offers:
  assumes "mpsc_sender ops accepted" "receive_batch ops cfg env be t = Ok (be', t')" "tid < n"
  shows "\<exists>new. accepted be' = accepted be @ new \<and> subseq new (be_offers cfg n [(tid, env)])"
proof (cases "fe_recv env")
  case (Received batch)
  define q where "q = \<lparr>bep_batch = batch, bep_stamp = fe_system_time env,
    bep_expiration = packet_delay_ms cfg\<rparr>"
  show ?thesis
  proof (cases "disable_mempool cfg")
    case True
    with Received assms(2) show ?thesis by (auto simp: receive_batch_def offer_to_block_engine_def)
  next
    case False
    with Received assms(2) have "be' = snd (try_send ops be q)"
      by (auto simp: receive_batch_def offer_to_block_engine_def q_def rust_simps
          split: prod.splits send_outcome.splits)
    with mpsc_sender.accepted_try_send [OF assms(1), of be q] False Received assms(3) show ?thesis
      by (intro exI [of _ "if fst (try_send ops be q) = SendOk then [q] else []"]) (simp add: q_def)
  qed
qed (use assms in \<open>auto simp: receive_batch_def\<close>)

lemma forwarder_run_offers:
  assumes "mpsc_sender ops accepted"
  shows "run_loop (forwarder_step ops cfg) f es = Ok f' \<Longrightarrow> length (fwd_threads f) = n \<Longrightarrow>
    \<exists>new. accepted (be_sender (fwd_shared f')) = accepted (be_sender (fwd_shared f)) @ new \<and>
      subseq new (be_offers cfg n es)"
proof (induction rule: run_loop_induct)
  case (Nil s)
  then show ?case by simp
next
  case (Cons s e t es s')
  obtain i env where e: "e = (i, env)" by (cases e)
  from Cons.hyps(1) [unfolded e]
  have "length (fwd_threads t) = n \<and>
    (\<exists>new. accepted (be_sender (fwd_shared t)) = accepted (be_sender (fwd_shared s)) @ new \<and>
      subseq new (be_offers cfg n [e]))"
  proof (cases rule: forwarder_step_Ok)
    case 1
    with Cons.prems show ?thesis by simp
  next
    case (2 sh th)
    from 2(2) obtain be t1 where
      "receive_batch ops cfg env (be_sender (fwd_shared s))
         (upload_metrics ops env (be_sender (fwd_shared s)) (fwd_threads s ! i)) = Ok (be, t1)"
      "be_sender sh = be" by (rule forwarder_iteration_Ok)
    with receive_batch_offers [OF assms] 2 Cons.prems e show ?thesis by auto
  qed
  then obtain a where len: "length (fwd_threads t) = n"
    and a: "accepted (be_sender (fwd_shared t)) = accepted (be_sender (fwd_shared s)) @ a"
      "subseq a (be_offers cfg n [e])" by blast
  from Cons.IH [OF len] obtain b where
    b: "accepted (be_sender (fwd_shared s')) = accepted (be_sender (fwd_shared t)) @ b"
      "subseq b (be_offers cfg n es)" by blast
  have "be_offers cfg n (e # es) = be_offers cfg n [e] @ be_offers cfg n es" by (simp add: e)
  with a b list_emb_append_mono [of "(=)" a "be_offers cfg n [e]" b "be_offers cfg n es"] show ?case
    by (intro exI [of _ "a @ b"]) simp
qed

lemma be_offers_disabled: "disable_mempool cfg \<Longrightarrow> be_offers cfg n es = []"
  by (induction cfg n es rule: be_offers.induct) (auto split: recv_timeout.splits)

subsection \<open>Progress\<close>

lemma forwarder_iteration_buffer:
  assumes "forwarder_iteration ops cfg tid env sh t = Ok (sh', t')"
  shows "suffix (buffered_packet_batches t') (buffered_packet_batches t @ received_batches tid [(tid, env)])"
  using assms
proof (rule forwarder_iteration_Ok)
  fix be t1 out m
  assume r: "receive_batch ops cfg env (be_sender sh) (upload_metrics ops env (be_sender sh) t) = Ok (be, t1)"
    and d: "drain_delayed cfg env 0 (buffered_packet_batches t1) (fwd_metrics t1)
       = Ok (buffered_packet_batches t', m, out)"
  have "buffered_packet_batches t1 = buffered_packet_batches t @ received_batches tid [(tid, env)]"
    using receive_batch_Ok(1) [OF r] by (auto split: recv_timeout.splits)
  with drain_delayed_Ok [OF d] show ?thesis by (metis suffix_def)
qed

lemma drain_delayed_total:
  "\<forall>i. fe_relayer_alive env i \<Longrightarrow> \<exists>x. drain_delayed cfg env i buf m = Ok x"
proof (induction cfg env i buf m rule: drain_delayed.induct)
  case (2 cfg env i batch rest m)
  then show ?case by (cases "elapsed (fe_clock env i) (rpb_stamp batch) < packet_delay cfg") auto
qed simp

lemma receive_batch_total:
  assumes "fe_recv env \<noteq> RecvDisconnected" "\<forall>q. fst (try_send ops be q) \<noteq> SendClosed"
  shows "\<exists>x. receive_batch ops cfg env be t = Ok x"
proof (cases "fe_recv env")
  case (Received batch)
  obtain r be' where "try_send ops be \<lparr>bep_batch = batch, bep_stamp = fe_system_time env,
      bep_expiration = packet_delay_ms cfg\<rparr> = (r, be')" by (meson surj_pair)
  with assms(2) [rule_format, of "\<lparr>bep_batch = batch, bep_stamp = fe_system_time env,
      bep_expiration = packet_delay_ms cfg\<rparr>"] Received show ?thesis
    by (cases r) (auto simp: receive_batch_def offer_to_block_engine_def)
qed (use assms in \<open>auto simp: receive_batch_def\<close>)

lemma forwarder_iteration_total:
  assumes "fe_recv env \<noteq> RecvDisconnected" "\<forall>q. fst (try_send ops (be_sender sh) q) \<noteq> SendClosed"
    and "\<forall>i. fe_relayer_alive env i"
  shows "\<exists>sh' t'. forwarder_iteration ops cfg tid env sh t = Ok (sh', t')"
proof -
  obtain be t1 where r: "receive_batch ops cfg env (be_sender sh)
      (upload_metrics ops env (be_sender sh) t) = Ok (be, t1)"
    using receive_batch_total [OF assms(1,2)] by fast
  obtain buf m out where "drain_delayed cfg env 0 (buffered_packet_batches t1) (fwd_metrics t1)
      = Ok (buf, m, out)"
    using drain_delayed_total [OF assms(3)] by (metis prod_cases3)
  with r show ?thesis by (simp add: forwarder_iteration_def)
qed

end
