(* ===== verification/Forwarder_Theorems.thy ===== *)
theory Forwarder_Theorems
  imports Forwarder
begin

text \<open>The statements about the forward-and-delay threads.\<close>

text \<open>
  C8: delaying. In every run of the threads, from their start, each thread has released to the relayer
  an initial part of the batches it received, in the order received and with the instant of their
  receipt, and holds exactly the rest in its buffer: no batch is lost, duplicated or reordered. Every
  batch released had waited at least the packet delay.
\<close>

theorem forwarder_delays:
  assumes "run_loop (forwarder_step ops cfg) (start_forward_and_delay_thread ops be n caps starts) es = Ok f"
  shows "(\<forall>tid < unat n. released tid (fwd_shared f) @ buffered_packet_batches (fwd_threads f ! tid)
           = received_batches tid es) \<and>
    (\<forall>(tid, b, at)\<in>set (delayed_out (fwd_shared f)). packet_delay cfg \<le> elapsed at (rpb_stamp b))"
proof -
  let ?f = "start_forward_and_delay_thread ops be n caps starts"
  have "released tid (fwd_shared f) @ buffered_packet_batches (fwd_threads f ! tid)
           = received_batches tid es" if "tid < unat n" for tid
    using forwarder_run_fifo [OF assms, of tid] that
    by (simp add: start_forward_and_delay_thread_def released_def)
  moreover have "\<forall>(tid, b, at)\<in>set (delayed_out (fwd_shared f)). packet_delay cfg \<le> elapsed at (rpb_stamp b)"
    by (rule forwarder_run_delay [OF assms]) (simp add: start_forward_and_delay_thread_def)
  ultimately show ?thesis by blast
qed

definition demo_fenv :: "banking_packet_batch recv_timeout \<Rightarrow> instant \<Rightarrow> forwarder_env" where
  "demo_fenv r now =
     \<lparr>fe_check_at = now, fe_upload_at = now, fe_recv = r, fe_instant = now, fe_system_time = now,
      fe_clock = (\<lambda>_. now), fe_relayer_alive = (\<lambda>_. True), fe_buffer_capacity = (100000, 100000),
      fe_receiver_capacity = None, fe_receiver_len = 0\<rparr>"

definition demo_fcfg :: forwarder_config where
  "demo_fcfg = \<lparr>packet_delay_ms = 50, disable_mempool = False\<rparr>"

definition demo_fevents :: "(nat \<times> forwarder_env) list" where
  "demo_fevents =
     [(0, demo_fenv (Received [[]]) 0), (1, demo_fenv (Received [[], []]) 7),
      (0, demo_fenv RecvTimeout 60000000)]"

definition demo_fstart :: "block_engine_packets chan forwarder" where
  "demo_fstart = start_forward_and_delay_thread chan_ops (chan_new 1) 2 (\<lambda>_. (100000, None)) (\<lambda>_. 0)"

lemmas forwarder_eval = forwarder_step_def forwarder_iteration_def receive_batch_def upload_metrics_def
  offer_to_block_engine_def start_forward_and_delay_thread_def forwarder_metrics_new_def
  update_queue_lengths_def metrics_interval_def packet_delay_def from_secs_def from_millis_def
  elapsed_def chan_ops_def chan_new_def chan_try_send_def chan_capacity_def
  demo_fenv_def demo_fcfg_def demo_fevents_def demo_fstart_def

lemma demo_forwarder_runs:
  "case run_loop (forwarder_step chan_ops demo_fcfg) demo_fstart demo_fevents of
     Ok f \<Rightarrow> released 0 (fwd_shared f) = [\<lparr>rpb_stamp = 0, rpb_batch = [[]]\<rparr>] \<and>
       length (ch_log (be_sender (fwd_shared f))) = 1
   | _ \<Rightarrow> False"
  by (simp add: forwarder_eval released_def upt_rec)

lemma demo_forwarder_Ok:
  obtains f where "run_loop (forwarder_step chan_ops demo_fcfg)
      (start_forward_and_delay_thread chan_ops (chan_new 1) 2 (\<lambda>_. (100000, None)) (\<lambda>_. 0)) demo_fevents = Ok f"
    "released 0 (fwd_shared f) = [\<lparr>rpb_stamp = 0, rpb_batch = [[]]\<rparr>]"
  using demo_forwarder_runs by (auto simp: demo_fstart_def split: result.splits)

theorem forwarder_delays_witness:
  "\<exists>f. run_loop (forwarder_step chan_ops demo_fcfg)
      (start_forward_and_delay_thread chan_ops (chan_new 1) 2 (\<lambda>_. (100000, None)) (\<lambda>_. 0)) demo_fevents = Ok f \<and>
    released 0 (fwd_shared f) \<noteq> [] \<and>
    released 1 (fwd_shared f) @ buffered_packet_batches (fwd_threads f ! 1)
      = [\<lparr>rpb_stamp = 7, rpb_batch = [[], []]\<rparr>]"
proof -
  obtain f where f: "run_loop (forwarder_step chan_ops demo_fcfg)
      (start_forward_and_delay_thread chan_ops (chan_new 1) 2 (\<lambda>_. (100000, None)) (\<lambda>_. 0)) demo_fevents = Ok f"
    "released 0 (fwd_shared f) = [\<lparr>rpb_stamp = 0, rpb_batch = [[]]\<rparr>]" by (rule demo_forwarder_Ok)
  have "received_batches 1 demo_fevents = [\<lparr>rpb_stamp = 7, rpb_batch = [[], []]\<rparr>]"
    by (simp add: demo_fevents_def demo_fenv_def)
  with forwarder_delays [OF f(1), THEN conjunct1, rule_format, of 1] f show ?thesis by simp
qed

text \<open>
  Progress. An iteration whose receiver is connected, whose block engine channel is open and whose
  relayer is listening does not panic, and it leaves no due batch behind: if the buffer is not empty
  afterwards, some clock reading of the iteration found its front younger than the packet delay. In
  particular, if every reading is at least the delay after the stamp of every batch it could see, the
  buffer is empty.
\<close>

lemma forwarder_iteration_progress:
  assumes "fe_recv env \<noteq> RecvDisconnected" "\<forall>q. fst (try_send ops (be_sender sh) q) \<noteq> SendClosed"
    and "\<forall>i. fe_relayer_alive env i"
  shows "\<exists>sh' t'. forwarder_iteration ops cfg tid env sh t = Ok (sh', t') \<and>
    (buffered_packet_batches t' \<noteq> [] \<longrightarrow>
       (\<exists>j. elapsed (fe_clock env j) (rpb_stamp (hd (buffered_packet_batches t'))) < packet_delay cfg)) \<and>
    ((\<forall>j. \<forall>b\<in>set (buffered_packet_batches t @ received_batches tid [(tid, env)]).
        packet_delay cfg \<le> elapsed (fe_clock env j) (rpb_stamp b)) \<longrightarrow> buffered_packet_batches t' = [])"
proof -
  obtain sh' t' where it: "forwarder_iteration ops cfg tid env sh t = Ok (sh', t')"
    using forwarder_iteration_total [OF assms] by blast
  note fifo = forwarder_iteration_fifo [OF it]
  have "buffered_packet_batches t' = []"
    if due: "\<forall>j. \<forall>b\<in>set (buffered_packet_batches t @ received_batches tid [(tid, env)]).
        packet_delay cfg \<le> elapsed (fe_clock env j) (rpb_stamp b)"
  proof (rule ccontr)
    assume ne: "buffered_packet_batches t' \<noteq> []"
    have "suffix (buffered_packet_batches t') (buffered_packet_batches t @ received_batches tid [(tid, env)])"
      by (rule forwarder_iteration_buffer [OF it])
    then have "hd (buffered_packet_batches t') \<in> set (buffered_packet_batches t @ received_batches tid [(tid, env)])"
      using ne by (meson hd_in_set set_mono_suffix subsetD)
    with due fifo(4) [OF ne] show False by (meson not_le)
  qed
  with it fifo(4) show ?thesis by blast
qed

lemma forwarder_iteration_progress_example:
  "\<exists>sh' t'. forwarder_iteration chan_ops demo_fcfg 0 (demo_fenv RecvTimeout 60000000)
      \<lparr>be_sender = chan_new 1, delayed_out = []\<rparr>
      \<lparr>buffered_packet_batches = [\<lparr>rpb_stamp = 0, rpb_batch = []\<rparr>],
       fwd_metrics = forwarder_metrics_new 0 0 0, last_metrics_upload = 0, fwd_reports = []\<rparr>
    = Ok (sh', t') \<and> buffered_packet_batches t' = []"
proof -
  have h: "fe_recv (demo_fenv RecvTimeout 60000000) \<noteq> RecvDisconnected"
    "\<forall>q. fst (try_send chan_ops (be_sender \<lparr>be_sender = chan_new 1, delayed_out = []\<rparr>) q) \<noteq> SendClosed"
    "\<forall>i. fe_relayer_alive (demo_fenv RecvTimeout 60000000) i"
    by (simp_all add: forwarder_eval)
  from forwarder_iteration_progress [OF h, of demo_fcfg 0
      "\<lparr>buffered_packet_batches = [\<lparr>rpb_stamp = 0, rpb_batch = []\<rparr>],
        fwd_metrics = forwarder_metrics_new 0 0 0, last_metrics_upload = 0, fwd_reports = []\<rparr>"]
  show ?thesis by (fastforce simp: demo_fenv_def demo_fcfg_def packet_delay_def from_millis_def elapsed_def)
qed

text \<open>
  C28: the block engine side. What the channel to the block engine handler accepts during a run is a
  subsequence of the batches received by all threads, in order of receipt, each stamped with the wall
  clock and with the packet delay as its expiration; with the mempool disabled nothing is offered.
  In every metrics interval of every thread the packets counted as forwarded or dropped add up to
  the packets received (in \<open>u64\<close> arithmetic), or to none when the mempool is disabled.
\<close>

theorem forwarder_block_engine_offers:
  assumes "mpsc_sender ops accepted"
    and "run_loop (forwarder_step ops cfg) (start_forward_and_delay_thread ops be n caps starts) es = Ok f"
  shows "(\<exists>new. accepted (be_sender (fwd_shared f)) = accepted be @ new \<and>
      subseq new (be_offers cfg (unat n) es) \<and> (disable_mempool cfg \<longrightarrow> new = [])) \<and>
    (\<forall>t\<in>set (fwd_threads f). \<forall>m\<in>insert (fwd_metrics t) (set (fwd_reports t)).
      num_be_packets_forwarded m + num_be_packets_dropped m
        = (if disable_mempool cfg then 0 else num_packets_received m))"
proof -
  let ?f = "start_forward_and_delay_thread ops be n caps starts"
  have len: "length (fwd_threads ?f) = unat n" and be: "be_sender (fwd_shared ?f) = be"
    by (simp_all add: start_forward_and_delay_thread_def)
  obtain new where new: "accepted (be_sender (fwd_shared f)) = accepted be @ new"
      "subseq new (be_offers cfg (unat n) es)"
    using forwarder_run_offers [OF assms len] be by auto
  have "new = []" if "disable_mempool cfg"
    using new(2) be_offers_disabled [OF that, of "unat n" es] by simp
  moreover have "forwarder_inv cfg f"
    by (rule forwarder_loop.run_inv [OF forwarder_inv_init _ assms(2)]) (simp add: list_all_iff)
  ultimately show ?thesis
    using new by (auto simp: forwarder_inv_def balanced_def list_all_iff)
qed

theorem forwarder_block_engine_offers_witness:
  "\<exists>f new. run_loop (forwarder_step chan_ops demo_fcfg)
      (start_forward_and_delay_thread chan_ops (chan_new 1) 2 (\<lambda>_. (100000, None)) (\<lambda>_. 0)) demo_fevents = Ok f \<and>
    ch_log (be_sender (fwd_shared f)) = ch_log (chan_new 1) @ new \<and>
    subseq new (be_offers demo_fcfg 2 demo_fevents)"
proof -
  obtain f where f: "run_loop (forwarder_step chan_ops demo_fcfg)
      (start_forward_and_delay_thread chan_ops (chan_new 1) 2 (\<lambda>_. (100000, None)) (\<lambda>_. 0)) demo_fevents = Ok f"
    by (rule demo_forwarder_Ok)
  from forwarder_block_engine_offers [OF bounded_chan.mpsc_sender_axioms f] f show ?thesis
    by auto
qed

end
