(* ===== verification/Load_Balancer.thy ===== *)
theory Load_Balancer
  imports Relayer_Prelude
begin

text \<open>
  The RPC load balancer of \<open>rpc/src/load_balancer.rs\<close>. One subscription thread per server stores the
  slots its server reports, raises the shared highest slot with an atomic \<open>fetch_max\<close>, and, when it
  raised it, sends the slot on a bounded channel. The threads run concurrently: the state machine
  below lets any thread take its next atomic step at any time. The queries pick the server that is
  furthest ahead.
\<close>

section \<open>Queries\<close>

text \<open>\<open>Iterator::max_by\<close>: of several maximal elements the last one.\<close>

fun max_by_slot :: "string \<times> slot \<Rightarrow> (string \<times> slot) list \<Rightarrow> string \<times> slot" where
  "max_by_slot x [] = x"
| "max_by_slot x (y # ys) = max_by_slot (if snd y < snd x then x else y) ys"

definition get_highest_slot :: "(string, slot) hmap \<Rightarrow> (string \<times> slot, unit) result" where
  "get_highest_slot server_slots =
     (case server_slots of [] \<Rightarrow> Panic | x # xs \<Rightarrow> Ok (max_by_slot x xs))"

definition rpc_client :: "(string, slot) hmap \<Rightarrow> (string, 'c) hmap \<Rightarrow> ('c, unit) result" where
  "rpc_client server_slots clients =
     and_then (get_highest_slot server_slots) (\<lambda>(server, _). unwrap (hm_get clients server))"

section \<open>The subscription threads\<close>

definition SLOT_QUEUE_CAPACITY :: nat where
  "SLOT_QUEUE_CAPACITY = 100"

definition DISCONNECT_WEBSOCKET_TIMEOUT :: duration where
  "DISCONNECT_WEBSOCKET_TIMEOUT = from_secs 30"

text \<open>
  Where a thread is: at the test of its outer loop, subscribing, at the test of its inner loop, in
  \<open>recv_timeout\<close>, between storing a slot and \<open>fetch_max\<close>, about to send, sleeping, finished. The
  instant is \<open>last_slot_update\<close>.
\<close>

datatype sub_pc =
    OuterLoop
  | Subscribing instant
  | InnerLoop instant
  | Receiving instant
  | Updating instant slot
  | Announcing instant slot
  | Sleeping
  | Finished

record lb_state =
  server_to_slot :: "(string, slot) hmap"
  highest_seen :: u64
  slot_queue :: "slot list"
  slots_sent :: "slot list"
  receiver_alive :: bool
  exit_flag :: bool
  sub_threads :: "(string \<times> sub_pc) list"

definition load_balancer_new :: "(string \<times> string) list \<Rightarrow> lb_state" where
  "load_balancer_new servers =
     \<lparr>server_to_slot = fold (\<lambda>(_, ws). hm_insert ws 0) servers [],
      highest_seen = 0, slot_queue = [], slots_sent = [], receiver_alive = True, exit_flag = False,
      sub_threads = map (\<lambda>(_, ws). (ws, OuterLoop)) servers\<rparr>"

text \<open>\<open>new_client\<close> stands for \<open>RpcClient::new_with_timeout_and_commitment\<close>.\<close>

definition load_balancer_clients :: "(string \<Rightarrow> 'c) \<Rightarrow> (string \<times> string) list \<Rightarrow> (string, 'c) hmap" where
  "load_balancer_clients new_client servers =
     fold (\<lambda>(rpc_url, ws). hm_insert ws (new_client rpc_url)) servers []"

definition goto :: "lb_state \<Rightarrow> nat \<Rightarrow> sub_pc \<Rightarrow> lb_state" where
  "goto s i pc = s\<lparr>sub_threads := (sub_threads s)[i := (fst (sub_threads s ! i), pc)]\<rparr>"

definition at_pc :: "lb_state \<Rightarrow> nat \<Rightarrow> sub_pc \<Rightarrow> bool" where
  "at_pc s i pc \<longleftrightarrow> i < length (sub_threads s) \<and> snd (sub_threads s ! i) = pc"

inductive lb_step :: "lb_state \<Rightarrow> lb_state \<Rightarrow> bool" where
  outer: "at_pc s i OuterLoop \<Longrightarrow> \<not> exit_flag s \<Longrightarrow> lb_step s (goto s i (Subscribing now))"
| finish: "at_pc s i OuterLoop \<Longrightarrow> exit_flag s \<Longrightarrow> lb_step s (goto s i Finished)"
| subscribe_ok: "at_pc s i (Subscribing t) \<Longrightarrow> lb_step s (goto s i (InnerLoop t))"
| subscribe_err: "at_pc s i (Subscribing t) \<Longrightarrow> lb_step s (goto s i Sleeping)"
| inner: "at_pc s i (InnerLoop t) \<Longrightarrow> \<not> exit_flag s \<Longrightarrow> lb_step s (goto s i (Receiving t))"
| inner_exit: "at_pc s i (InnerLoop t) \<Longrightarrow> exit_flag s \<Longrightarrow> lb_step s (goto s i Sleeping)"
| recv_slot: "at_pc s i (Receiving t) \<Longrightarrow>
    lb_step s ((goto s i (Updating now sl))
      \<lparr>server_to_slot := hm_insert (fst (sub_threads s ! i)) sl (server_to_slot s)\<rparr>)"
| recv_idle: "at_pc s i (Receiving t) \<Longrightarrow> elapsed now t < DISCONNECT_WEBSOCKET_TIMEOUT \<Longrightarrow>
    lb_step s (goto s i (InnerLoop t))"
| recv_stuck: "at_pc s i (Receiving t) \<Longrightarrow> DISCONNECT_WEBSOCKET_TIMEOUT \<le> elapsed now t \<Longrightarrow>
    lb_step s (goto s i Sleeping)"
| recv_disconnected: "at_pc s i (Receiving t) \<Longrightarrow> lb_step s (goto s i Sleeping)"
| fetch_max_new: "at_pc s i (Updating t sl) \<Longrightarrow> highest_seen s < sl \<Longrightarrow>
    lb_step s ((goto s i (Announcing t sl))\<lparr>highest_seen := sl\<rparr>)"
| fetch_max_old: "at_pc s i (Updating t sl) \<Longrightarrow> sl \<le> highest_seen s \<Longrightarrow>
    lb_step s (goto s i (InnerLoop t))"
| send: "at_pc s i (Announcing t sl) \<Longrightarrow> receiver_alive s \<Longrightarrow>
    length (slot_queue s) < SLOT_QUEUE_CAPACITY \<Longrightarrow>
    lb_step s ((goto s i (InnerLoop t))
      \<lparr>slot_queue := slot_queue s @ [sl], slots_sent := slots_sent s @ [sl]\<rparr>)"
| send_error: "at_pc s i (Announcing t sl) \<Longrightarrow> \<not> receiver_alive s \<Longrightarrow> lb_step s (goto s i Sleeping)"
| wake: "at_pc s i Sleeping \<Longrightarrow> lb_step s (goto s i OuterLoop)"
| consume: "slot_queue s = sl # rest \<Longrightarrow> lb_step s (s\<lparr>slot_queue := rest\<rparr>)"
| receiver_dropped: "lb_step s (s\<lparr>receiver_alive := False\<rparr>)"
| set_exit: "lb_step s (s\<lparr>exit_flag := True\<rparr>)"

inductive_cases lb_stepE: "lb_step s s'"

inductive lb_reachable :: "(string \<times> string) list \<Rightarrow> lb_state \<Rightarrow> bool" for servers where
  init: "lb_reachable servers (load_balancer_new servers)"
| step: "lb_reachable servers s \<Longrightarrow> lb_step s s' \<Longrightarrow> lb_reachable servers s'"

section \<open>Lemmas on the queries\<close>

lemma max_by_slot_in: "max_by_slot x xs \<in> insert x (set xs)"
proof (induction x xs rule: max_by_slot.induct)
  case (2 x y ys)
  then show ?case by (cases "snd y < snd x") auto
qed simp

lemma max_by_slot_max: "e \<in> insert x (set xs) \<Longrightarrow> snd e \<le> snd (max_by_slot x xs)"
proof (induction x xs arbitrary: e rule: max_by_slot.induct)
  case (1 x)
  then show ?case by simp
next
  case (2 x y ys)
  show ?case
  proof (cases "snd y < snd x")
    case True
    from "2.IH" [of x] "2.IH" [of e] "2.prems" True show ?thesis by auto
  next
    case False
    from "2.IH" [of y] "2.IH" [of e] "2.prems" False show ?thesis by auto
  qed
qed

lemma get_highest_slot_Ok:
  assumes "m \<noteq> []"
  obtains server sl where "get_highest_slot m = Ok (server, sl)" "(server, sl) \<in> set m"
    "\<forall>(_, sl')\<in>set m. sl' \<le> sl"
proof -
  obtain x xs where m: "m = x # xs" using assms by (cases m) auto
  obtain server sl where mx: "max_by_slot x xs = (server, sl)" by (cases "max_by_slot x xs")
  have "(server, sl) \<in> set m" using max_by_slot_in [of x xs] m mx by simp
  moreover have "snd e \<le> sl" if "e \<in> set m" for e using max_by_slot_max [of e x xs] m mx that by simp
  then have "\<forall>(_, sl')\<in>set m. sl' \<le> sl" by auto
  ultimately show ?thesis using that m mx by (simp add: get_highest_slot_def)
qed

lemma fold_insert_servers:
  "hm_inv m \<Longrightarrow> hm_inv (fold (\<lambda>p. hm_insert (snd p) (f p)) servers m) \<and>
     dom (hm_get (fold (\<lambda>p. hm_insert (snd p) (f p)) servers m)) = dom (hm_get m) \<union> snd ` set servers"
  by (induction servers arbitrary: m) (auto simp: hm.inv_insert)

lemma load_balancer_clients_get:
  assumes "ws \<in> snd ` set servers"
  shows "\<exists>rpc_url. (rpc_url, ws) \<in> set servers \<and>
    hm_get (load_balancer_clients new_client servers) ws = Some (new_client rpc_url)"
  using assms
proof (induction servers rule: rev_induct)
  case (snoc p servers)
  obtain u w where p: "p = (u, w)" by (cases p)
  have "hm_get (load_balancer_clients new_client (servers @ [p])) ws =
      (if ws = w then Some (new_client u) else hm_get (load_balancer_clients new_client servers) ws)"
    by (simp add: load_balancer_clients_def p)
  with snoc p show ?case by (cases "ws = w") auto
qed simp

section \<open>Invariants of the threads\<close>

definition pending_of :: "sub_pc \<Rightarrow> slot multiset" where
  "pending_of pc = (case pc of Announcing _ sl \<Rightarrow> {#sl#} | _ \<Rightarrow> {#})"

lemma pending_of_simps [simp]:
  "pending_of (Announcing t sl) = {#sl#}" "pending_of OuterLoop = {#}" "pending_of (Subscribing t) = {#}"
  "pending_of (InnerLoop t) = {#}" "pending_of (Receiving t) = {#}" "pending_of (Updating t sl) = {#}"
  "pending_of Sleeping = {#}" "pending_of Finished = {#}"
  by (simp_all add: pending_of_def)

definition pendings :: "lb_state \<Rightarrow> slot multiset" where
  "pendings s = sum_list (map (pending_of \<circ> snd) (sub_threads s))"

text \<open>The slots sent so far and those a thread is about to send.\<close>

definition announced :: "lb_state \<Rightarrow> slot multiset" where
  "announced s = mset (slots_sent s) + pendings s"

lemma in_pendings:
  assumes "sl \<in># pendings s"
  shows "\<exists>i t. at_pc s i (Announcing t sl)"
proof -
  have "\<exists>pc\<in>set (map snd ps). sl \<in># pending_of pc" if "sl \<in># sum_list (map (pending_of \<circ> snd) ps)" for ps
    using that by (induction ps) auto
  with assms obtain pc where "pc \<in> set (map snd (sub_threads s))" "sl \<in># pending_of pc"
    unfolding pendings_def by blast
  then obtain i t where "i < length (sub_threads s)" "snd (sub_threads s ! i) = Announcing t sl"
    by (auto simp: in_set_conv_nth pending_of_def split: sub_pc.splits if_splits)
  then show ?thesis by (auto simp: at_pc_def)
qed

lemma sum_list_list_update:
  "i < length xs \<Longrightarrow> sum_list (xs[i := (v :: 'a multiset)]) + xs ! i = sum_list xs + v"
proof (induction xs arbitrary: i)
  case (Cons x xs)
  then show ?case by (cases i) (auto simp: ac_simps)
qed simp

lemma pendings_goto:
  assumes "at_pc s i pc"
  shows "pendings (goto s i pc') + pending_of pc = pendings s + pending_of pc'"
proof -
  from assms have i: "i < length (sub_threads s)" "snd (sub_threads s ! i) = pc"
    by (auto simp: at_pc_def)
  show ?thesis
    using sum_list_list_update [of i "map (pending_of \<circ> snd) (sub_threads s)" "pending_of pc'"] i
    by (simp add: pendings_def goto_def map_update)
qed

lemma pendings_updates [simp]:
  "pendings (s\<lparr>server_to_slot := a\<rparr>) = pendings s" "pendings (s\<lparr>highest_seen := b\<rparr>) = pendings s"
  "pendings (s\<lparr>slot_queue := q\<rparr>) = pendings s" "pendings (s\<lparr>slots_sent := q\<rparr>) = pendings s"
  "pendings (s\<lparr>receiver_alive := d\<rparr>) = pendings s" "pendings (s\<lparr>exit_flag := d\<rparr>) = pendings s"
  by (simp_all add: pendings_def)

lemma goto_simps [simp]:
  "server_to_slot (goto s i pc) = server_to_slot s" "highest_seen (goto s i pc) = highest_seen s"
  "slot_queue (goto s i pc) = slot_queue s" "slots_sent (goto s i pc) = slots_sent s"
  "receiver_alive (goto s i pc) = receiver_alive s" "exit_flag (goto s i pc) = exit_flag s"
  "length (sub_threads (goto s i pc)) = length (sub_threads s)"
  by (simp_all add: goto_def)

lemma map_fst_goto [simp]: "map fst (sub_threads (goto s i pc)) = map fst (sub_threads s)"
proof (cases "i < length (sub_threads s)")
  case True
  then have "fst (sub_threads s ! i) = map fst (sub_threads s) ! i" by simp
  with True show ?thesis unfolding goto_def by (simp add: map_update del: nth_map)
qed (simp add: goto_def list_update_beyond)

lemma goto_keeps_pending:
  assumes "at_pc s i pc" "pending_of pc = {#}" "pending_of pc' = {#}"
  shows "pendings (goto s i pc') = pendings s"
  using pendings_goto [OF assms(1), of pc'] assms(2,3) by simp

text \<open>How one step changes the announced slots.\<close>

lemma lb_step_announced:
  assumes "lb_step s s'"
  shows "announced s' = announced s \<and> highest_seen s' = highest_seen s
    \<or> (\<exists>sl. highest_seen s < sl \<and> highest_seen s' = sl \<and> announced s' = add_mset sl (announced s))
    \<or> (\<not> receiver_alive s \<and> announced s' \<subseteq># announced s \<and> highest_seen s' = highest_seen s)"
  using assms
proof (cases rule: lb_step.cases)
  case (fetch_max_new i t sl)
  then show ?thesis using pendings_goto [of s i "Updating t sl" "Announcing t sl"]
    by (auto simp: announced_def)
next
  case (send i t sl)
  then show ?thesis using pendings_goto [of s i "Announcing t sl" "InnerLoop t"]
    by (auto simp: announced_def)
next
  case (send_error i t sl)
  then have "add_mset sl (pendings s') = pendings s"
    using pendings_goto [of s i "Announcing t sl" Sleeping] by simp
  then have "pendings s' \<subseteq># pendings s" 
    by (metis multi_psub_of_add_self subset_mset.less_imp_le)
  with send_error show ?thesis by (simp add: announced_def)
qed (simp_all add: announced_def goto_keeps_pending)

lemma lb_step_alive: "lb_step s s' \<Longrightarrow> receiver_alive s' \<Longrightarrow> receiver_alive s"
  by (erule lb_stepE) auto

definition lb_inv :: "lb_state \<Rightarrow> bool" where
  "lb_inv s \<longleftrightarrow>
     (\<forall>sl\<in>#announced s. sl \<le> highest_seen s) \<and> (\<forall>sl. count (announced s) sl \<le> 1) \<and>
     (receiver_alive s \<longrightarrow> highest_seen s = 0 \<or> highest_seen s \<in># announced s)"

lemma lb_inv_step:
  assumes "lb_inv s" "lb_step s s'"
  shows "lb_inv s'"
  using lb_step_announced [OF assms(2)]
proof (elim disjE conjE exE)
  assume "announced s' = announced s" "highest_seen s' = highest_seen s"
  with assms(1) lb_step_alive [OF assms(2)] show ?thesis by (auto simp: lb_inv_def)
next
  fix sl assume sl: "highest_seen s < sl" "highest_seen s' = sl" "announced s' = add_mset sl (announced s)"
  then have "sl \<notin># announced s" using assms(1) by (auto simp: lb_inv_def)
  then have "count (announced s') x \<le> 1" for x
    using assms(1) sl(3) by (auto simp: lb_inv_def not_in_iff)
  with sl assms(1) show ?thesis by (auto simp: lb_inv_def)
next
  assume d: "\<not> receiver_alive s" "announced s' \<subseteq># announced s" "highest_seen s' = highest_seen s"
  have "\<not> receiver_alive s'" using d(1) lb_step_alive [OF assms(2)] by blast
  moreover have "count (announced s') x \<le> 1" for x
    using assms(1) mset_subset_eq_count [OF d(2), of x] by (auto simp: lb_inv_def intro: order_trans)
  ultimately show ?thesis using assms(1) d(2,3) by (auto simp: lb_inv_def dest: mset_subset_eqD)
qed

lemma announced_new: "announced (load_balancer_new servers) = {#}"
  by (simp add: announced_def pendings_def load_balancer_new_def comp_def case_prod_unfold)

lemma lb_reachable_inv: "lb_reachable servers s \<Longrightarrow> lb_inv s"
proof (induction rule: lb_reachable.induct)
  case init
  show ?case unfolding lb_inv_def announced_new by (simp add: load_balancer_new_def)
qed (rule lb_inv_step)

subsection \<open>The servers\<close>

lemma lb_step_servers:
  assumes "lb_step s s'" "hm_inv (server_to_slot s)"
    "fst ` set (sub_threads s) \<subseteq> dom (hm_get (server_to_slot s))"
  shows "hm_inv (server_to_slot s')" "dom (hm_get (server_to_slot s')) = dom (hm_get (server_to_slot s))"
    "map fst (sub_threads s') = map fst (sub_threads s)"
proof -
  have k: "insert (fst (sub_threads s ! i)) (dom (hm_get (server_to_slot s))) = dom (hm_get (server_to_slot s))"
    if "at_pc s i pc" for i pc
    using that assms(3) by (intro insert_absorb) (auto simp: at_pc_def subset_iff)
  show "hm_inv (server_to_slot s')"
    using assms(1) by (cases rule: lb_step.cases) (simp_all add: hm.inv_insert assms(2))
  show "dom (hm_get (server_to_slot s')) = dom (hm_get (server_to_slot s))"
    using assms(1) by (cases rule: lb_step.cases) (simp_all add: k)
  show "map fst (sub_threads s') = map fst (sub_threads s)"
    using assms(1) by (cases rule: lb_step.cases) simp_all
qed

lemma lb_reachable_servers:
  "lb_reachable servers s \<Longrightarrow> hm_inv (server_to_slot s) \<and>
     dom (hm_get (server_to_slot s)) = snd ` set servers \<and>
     map fst (sub_threads s) = map snd servers"
proof (induction rule: lb_reachable.induct)
  case init
  show ?case
    using fold_insert_servers [of "[]" "\<lambda>_. 0" servers]
    by (simp add: load_balancer_new_def hm_inv_def case_prod_unfold dom_def)
next
  case (step s s')
  have "fst ` set (sub_threads s) \<subseteq> dom (hm_get (server_to_slot s))"
    using step.IH by (metis image_set order_refl)
  with lb_step_servers [OF step.hyps(2)] step.IH show ?case by simp
qed

subsection \<open>One server\<close>

text \<open>With a single thread the slots go out in increasing order.\<close>

definition ordered :: "lb_state \<Rightarrow> bool" where
  "ordered s \<longleftrightarrow> sorted_wrt (<) (slots_sent s) \<and>
     (\<forall>x\<in>set (slots_sent s). x \<le> highest_seen s \<and> (\<forall>p\<in>#pendings s. x < p))"

lemma single_pending:
  assumes "length (sub_threads s) = 1" "at_pc s i pc"
  shows "pendings s = pending_of pc" "pendings (goto s i pc') = pending_of pc'"
proof -
  obtain p where "sub_threads s = [p]" using assms(1) by (cases "sub_threads s") auto
  with assms(2) show "pendings s = pending_of pc" "pendings (goto s i pc') = pending_of pc'"
    by (auto simp: pendings_def at_pc_def goto_def)
qed

lemma lb_step_ordered:
  assumes "lb_step s s'" "length (sub_threads s) = 1" "ordered s" "lb_inv s"
  shows "ordered s'"
  using assms(1)
proof (cases rule: lb_step.cases)
  case (fetch_max_new i t sl)
  with assms(3) single_pending [OF assms(2) fetch_max_new(2)] show ?thesis
    by (auto simp: ordered_def)
next
  case (send i t sl)
  have "sl \<in># announced s"
    using single_pending(1) [OF assms(2) send(2)] by (simp add: announced_def)
  then have "sl \<le> highest_seen s" using assms(4) by (auto simp: lb_inv_def)
  with send assms(3) single_pending [OF assms(2) send(2)] show ?thesis
    by (auto simp: ordered_def sorted_wrt_append)
qed (use assms(3) single_pending(2) [OF assms(2)] in \<open>simp_all add: ordered_def\<close>)

lemma lb_reachable_ordered:
  assumes "lb_reachable [server] s"
  shows "ordered s"
  using assms
proof (induction rule: lb_reachable.induct)
  case init
  then show ?case by (simp add: ordered_def load_balancer_new_def)
next
  case (step s s')
  have "length (sub_threads s) = 1"
    using lb_reachable_servers [OF step.hyps(1)] arg_cong [of _ _ length] by fastforce
  with lb_step_ordered [OF step.hyps(2) _ step.IH lb_reachable_inv [OF step.hyps(1)]] show ?case by simp
qed

subsection \<open>Progress of a thread\<close>

lemma at_pc_goto: "i < length (sub_threads s) \<Longrightarrow> at_pc (goto s i pc) j pc' \<longleftrightarrow>
    (if j = i then pc' = pc else at_pc s j pc')"
  by (auto simp: at_pc_def goto_def)

lemma at_pc_updates [simp]:
  "at_pc (s\<lparr>server_to_slot := a\<rparr>) j pc = at_pc s j pc" "at_pc (s\<lparr>highest_seen := b\<rparr>) j pc = at_pc s j pc"
  "at_pc (s\<lparr>slot_queue := q\<rparr>) j pc = at_pc s j pc" "at_pc (s\<lparr>slots_sent := q\<rparr>) j pc = at_pc s j pc"
  by (simp_all add: at_pc_def)

text \<open>A thread whose server reports a new highest slot gets ready to send it.\<close>

lemma reach_announcing:
  assumes "lb_reachable servers s" "at_pc s i OuterLoop" "\<not> exit_flag s" "highest_seen s < sl"
  shows "\<exists>s'. lb_reachable servers s' \<and> at_pc s' i (Announcing now sl) \<and> highest_seen s' = sl \<and>
    slot_queue s' = slot_queue s \<and> slots_sent s' = slots_sent s \<and>
    receiver_alive s' = receiver_alive s \<and> \<not> exit_flag s' \<and>
    (\<forall>j pc. j \<noteq> i \<longrightarrow> at_pc s' j pc = at_pc s j pc)"
proof -
  have i: "i < length (sub_threads s)" using assms(2) by (simp add: at_pc_def)
  define s1 where "s1 = goto s i (Subscribing now)"
  define s2 where "s2 = goto s1 i (InnerLoop now)"
  define s3 where "s3 = goto s2 i (Receiving now)"
  define s4 where "s4 = (goto s3 i (Updating now sl))
    \<lparr>server_to_slot := hm_insert (fst (sub_threads s3 ! i)) sl (server_to_slot s3)\<rparr>"
  define s5 where "s5 = (goto s4 i (Announcing now sl))\<lparr>highest_seen := sl\<rparr>"
  note defs = s1_def s2_def s3_def s4_def s5_def
  have len: "i < length (sub_threads s1)" "i < length (sub_threads s2)" "i < length (sub_threads s3)"
    "i < length (sub_threads s4)" using i by (simp_all add: defs)
  have r1: "lb_reachable servers s1"
    unfolding s1_def by (rule lb_reachable.step [OF assms(1) lb_step.outer]) (use assms in simp_all)
  have r2: "lb_reachable servers s2"
    unfolding s2_def by (rule lb_reachable.step [OF r1 lb_step.subscribe_ok])
      (use i in \<open>simp add: s1_def at_pc_goto\<close>)
  have r3: "lb_reachable servers s3"
    unfolding s3_def by (rule lb_reachable.step [OF r2 lb_step.inner])
      (use len assms(3) in \<open>simp_all add: s2_def s1_def at_pc_goto\<close>)
  have r4: "lb_reachable servers s4"
    unfolding s4_def by (rule lb_reachable.step [OF r3 lb_step.recv_slot])
      (use len in \<open>simp add: s3_def at_pc_goto\<close>)
  have r5: "lb_reachable servers s5"
    unfolding s5_def by (rule lb_reachable.step [OF r4 lb_step.fetch_max_new])
      (use len assms(4) in \<open>simp_all add: s4_def s3_def s2_def s1_def at_pc_goto\<close>)
  have "at_pc s5 i (Announcing now sl)" "\<forall>j pc. j \<noteq> i \<longrightarrow> at_pc s5 j pc = at_pc s j pc"
    using i len by (simp_all add: defs at_pc_goto)
  with r5 assms(3) show ?thesis by (intro exI [of _ s5]) (simp add: defs)
qed

lemma reach_sent:
  assumes "lb_reachable servers s" "at_pc s i (Announcing t sl)" "receiver_alive s"
    "length (slot_queue s) < SLOT_QUEUE_CAPACITY"
  shows "\<exists>s'. lb_reachable servers s' \<and> at_pc s' i (InnerLoop t) \<and> highest_seen s' = highest_seen s \<and>
    slot_queue s' = slot_queue s @ [sl] \<and> slots_sent s' = slots_sent s @ [sl] \<and>
    receiver_alive s' \<and> exit_flag s' = exit_flag s \<and>
    (\<forall>j pc. j \<noteq> i \<longrightarrow> at_pc s' j pc = at_pc s j pc)"
proof -
  have i: "i < length (sub_threads s)" using assms(2) by (simp add: at_pc_def)
  from lb_reachable.step [OF assms(1) lb_step.send [OF assms(2-4)]] assms(3) i show ?thesis
    by (intro exI [of _ "(goto s i (InnerLoop t))
      \<lparr>slot_queue := slot_queue s @ [sl], slots_sent := slots_sent s @ [sl]\<rparr>"])
      (simp add: at_pc_goto)
qed

end
