(* ===== verification/Load_Balancer_Theorems.thy ===== *)
theory Load_Balancer_Theorems
  imports Load_Balancer
begin

text \<open>The statements about the load balancer.\<close>

text \<open>
  C29: whatever the interleaving of the subscription threads, no slot is sent twice, no slot sent is
  above the highest slot seen, and, while the receiver is there, the highest slot seen has been sent
  or is about to be sent by some thread: a new maximum is never forgotten.
\<close>

theorem lb_slots_sent_once:
  assumes "lb_reachable servers s"
  shows "distinct (slots_sent s) \<and> (\<forall>sl\<in>set (slots_sent s). sl \<le> highest_seen s) \<and>
    (receiver_alive s \<and> highest_seen s \<noteq> 0 \<longrightarrow>
       highest_seen s \<in> set (slots_sent s) \<or> (\<exists>i t. at_pc s i (Announcing t (highest_seen s))))"
proof -
  from lb_reachable_inv [OF assms] have inv: "\<And>sl. sl \<in># announced s \<Longrightarrow> sl \<le> highest_seen s"
    "\<And>sl. count (announced s) sl \<le> 1"
    "receiver_alive s \<Longrightarrow> highest_seen s = 0 \<or> highest_seen s \<in># announced s"
    by (auto simp: lb_inv_def)
  have "count (mset (slots_sent s)) sl \<le> 1" for sl
    using inv(2) [of sl] by (simp add: announced_def)
  then have "distinct (slots_sent s)"
    by (metis distinct_count_atmost_1 count_mset_0_iff le_zero_eq less_one linorder_le_less_linear
        nat_less_le)
  moreover have "\<forall>sl\<in>set (slots_sent s). sl \<le> highest_seen s"
    using inv(1) by (simp add: announced_def)
  moreover have "\<exists>i t. at_pc s i (Announcing t sl)" if "sl \<in># pendings s" for sl
    using that by (rule in_pendings)
  ultimately show ?thesis using inv(3) by (auto simp: announced_def)
qed

definition demo_servers :: "(string \<times> string) list" where
  "demo_servers = [(''http://a'', ''ws://a''), (''http://b'', ''ws://b'')]"

text \<open>A run in which the second server's slot 6 overtakes the first server's slot 5.\<close>

lemma demo_reordering:
  "\<exists>s. lb_reachable demo_servers s \<and> slots_sent s = [6, 5] \<and> receiver_alive s \<and> highest_seen s = 6"
proof -
  let ?s0 = "load_balancer_new demo_servers"
  have a: "at_pc ?s0 0 OuterLoop" "at_pc ?s0 1 OuterLoop"
    by (simp_all add: at_pc_def load_balancer_new_def demo_servers_def)
  have z: "\<not> exit_flag ?s0" "highest_seen ?s0 < 5" "slot_queue ?s0 = []" "slots_sent ?s0 = []"
    "receiver_alive ?s0"
    by (simp_all add: load_balancer_new_def)
  obtain s1 where 1: "lb_reachable demo_servers s1" "at_pc s1 0 (Announcing 0 5)" "highest_seen s1 = 5"
    "slot_queue s1 = []" "slots_sent s1 = []" "receiver_alive s1" "\<not> exit_flag s1" "at_pc s1 1 OuterLoop"
    using reach_announcing [OF lb_reachable.init a(1) z(1,2), of 0] a(2) z by auto
  obtain s2 where 2: "lb_reachable demo_servers s2" "at_pc s2 1 (Announcing 0 6)" "highest_seen s2 = 6"
    "slot_queue s2 = []" "slots_sent s2 = []" "receiver_alive s2" "\<not> exit_flag s2"
    "at_pc s2 0 (Announcing 0 5)"
    using reach_announcing [OF 1(1,8,7), of 6 0] 1 by auto
  obtain s3 where 3: "lb_reachable demo_servers s3" "highest_seen s3 = 6"
    "slot_queue s3 = [6]" "slots_sent s3 = [6]" "receiver_alive s3" "at_pc s3 0 (Announcing 0 5)"
    using reach_sent [OF 2(1,2,6)] 2 by (auto simp: SLOT_QUEUE_CAPACITY_def)
  obtain s4 where "lb_reachable demo_servers s4" "highest_seen s4 = 6" "slots_sent s4 = [6, 5]"
    "receiver_alive s4"
    using reach_sent [OF 3(1,6,5)] 3 by (auto simp: SLOT_QUEUE_CAPACITY_def)
  then show ?thesis by blast
qed

theorem lb_slots_sent_once_witness:
  "\<exists>s. lb_reachable demo_servers s \<and> slots_sent s = [6, 5] \<and> distinct (slots_sent s) \<and>
     (\<forall>sl\<in>set (slots_sent s). sl \<le> highest_seen s)"
  using demo_reordering lb_slots_sent_once [of demo_servers] by blast

text \<open>
  C30: with one server the slots are sent in strictly increasing order. With two servers they need
  not be: raising the maximum and sending are separate steps, so a lower slot can follow a higher
  one.
\<close>

theorem lb_order_of_slots:
  "(\<forall>server s. lb_reachable [server] s \<longrightarrow> sorted_wrt (<) (slots_sent s)) \<and>
   (\<exists>servers s. length servers = 2 \<and> lb_reachable servers s \<and> \<not> sorted (slots_sent s))"
proof
  show "\<forall>server s. lb_reachable [server] s \<longrightarrow> sorted_wrt (<) (slots_sent s)"
    using lb_reachable_ordered by (auto simp: ordered_def)
  obtain s where "lb_reachable demo_servers s" "slots_sent s = [6, 5]"
    using demo_reordering by blast
  then show "\<exists>servers s. length servers = 2 \<and> lb_reachable servers s \<and> \<not> sorted (slots_sent s)"
    by (intro exI [of _ demo_servers] exI [of _ s]) (simp add: demo_servers_def)
qed

theorem lb_order_of_slots_witness:
  "sorted_wrt (<) (slots_sent (load_balancer_new [(''http://a'', ''ws://a'')]))"
  using lb_order_of_slots lb_reachable.init by blast

text \<open>
  With at least one server configured, \<open>rpc_client\<close> never panics: in every reachable state it
  returns the client of a configured server whose websocket has reported the highest slot of all.
\<close>

lemma rpc_client_highest:
  assumes "lb_reachable servers s" "servers \<noteq> []"
  shows "\<exists>rpc_url ws sl. get_highest_slot (server_to_slot s) = Ok (ws, sl) \<and>
    (\<forall>(_, sl')\<in>set (server_to_slot s). sl' \<le> sl) \<and> (rpc_url, ws) \<in> set servers \<and>
    rpc_client (server_to_slot s) (load_balancer_clients new_client servers) = Ok (new_client rpc_url)"
proof -
  have inv: "hm_inv (server_to_slot s)" "dom (hm_get (server_to_slot s)) = snd ` set servers"
    using lb_reachable_servers [OF assms(1)] by auto
  then have "server_to_slot s \<noteq> []" using assms(2) by (auto simp: dom_def)
  then obtain ws sl where hi: "get_highest_slot (server_to_slot s) = Ok (ws, sl)"
    "(ws, sl) \<in> set (server_to_slot s)" "\<forall>(_, sl')\<in>set (server_to_slot s). sl' \<le> sl"
    by (rule get_highest_slot_Ok)
  have "hm_get (server_to_slot s) ws = Some sl"
    using hi(2) inv(1) by (simp add: hm_get_def hm_inv_def)
  then have "ws \<in> snd ` set servers" using inv(2) by blast
  then obtain rpc_url where "(rpc_url, ws) \<in> set servers"
    "hm_get (load_balancer_clients new_client servers) ws = Some (new_client rpc_url)"
    using load_balancer_clients_get by blast
  with hi show ?thesis by (auto simp: rpc_client_def unwrap_def)
qed

lemma rpc_client_highest_example:
  "\<exists>rpc_url ws sl. get_highest_slot (server_to_slot (load_balancer_new demo_servers)) = Ok (ws, sl) \<and>
    rpc_client (server_to_slot (load_balancer_new demo_servers)) (load_balancer_clients id demo_servers)
      = Ok rpc_url"
  using rpc_client_highest [of demo_servers "load_balancer_new demo_servers" id] lb_reachable.init
  by (fastforce simp: demo_servers_def)

end
