(* ===== verification/Auth_Claims.thy ===== *)
theory Auth_Claims
  imports Packets
begin

text \<open>
  The claims a token carries and the interceptor that checks tokens
  (\<open>relayer/src/auth_interceptor.rs\<close>). The \<open>chrono\<close>, \<open>jwt\<close> and \<open>ed25519_dalek\<close> functions are the
  records \<open>chrono\<close> and \<open>crypto\<close>, arguments of every definition that calls them. The interface
  \<open>token_scheme\<close> states what their documentation promises.
\<close>

section \<open>External functions\<close>

text \<open>A \<open>NaiveDateTime\<close> is a number of nanoseconds since the Unix epoch.\<close>

type_synonym naive_date_time = int

text \<open>
  \<open>DateTime::timestamp\<close> (whole seconds), \<open>DateTime::from_timestamp(s, 0)\<close>, and adding a duration,
  which panics when the sum is out of range.
\<close>

record chrono =
  timestamp :: "naive_date_time \<Rightarrow> int"
  from_timestamp :: "int \<Rightarrow> naive_date_time option"
  utc_add :: "naive_date_time \<Rightarrow> int \<Rightarrow> naive_date_time option"

datatype algorithm_type = Rs256 | OtherAlgorithm nat

record de_ser_claims =
  ds_client_ip :: string
  ds_client_pubkey :: string
  ds_expires_at_unix_ts :: int

text \<open>
  Signing and verifying a JWT with the service's key pair, and \<open>PublicKey::from_bytes\<close> (its
  \<open>to_bytes\<close> form), \<open>Signature::from_bytes\<close> and \<open>PublicKey::verify\<close> of \<open>ed25519_dalek\<close>.
\<close>

record crypto =
  sign_with_key :: "algorithm_type \<Rightarrow> de_ser_claims \<Rightarrow> string option"
  verify_with_key :: "string \<Rightarrow> (algorithm_type \<times> de_ser_claims) option"
  public_key_from_bytes :: "bytes \<Rightarrow> bytes option"
  signature_from_bytes :: "bytes \<Rightarrow> bytes option"
  verify_signature :: "bytes \<Rightarrow> string \<Rightarrow> bytes \<Rightarrow> bool"

section \<open>Claims\<close>

record claims =
  client_ip :: ip_addr
  client_pubkey :: pubkey
  claims_expires_at_utc :: naive_date_time

definition claims_is_expired :: "naive_date_time \<Rightarrow> claims \<Rightarrow> bool" where
  "claims_is_expired now c \<longleftrightarrow> claims_expires_at_utc c \<le> now"

definition claims_from :: "sdk \<Rightarrow> chrono \<Rightarrow> de_ser_claims \<Rightarrow> (claims, status) result" where
  "claims_from k ch d =
     and_then (unwrap (ip_from_str (ip_text k) (ds_client_ip d))) (\<lambda>ip.
     and_then (unwrap (pubkey_from_str k (ds_client_pubkey d))) (\<lambda>pk.
     and_then (unwrap (from_timestamp ch (ds_expires_at_unix_ts d))) (\<lambda>t.
       Ok \<lparr>client_ip = ip, client_pubkey = pk, claims_expires_at_utc = t\<rparr>)))"

definition de_ser_claims_from :: "sdk \<Rightarrow> chrono \<Rightarrow> claims \<Rightarrow> de_ser_claims" where
  "de_ser_claims_from k ch c =
     \<lparr>ds_client_ip = ip_to_string (ip_text k) (client_ip c),
      ds_client_pubkey = pubkey_to_string k (client_pubkey c),
      ds_expires_at_unix_ts = timestamp ch (claims_expires_at_utc c)\<rparr>"

section \<open>The interceptor\<close>

definition BEARER :: string where
  "BEARER = ''Bearer ''"

text \<open>
  The value of the \<open>authorization\<close> header: missing, not representable as text, or a string.
\<close>

datatype auth_header = NoHeader | NotText | HeaderText string

definition jwt_from_header ::
  "crypto \<Rightarrow> algorithm_type \<Rightarrow> auth_header \<Rightarrow> (de_ser_claims, status) result" where
  "jwt_from_header cr expected_signing_algo header =
     (case header of
        NoHeader \<Rightarrow> Err (PermissionDenied ''The authorization header is missing.'')
      | NotText \<Rightarrow> Err (InvalidArgument ''Failed to parse authorization header.'')
      | HeaderText auth_header \<Rightarrow>
          if \<not> starts_with BEARER auth_header then
            Err (PermissionDenied
              ''Invalid authorization header format. Must conform to `Authorization: Bearer ${token}`.'')
          else
            let split = split_str BEARER auth_header
            in if length split \<noteq> 2 then Err (PermissionDenied ''Missing jwt token.'')
               else
                 (case verify_with_key cr (split ! 1) of
                    None \<Rightarrow> Err (PermissionDenied ''Token failed verification.'')
                  | Some (algorithm, jwt_claims) \<Rightarrow>
                      if algorithm \<noteq> expected_signing_algo then Panic else Ok jwt_claims))"

text \<open>The public key that \<open>call\<close> puts into the request's extensions.\<close>

definition auth_interceptor_call ::
  "sdk \<Rightarrow> chrono \<Rightarrow> crypto \<Rightarrow> algorithm_type \<Rightarrow> auth_header \<Rightarrow> (pubkey, status) result" where
  "auth_interceptor_call k ch cr algo header =
     and_then (jwt_from_header cr algo header) (\<lambda>d.
     and_then (claims_from k ch d) (\<lambda>c. Ok (client_pubkey c)))"

section \<open>What the external functions promise\<close>

locale token_scheme =
  fixes k :: sdk and ch :: chrono and cr :: crypto
  assumes pubkey_text: "pubkey_from_str k (pubkey_to_string k pk) = Some pk"
    and v6_text: "v6_from_str (ip_text k) (v6_display (ip_text k) a) = Some a"
    and whole_seconds: "from_timestamp ch (timestamp ch t) = Some t' \<Longrightarrow> t' \<le> t \<and> t < t' + 1000000000"
    and in_range: "from_timestamp ch (timestamp ch t) \<noteq> None"
    and signed_verifies: "sign_with_key cr alg d = Some tok \<Longrightarrow> verify_with_key cr tok = Some (alg, d)"
    and token_chars: "sign_with_key cr alg d = Some tok \<Longrightarrow> CHR '' '' \<notin> set tok"
    and v6_colon: "CHR '':'' \<in> set (v6_display (ip_text k) a)"
begin

lemma ip_text_roundtrip: "ip_from_str (ip_text k) (ip_to_string (ip_text k) a) = Some a"
proof (cases a)
  case (V4 x)
  then show ?thesis by (simp add: ip_roundtrip_v4)
next
  case (V6 x)
  then show ?thesis by (simp add: ip_roundtrip_v6 v6_text v6_colon)
qed

lemma claims_roundtrip:
  "\<exists>t. claims_from k ch (de_ser_claims_from k ch c) = Ok (c\<lparr>claims_expires_at_utc := t\<rparr>) \<and>
     t \<le> claims_expires_at_utc c \<and> claims_expires_at_utc c < t + 1000000000"
proof -
  obtain t where t: "from_timestamp ch (timestamp ch (claims_expires_at_utc c)) = Some t"
    using in_range by blast
  have "claims_from k ch (de_ser_claims_from k ch c) = Ok (c\<lparr>claims_expires_at_utc := t\<rparr>)"
    by (simp add: claims_from_def de_ser_claims_from_def ip_text_roundtrip pubkey_text t unwrap_def)
  with whole_seconds [OF t] show ?thesis by blast
qed

lemma bearer_header:
  assumes "sign_with_key cr alg d = Some tok"
  shows "jwt_from_header cr alg (HeaderText (BEARER @ tok)) = Ok d"
proof -
  have "\<not> sublist BEARER tok"
    using token_chars [OF assms] by (auto simp: BEARER_def dest: set_mono_sublist)
  then have "split_str BEARER (BEARER @ tok) = [[], tok]"
    by (intro split_str_once) (simp_all add: BEARER_def)
  then show ?thesis
    using signed_verifies [OF assms] by (simp add: jwt_from_header_def starts_with_def)
qed

lemma issued_token_accepted:
  assumes "sign_with_key cr alg (de_ser_claims_from k ch c) = Some tok"
  shows "auth_interceptor_call k ch cr alg (HeaderText (BEARER @ tok)) = Ok (client_pubkey c)"
  using claims_roundtrip [of c] by (auto simp: auth_interceptor_call_def bearer_header [OF assms])

end

end
