(* ===== verification/Auth_Challenges.thy ===== *)
theory Auth_Challenges
  imports Auth_Claims
begin

text \<open>
  The pending challenges of \<open>relayer/src/auth_challenges.rs\<close>: one per IP address, kept in a priority
  queue whose head is the challenge that expires first. The queue (crate \<open>keyed_priority_queue\<close>) is a
  parameter; the interface \<open>keyed_queue\<close> states its documented laws, and \<open>challenge_store\<close> is what the
  authentication service relies on. The first gives the second.
\<close>

section \<open>The model\<close>

record auth_challenge =
  challenge :: string
  access_claims :: claims
  refresh_claims :: claims
  challenge_expires_at_utc :: naive_date_time

definition challenge_is_expired :: "naive_date_time \<Rightarrow> auth_challenge \<Rightarrow> bool" where
  "challenge_is_expired now c \<longleftrightarrow> challenge_expires_at_utc c \<le> now"

text \<open>\<open>Ord\<close> of a challenge compares expirations; the queue holds \<open>Reverse\<close> of it.\<close>

definition challenge_le :: "auth_challenge \<Rightarrow> auth_challenge \<Rightarrow> bool" where
  "challenge_le a b \<longleftrightarrow> challenge_expires_at_utc a \<le> challenge_expires_at_utc b"

record 'q queue_ops =
  pq_peek :: "'q \<Rightarrow> (ip_addr \<times> auth_challenge) option"
  pq_pop :: "'q \<Rightarrow> 'q"
  pq_push :: "ip_addr \<Rightarrow> auth_challenge \<Rightarrow> 'q \<Rightarrow> 'q"
  pq_len :: "'q \<Rightarrow> nat"
  pq_get_priority :: "'q \<Rightarrow> ip_addr \<Rightarrow> auth_challenge option"
  pq_remove :: "ip_addr \<Rightarrow> 'q \<Rightarrow> 'q"

text \<open>
  \<open>clock i\<close> is the reading of \<open>Utc::now()\<close> in the \<open>i\<close>-th round of the loop. The loop ends only if the
  queue runs out of expired challenges, so not ending is the value \<open>None\<close>.
\<close>

partial_function (option) remove_all_expired ::
  "'q queue_ops \<Rightarrow> (nat \<Rightarrow> naive_date_time) \<Rightarrow> nat \<Rightarrow> 'q \<Rightarrow> 'q option" where
  "remove_all_expired ops clock i q =
     (case pq_peek ops q of
        None \<Rightarrow> Some q
      | Some (_, auth_challenge) \<Rightarrow>
          if challenge_is_expired (clock i) auth_challenge
          then remove_all_expired ops clock (Suc i) (pq_pop ops q)
          else Some q)"

declare remove_all_expired.simps [code]

definition challenges_push :: "'q queue_ops \<Rightarrow> ip_addr \<Rightarrow> auth_challenge \<Rightarrow> 'q \<Rightarrow> 'q" where
  "challenges_push ops ip c q = pq_push ops ip c q"

definition challenges_len :: "'q queue_ops \<Rightarrow> 'q \<Rightarrow> nat" where
  "challenges_len ops q = pq_len ops q"

definition challenges_get_priority :: "'q queue_ops \<Rightarrow> 'q \<Rightarrow> ip_addr \<Rightarrow> auth_challenge option" where
  "challenges_get_priority ops q ip = pq_get_priority ops q ip"

definition challenges_remove :: "'q queue_ops \<Rightarrow> ip_addr \<Rightarrow> 'q \<Rightarrow> 'q" where
  "challenges_remove ops ip q = pq_remove ops ip q"

section \<open>Interfaces\<close>

text \<open>The queue, with \<open>content\<close> its entries: popping takes out the entry of highest priority.\<close>

locale keyed_queue =
  fixes ops :: "'q queue_ops"
    and content :: "'q \<Rightarrow> ip_addr \<rightharpoonup> auth_challenge"
    and empty :: 'q
  assumes content_empty: "content empty = Map.empty"
    and finite_content: "finite (dom (content q))"
    and peek_None: "pq_peek ops q = None \<longleftrightarrow> content q = Map.empty"
    and peek_Some: "pq_peek ops q = Some (ip, c) \<Longrightarrow> content q ip = Some c"
    and peek_first: "pq_peek ops q = Some (ip, c) \<Longrightarrow> content q ip' = Some c' \<Longrightarrow> challenge_le c c'"
    and content_pop: "pq_peek ops q = Some (ip, c) \<Longrightarrow> content (pq_pop ops q) = (content q)(ip := None)"
    and content_push: "content (pq_push ops ip c q) = (content q)(ip \<mapsto> c)"
    and len_content: "pq_len ops q = card (dom (content q))"
    and get_content: "pq_get_priority ops q ip = content q ip"
    and content_remove: "content (pq_remove ops ip q) = (content q)(ip := None)"

text \<open>The store of pending challenges, as the service uses it.\<close>

locale challenge_store =
  fixes push :: "ip_addr \<Rightarrow> auth_challenge \<Rightarrow> 'q \<Rightarrow> 'q"
    and len :: "'q \<Rightarrow> nat"
    and get :: "'q \<Rightarrow> ip_addr \<Rightarrow> auth_challenge option"
    and remove :: "ip_addr \<Rightarrow> 'q \<Rightarrow> 'q"
    and sweep :: "(nat \<Rightarrow> naive_date_time) \<Rightarrow> 'q \<Rightarrow> 'q option"
    and empty :: 'q
  assumes get_empty: "get empty = Map.empty"
    and get_push: "get (push ip c q) = (get q)(ip \<mapsto> c)"
    and get_remove: "get (remove ip q) = (get q)(ip := None)"
    and finite_get: "finite (dom (get q))"
    and len_get: "len q = card (dom (get q))"
    and sweep_returns: "\<exists>q'. sweep clock q = Some q'"
    and sweep_subset: "sweep clock q = Some q' \<Longrightarrow> get q' \<subseteq>\<^sub>m get q"
    and sweep_removes: "sweep clock q = Some q' \<Longrightarrow> (\<And>i. clock 0 \<le> clock i) \<Longrightarrow> get q' ip = Some c
      \<Longrightarrow> \<not> challenge_is_expired (clock 0) c"
    and sweep_keeps: "sweep clock q = Some q' \<Longrightarrow> get q ip = Some c
      \<Longrightarrow> (\<And>i. \<not> challenge_is_expired (clock i) c) \<Longrightarrow> get q' ip = Some c"

section \<open>The queue implements the store\<close>

context keyed_queue
begin

lemma remove_all_expired_induct:
  assumes "\<And>i q. pq_peek ops q = None \<Longrightarrow> P i q"
    and "\<And>i q ip c. pq_peek ops q = Some (ip, c) \<Longrightarrow>
      (challenge_is_expired (clock i) c \<Longrightarrow> P (Suc i) (pq_pop ops q)) \<Longrightarrow> P i q"
  shows "P i q"
proof (induction "card (dom (content q))" arbitrary: i q rule: less_induct)
  case less
  show ?case
  proof (cases "pq_peek ops q")
    case None
    then show ?thesis by (rule assms(1))
  next
    case (Some e)
    obtain ip c where e: "pq_peek ops q = Some (ip, c)" using Some by (cases e) auto
    have "dom (content (pq_pop ops q)) = dom (content q) - {ip}" by (simp add: content_pop [OF e])
    then have "card (dom (content (pq_pop ops q))) < card (dom (content q))"
      using peek_Some [OF e] finite_content [of q] by (auto intro!: psubset_card_mono)
    from less [OF this] show ?thesis by (rule assms(2) [OF e])
  qed
qed

lemma remove_all_expired_returns: "\<exists>q'. remove_all_expired ops clock i q = Some q'"
proof (induction i q rule: remove_all_expired_induct [where clock = clock])
  case (1 i q)
  then show ?case by (subst remove_all_expired.simps) simp
next
  case (2 i q ip c)
  then show ?case
    by (cases "challenge_is_expired (clock i) c") (subst remove_all_expired.simps, simp)+
qed

lemma remove_all_expired_content:
  "remove_all_expired ops clock i q = Some q' \<Longrightarrow> content q' \<subseteq>\<^sub>m content q \<and>
     ((\<forall>j. clock n \<le> clock j) \<longrightarrow> (\<forall>ip c. content q' ip = Some c \<longrightarrow> \<not> challenge_is_expired (clock n) c)) \<and>
     (\<forall>ip c. content q ip = Some c \<longrightarrow> (\<forall>j. \<not> challenge_is_expired (clock j) c) \<longrightarrow> content q' ip = Some c)"
proof (induction i q rule: remove_all_expired_induct [where clock = clock])
  case (1 i q)
  have "q' = q" using 1 by (simp add: remove_all_expired.simps [of ops clock i q])
  moreover have "content q = Map.empty" using 1(1) peek_None by blast
  ultimately show ?case by simp
next
  case (2 i q ip c)
  show ?case
  proof (cases "challenge_is_expired (clock i) c")
    case True
    then have "remove_all_expired ops clock (Suc i) (pq_pop ops q) = Some q'"
      using 2(1,3) by (simp add: remove_all_expired.simps [of ops clock i q])
    note IH = 2(2) [OF True this]
    have "content q' \<subseteq>\<^sub>m content q"
      using IH content_pop [OF 2(1)] upd_None_map_le [of "content q" ip] by (metis map_le_trans)
    moreover have "content (pq_pop ops q) ip' = Some c'"
      if "content q ip' = Some c'" "\<forall>j. \<not> challenge_is_expired (clock j) c'" for ip' c'
      using that content_pop [OF 2(1)] peek_Some [OF 2(1)] True by (cases "ip' = ip") auto
    ultimately show ?thesis using IH by simp
  next
    case False
    then have q': "q' = q" using 2(1,3) by (simp add: remove_all_expired.simps [of ops clock i q])
    have "\<not> challenge_is_expired (clock n) c'"
      if "\<forall>j. clock n \<le> clock j" "content q ip' = Some c'" for ip' c'
      using peek_first [OF 2(1) that(2)] that(1) [rule_format, of i] False
      by (simp add: challenge_is_expired_def challenge_le_def)
    with q' show ?thesis by simp
  qed
qed

end

sublocale keyed_queue \<subseteq> challenges: challenge_store "challenges_push ops" "challenges_len ops"
  "challenges_get_priority ops" "challenges_remove ops" "\<lambda>clock. remove_all_expired ops clock 0" empty
proof unfold_locales
  note eqs = challenges_push_def challenges_len_def challenges_get_priority_def challenges_remove_def
    get_content [abs_def]
  show "challenges_get_priority ops empty = Map.empty" by (simp add: eqs content_empty fun_eq_iff)
  show "challenges_get_priority ops (challenges_push ops ip c q) = (challenges_get_priority ops q)(ip \<mapsto> c)"
    for ip c q by (simp add: eqs content_push fun_eq_iff)
  show "challenges_get_priority ops (challenges_remove ops ip q) = (challenges_get_priority ops q)(ip := None)"
    for ip q by (simp add: eqs content_remove fun_eq_iff)
  have g: "challenges_get_priority ops q = content q" for q by (simp add: eqs fun_eq_iff)
  show "finite (dom (challenges_get_priority ops q))" for q by (simp add: g finite_content)
  show "challenges_len ops q = card (dom (challenges_get_priority ops q))" for q
    by (simp add: g challenges_len_def len_content)
  show "\<exists>q'. remove_all_expired ops clock 0 q = Some q'" for clock q
    by (rule remove_all_expired_returns)
  show "challenges_get_priority ops q' \<subseteq>\<^sub>m challenges_get_priority ops q"
    if "remove_all_expired ops clock 0 q = Some q'" for clock q q'
    using remove_all_expired_content [OF that] by (simp add: g)
  show "\<not> challenge_is_expired (clock 0) c"
    if "remove_all_expired ops clock 0 q = Some q'" "\<And>i. clock 0 \<le> clock i"
      "challenges_get_priority ops q' ip = Some c" for clock q q' ip c
    using remove_all_expired_content [OF that(1), of 0] that(2,3) by (simp add: g)
  show "challenges_get_priority ops q' ip = Some c"
    if "remove_all_expired ops clock 0 q = Some q'" "challenges_get_priority ops q ip = Some c"
      "\<And>i. \<not> challenge_is_expired (clock i) c" for clock q q' ip c
    using remove_all_expired_content [OF that(1), of 0] that(2,3) by (simp add: g)
qed

end
