(* ===== verification/Auth_Service.thy ===== *)
theory Auth_Service
  imports Auth_Challenges Health_Manager
begin

text \<open>
  The authentication service of \<open>relayer/src/auth_service.rs\<close>: the three gRPC handlers over the store
  of pending challenges, and the service as a whole. Each operation on the store takes its lock
  separately, so concurrent requests and the expiration task interleave between them. The handlers
  are therefore split at those points; \<open>generate_auth_challenge\<close> and \<open>generate_auth_tokens\<close> put the
  parts together as the code does, and \<open>auth_step\<close> runs the parts of many requests in any order.
\<close>

section \<open>Requests and configuration\<close>

definition AUTH_CHALLENGES_CAPACITY :: nat where
  "AUTH_CHALLENGES_CAPACITY = 100000"

text \<open>
  The lengths of a Solana public key and of a signature (\<open>PUBKEY_BYTES\<close>, \<open>SIGNATURE_BYTES\<close>), and the
  number of \<open>Role::Validator\<close> in the protobuf enumeration.
\<close>

record auth_config =
  access_token_ttl :: int
  refresh_token_ttl :: int
  challenge_ttl :: int
  pubkey_bytes :: nat
  signature_bytes :: nat
  role_validator :: int

text \<open>
  \<open>AuthServiceImpl::new\<close> converts the lifetimes from the command line to chrono's durations (\<open>from_std\<close>), which fails for
  those that chrono cannot represent.
\<close>

definition auth_config_new ::
  "(duration \<Rightarrow> int option) \<Rightarrow> nat \<Rightarrow> nat \<Rightarrow> int \<Rightarrow> duration \<times> duration \<times> duration \<Rightarrow> (auth_config, unit) result" where
  "auth_config_new from_std pk_bytes sig_bytes role ttls =
     (case ttls of (access, refresh, challenge_life) \<Rightarrow>
        and_then (unwrap (from_std access)) (\<lambda>a.
        and_then (unwrap (from_std refresh)) (\<lambda>r.
        and_then (unwrap (from_std challenge_life)) (\<lambda>c.
          Ok \<lparr>access_token_ttl = a, refresh_token_ttl = r, challenge_ttl = c, pubkey_bytes = pk_bytes,
              signature_bytes = sig_bytes, role_validator = role\<rparr>))))"

record challenge_request =
  cr_remote_addr :: "ip_addr option"
  cr_role :: int
  cr_pubkey :: bytes

record tokens_request =
  tr_remote_addr :: "ip_addr option"
  tr_client_pubkey :: bytes
  tr_challenge :: string
  tr_signed_challenge :: bytes

record pb_token =
  token_value :: string
  token_expires_seconds :: int

record tokens_response =
  resp_access_token :: pb_token
  resp_refresh_token :: pb_token

text \<open>
  What a call of \<open>generate_auth_challenge\<close> reads besides the request: the health state, the clock at
  the expiry check and at the three expirations, what the random generator draws (\<open>sample_iter(&Alphanumeric)\<close>) and
  the answer of the validator auther.
\<close>

record challenge_env =
  ce_health :: health_state
  ce_now :: naive_date_time
  ce_now_access :: naive_date_time
  ce_now_refresh :: naive_date_time
  ce_now_challenge :: naive_date_time
  ce_sample :: "nat \<Rightarrow> char"
  ce_is_authorized :: "pubkey \<Rightarrow> bool"

section \<open>The handlers\<close>

definition auth_check_health :: "health_state \<Rightarrow> (unit, status) result" where
  "auth_check_health h = (if h \<noteq> Healthy then Err (Internal ''relayer is unhealthy'') else Ok ())"

definition request_ip :: "ip_addr option \<Rightarrow> (ip_addr, status) result" where
  "request_ip remote_addr = ok_or remote_addr (Internal ''request is missing IP address'')"

definition generate_challenge_token :: "(nat \<Rightarrow> char) \<Rightarrow> string" where
  "generate_challenge_token sample = map sample [0..<9]"

datatype challenge_outcome = ReuseChallenge string | NewChallenge ip_addr auth_challenge

definition new_challenge ::
  "chrono \<Rightarrow> auth_config \<Rightarrow> challenge_env \<Rightarrow> ip_addr \<Rightarrow> pubkey \<Rightarrow> (auth_challenge, status) result" where
  "new_challenge ch cfg env ip pk =
     and_then (unwrap (utc_add ch (ce_now_access env) (access_token_ttl cfg))) (\<lambda>access_expiry.
     and_then (unwrap (utc_add ch (ce_now_refresh env) (refresh_token_ttl cfg))) (\<lambda>refresh_expiry.
     and_then (unwrap (utc_add ch (ce_now_challenge env) (challenge_ttl cfg))) (\<lambda>challenge_expiry.
       Ok \<lparr>challenge = generate_challenge_token (ce_sample env),
           access_claims = \<lparr>client_ip = ip, client_pubkey = pk, claims_expires_at_utc = access_expiry\<rparr>,
           refresh_claims = \<lparr>client_ip = ip, client_pubkey = pk, claims_expires_at_utc = refresh_expiry\<rparr>,
           challenge_expires_at_utc = challenge_expiry\<rparr>)))"

definition validated_pubkey ::
  "sdk \<Rightarrow> auth_config \<Rightarrow> challenge_env \<Rightarrow> challenge_request \<Rightarrow> (pubkey, status) result" where
  "validated_pubkey k cfg env req =
     (if cr_role req \<noteq> role_validator cfg then Err (InvalidArgument ''Role must be validator.'')
      else if length (cr_pubkey req) \<noteq> pubkey_bytes cfg then
        Err (InvalidArgument ''Pubkey must be 32 bytes in length'')
      else
        and_then (ok_or (pubkey_try_from k (cr_pubkey req)) (InvalidArgument ''Invalid pubkey supplied.''))
          (\<lambda>pubkey.
             if \<not> ce_is_authorized env pubkey then
               Err (PermissionDenied ''The supplied pubkey is not authorized to generate a challenge.'')
             else Ok pubkey))"

text \<open>
  \<open>generate_auth_challenge\<close> up to the push; \<open>len\<close> is the size of the store and \<open>pending\<close> the challenge
  the store holds for the client's address.
\<close>

definition challenge_decision ::
  "sdk \<Rightarrow> chrono \<Rightarrow> auth_config \<Rightarrow> challenge_env \<Rightarrow> challenge_request \<Rightarrow> nat
     \<Rightarrow> (ip_addr \<Rightarrow> auth_challenge option) \<Rightarrow> (challenge_outcome, status) result" where
  "challenge_decision k ch cfg env req len pending =
     and_then (auth_check_health (ce_health env)) (\<lambda>_.
       if AUTH_CHALLENGES_CAPACITY \<le> len then Err (ResourceExhausted ''System overloaded.'')
       else
         and_then (request_ip (cr_remote_addr req)) (\<lambda>ip.
           let fresh = and_then (validated_pubkey k cfg env req) (\<lambda>pubkey.
                         and_then (new_challenge ch cfg env ip pubkey) (\<lambda>c. Ok (NewChallenge ip c)))
           in (case pending ip of
                 Some auth_challenge \<Rightarrow>
                   if \<not> challenge_is_expired (ce_now env) auth_challenge
                   then Ok (ReuseChallenge (challenge auth_challenge)) else fresh
               | None \<Rightarrow> fresh)))"

definition generate_auth_challenge ::
  "sdk \<Rightarrow> chrono \<Rightarrow> auth_config \<Rightarrow> 'q queue_ops \<Rightarrow> challenge_env \<Rightarrow> challenge_request \<Rightarrow> 'q
     \<Rightarrow> 'q \<times> (string, status) result" where
  "generate_auth_challenge k ch cfg ops env req q =
     (case challenge_decision k ch cfg env req (challenges_len ops q) (challenges_get_priority ops q) of
        Ok (ReuseChallenge c) \<Rightarrow> (q, Ok c)
      | Ok (NewChallenge ip c) \<Rightarrow> (challenges_push ops ip c q, Ok (challenge c))
      | Err e \<Rightarrow> (q, Err e)
      | Panic \<Rightarrow> (q, Panic))"

text \<open>\<open>generate_auth_tokens\<close> up to the lookup of the challenge.\<close>

definition tokens_client ::
  "sdk \<Rightarrow> crypto \<Rightarrow> health_state \<Rightarrow> tokens_request \<Rightarrow> (ip_addr \<times> bytes \<times> pubkey, status) result" where
  "tokens_client k cr health req =
     and_then (auth_check_health health) (\<lambda>_.
     and_then (request_ip (tr_remote_addr req)) (\<lambda>ip.
     and_then (ok_or (public_key_from_bytes cr (tr_client_pubkey req))
                 (InvalidArgument ''Invalid pubkey supplied.'')) (\<lambda>client_key.
     and_then (ok_or (pubkey_try_from k client_key) (InvalidArgument ''Invalid pubkey supplied.''))
       (\<lambda>solana_pubkey. Ok (ip, client_key, solana_pubkey)))))"

definition pending_challenge :: "auth_challenge option \<Rightarrow> (auth_challenge, status) result" where
  "pending_challenge c =
     ok_or c (PermissionDenied
       ''Must invoke the GenerateAuthChallenge method before calling any method.'')"

definition sign_claims ::
  "sdk \<Rightarrow> chrono \<Rightarrow> crypto \<Rightarrow> string \<Rightarrow> claims \<Rightarrow> (pb_token, status) result" where
  "sign_claims k ch cr err c =
     and_then (ok_or (sign_with_key cr Rs256 (de_ser_claims_from k ch c)) (Internal err)) (\<lambda>tok.
       Ok \<lparr>token_value = tok, token_expires_seconds = timestamp ch (claims_expires_at_utc c)\<rparr>)"

definition expected_challenge :: "sdk \<Rightarrow> pubkey \<Rightarrow> auth_challenge \<Rightarrow> string" where
  "expected_challenge k pk c = pubkey_to_string k pk @ ''-'' @ challenge c"

text \<open>\<open>generate_auth_tokens\<close> between the lookup and the removal of the challenge.\<close>

definition tokens_decision ::
  "sdk \<Rightarrow> chrono \<Rightarrow> crypto \<Rightarrow> auth_config \<Rightarrow> tokens_request \<Rightarrow> bytes \<Rightarrow> pubkey \<Rightarrow> auth_challenge
     \<Rightarrow> (tokens_response, status) result" where
  "tokens_decision k ch cr cfg req client_key solana_pubkey c =
     (if client_pubkey (access_claims c) \<noteq> solana_pubkey then
        Err (PermissionDenied
          ''The pubkey provided does not match the pubkey that generated the challenge.'')
      else if expected_challenge k solana_pubkey c \<noteq> tr_challenge req then
        Err (InvalidArgument
          (''The provided challenge does not match the expected challenge: ''
             @ expected_challenge k solana_pubkey c))
      else if length (tr_signed_challenge req) \<noteq> signature_bytes cfg then
        Err (InvalidArgument ''Signature must be 64 bytes.'')
      else if length (tr_signed_challenge req) \<noteq> 64 then Err (InvalidArgument ''Invalid signature.'')
      else
        and_then (ok_or (signature_from_bytes cr (tr_signed_challenge req))
                    (InvalidArgument ''Invalid signature.'')) (\<lambda>signed_challenge.
          if \<not> verify_signature cr client_key (tr_challenge req) signed_challenge then
            Err (InvalidArgument ''Failed challenge verification. Did you sign with the supplied pubkey's corresponding private key?'')
          else
            and_then (sign_claims k ch cr ''Error signing access_token.'' (access_claims c)) (\<lambda>access_token.
            and_then (sign_claims k ch cr ''Error signing refresh_token.'' (refresh_claims c)) (\<lambda>refresh_token.
              Ok \<lparr>resp_access_token = access_token, resp_refresh_token = refresh_token\<rparr>))))"

definition generate_auth_tokens ::
  "sdk \<Rightarrow> chrono \<Rightarrow> crypto \<Rightarrow> auth_config \<Rightarrow> 'q queue_ops \<Rightarrow> health_state \<Rightarrow> tokens_request \<Rightarrow> 'q
     \<Rightarrow> 'q \<times> (tokens_response, status) result" where
  "generate_auth_tokens k ch cr cfg ops health req q =
     (case tokens_client k cr health req of
        Ok (ip, client_key, solana_pubkey) \<Rightarrow>
          (case and_then (pending_challenge (challenges_get_priority ops q ip))
                  (tokens_decision k ch cr cfg req client_key solana_pubkey) of
             Ok resp \<Rightarrow> (challenges_remove ops ip q, Ok resp)
           | Err e \<Rightarrow> (q, Err e)
           | Panic \<Rightarrow> (q, Panic))
      | Err e \<Rightarrow> (q, Err e)
      | Panic \<Rightarrow> (q, Panic))"

text \<open>
  \<open>refresh_access_token\<close>; \<open>now\<close> and \<open>now'\<close> are the clock at the expiry check and at the new
  expiration. The signed claims are returned beside the response.
\<close>

definition refresh_access_token ::
  "sdk \<Rightarrow> chrono \<Rightarrow> crypto \<Rightarrow> auth_config \<Rightarrow> health_state \<Rightarrow> naive_date_time \<Rightarrow> naive_date_time \<Rightarrow> string
     \<Rightarrow> (claims \<times> pb_token, status) result" where
  "refresh_access_token k ch cr cfg health now now' refresh_token =
     and_then (auth_check_health health) (\<lambda>_.
     and_then (ok_or (verify_with_key cr refresh_token)
                 (PermissionDenied ''Invalid refresh_token supplied'')) (\<lambda>(_, d).
     and_then (claims_from k ch d) (\<lambda>c.
       if claims_is_expired now c then
         Err (PermissionDenied ''Client refresh_token has expired, please generate a new auth challenge to obtain a set of new access tokens.'')
       else
         and_then (unwrap (utc_add ch now' (access_token_ttl cfg))) (\<lambda>expires_at_utc.
           let access = \<lparr>client_ip = client_ip c, client_pubkey = client_pubkey c,
                         claims_expires_at_utc = expires_at_utc\<rparr>
           in and_then (sign_claims k ch cr ''Error signing access_token.'' access)
                (\<lambda>tok. Ok (access, tok))))))"

end
