(* ===== verification/Auth_System.thy ===== *)
theory Auth_System
  imports Auth_Service
begin

text \<open>
  The authentication service under concurrent requests. The state holds the store of challenges, the
  requests that are between two operations on it, and a log of what was asked and what was issued. \<open>admitted\<close>
  are the challenge requests that have passed the check of the capacity, with the length they read, \<open>to_push\<close> those
  that have decided on a new challenge; \<open>in_flight_peak\<close> is the largest number of such requests at one time.
\<close>

section \<open>The service as a transition system\<close>

record 'q auth_state =
  store :: 'q
  admitted :: "(challenge_env \<times> challenge_request \<times> nat) list"
  to_push :: "(ip_addr \<times> auth_challenge) list"
  to_issue :: "(tokens_request \<times> ip_addr \<times> bytes \<times> pubkey \<times> auth_challenge) list"
  issued :: "(string \<times> claims) list"
  challenge_log :: "(challenge_env \<times> challenge_request) list"
  tokens_log :: "tokens_request list"
  refresh_log :: "string list"
  in_flight_peak :: nat

definition auth_new :: "'q \<Rightarrow> 'q auth_state" where
  "auth_new q = \<lparr>store = q, admitted = [], to_push = [], to_issue = [], issued = [], challenge_log = [],
     tokens_log = [], refresh_log = [], in_flight_peak = 0\<rparr>"

definition in_flight :: "'q auth_state \<Rightarrow> nat" where
  "in_flight s = length (admitted s) + length (to_push s)"

text \<open>
  \<open>generate_auth_challenge\<close> awaits the store three times: it reads its length (\<open>admit\<close>), looks for a pending challenge
  (\<open>decide\<close>, or \<open>dismiss\<close> when it is refused there or only repeats the pending challenge) and stores the new challenge
  (\<open>push\<close>). A request that is refused before its first access changes nothing.
\<close>

inductive auth_step :: "sdk \<Rightarrow> chrono \<Rightarrow> crypto \<Rightarrow> auth_config \<Rightarrow> 'q queue_ops \<Rightarrow> 'q auth_state \<Rightarrow> 'q auth_state \<Rightarrow> bool"
  for k ch cr cfg ops where
  admit: "ce_health env = Healthy \<Longrightarrow> challenges_len ops (store s) < AUTH_CHALLENGES_CAPACITY \<Longrightarrow>
    auth_step k ch cr cfg ops s
      (s\<lparr>admitted := (env, req, challenges_len ops (store s)) # admitted s,
         in_flight_peak := max (in_flight_peak s) (Suc (in_flight s))\<rparr>)"
| decide: "(env, req, n) \<in> set (admitted s) \<Longrightarrow>
    challenge_decision k ch cfg env req n (challenges_get_priority ops (store s)) = Ok (NewChallenge ip c) \<Longrightarrow>
    auth_step k ch cr cfg ops s
      (s\<lparr>admitted := remove1 (env, req, n) (admitted s), to_push := (ip, c) # to_push s,
         challenge_log := (env, req) # challenge_log s\<rparr>)"
| dismiss: "(env, req, n) \<in> set (admitted s) \<Longrightarrow>
    (\<forall>ip c. challenge_decision k ch cfg env req n (challenges_get_priority ops (store s)) \<noteq> Ok (NewChallenge ip c)) \<Longrightarrow>
    auth_step k ch cr cfg ops s (s\<lparr>admitted := remove1 (env, req, n) (admitted s)\<rparr>)"
| push: "(ip, c) \<in> set (to_push s) \<Longrightarrow>
    auth_step k ch cr cfg ops s
      (s\<lparr>store := challenges_push ops ip c (store s), to_push := remove1 (ip, c) (to_push s)\<rparr>)"
| lookup: "tokens_client k cr health req = Ok (ip, key, pk) \<Longrightarrow>
    pending_challenge (challenges_get_priority ops (store s) ip) = Ok c \<Longrightarrow>
    auth_step k ch cr cfg ops s (s\<lparr>to_issue := (req, ip, key, pk, c) # to_issue s\<rparr>)"
| issue: "(req, ip, key, pk, c) \<in> set (to_issue s) \<Longrightarrow>
    tokens_decision k ch cr cfg req key pk c = Ok resp \<Longrightarrow>
    auth_step k ch cr cfg ops s
      (s\<lparr>store := challenges_remove ops ip (store s),
         to_issue := remove1 (req, ip, key, pk, c) (to_issue s),
         issued := (token_value (resp_access_token resp), access_claims c)
           # (token_value (resp_refresh_token resp), refresh_claims c) # issued s,
         tokens_log := req # tokens_log s\<rparr>)"
| refuse: "(req, ip, key, pk, c) \<in> set (to_issue s) \<Longrightarrow>
    \<not> is_ok (tokens_decision k ch cr cfg req key pk c) \<Longrightarrow>
    auth_step k ch cr cfg ops s (s\<lparr>to_issue := remove1 (req, ip, key, pk, c) (to_issue s)\<rparr>)"
| refresh: "refresh_access_token k ch cr cfg health now now' tok = Ok (c, new_token) \<Longrightarrow>
    auth_step k ch cr cfg ops s
      (s\<lparr>issued := (token_value new_token, c) # issued s, refresh_log := tok # refresh_log s\<rparr>)"
| sweep: "remove_all_expired ops clock 0 (store s) = Some q \<Longrightarrow>
    auth_step k ch cr cfg ops s (s\<lparr>store := q\<rparr>)"

text \<open>
  The assumption that tokens cannot be forged: a refresh token that the service accepts is one it has
  issued.
\<close>

definition no_forgery :: "'q auth_state \<Rightarrow> 'q auth_state \<Rightarrow> bool" where
  "no_forgery s s' \<longleftrightarrow>
     (\<forall>tok. refresh_log s' = tok # refresh_log s \<longrightarrow> tok \<in> fst ` set (issued s))"

inductive auth_reachable :: "sdk \<Rightarrow> chrono \<Rightarrow> crypto \<Rightarrow> auth_config \<Rightarrow> 'q queue_ops \<Rightarrow> 'q \<Rightarrow> 'q auth_state \<Rightarrow> bool"
  for k ch cr cfg ops q where
  init: "auth_reachable k ch cr cfg ops q (auth_new q)"
| step: "auth_reachable k ch cr cfg ops q s \<Longrightarrow> auth_step k ch cr cfg ops s s' \<Longrightarrow> no_forgery s s' \<Longrightarrow>
    auth_reachable k ch cr cfg ops q s'"

section \<open>Where claims come from\<close>

text \<open>The auther approved the key in a challenge request from that address.\<close>

definition vouched :: "sdk \<Rightarrow> 'q auth_state \<Rightarrow> ip_addr \<Rightarrow> pubkey \<Rightarrow> bool" where
  "vouched k s ip pk \<longleftrightarrow>
     (\<exists>(env, req)\<in>set (challenge_log s). ce_is_authorized env pk \<and> cr_remote_addr req = Some ip \<and>
        pubkey_try_from k (cr_pubkey req) = Some pk)"

text \<open>The service drew this challenge for that address and that key, which the auther approved.\<close>

definition challenged :: "sdk \<Rightarrow> 'q auth_state \<Rightarrow> ip_addr \<Rightarrow> pubkey \<Rightarrow> string \<Rightarrow> bool" where
  "challenged k s ip pk chal \<longleftrightarrow>
     (\<exists>(env, req)\<in>set (challenge_log s). ce_is_authorized env pk \<and> cr_remote_addr req = Some ip \<and>
        pubkey_try_from k (cr_pubkey req) = Some pk \<and> chal = generate_challenge_token (ce_sample env))"

text \<open>
  The key's owner signed a challenge of the service: a token request from that address carried the key, the text of
  a challenge drawn for that address and key, and the bytes of a signature of this text that verifies with the key.
\<close>

definition proved :: "sdk \<Rightarrow> crypto \<Rightarrow> 'q auth_state \<Rightarrow> ip_addr \<Rightarrow> pubkey \<Rightarrow> bool" where
  "proved k cr s ip pk \<longleftrightarrow>
     (\<exists>req\<in>set (tokens_log s). \<exists>key sig chal. tr_remote_addr req = Some ip \<and>
        public_key_from_bytes cr (tr_client_pubkey req) = Some key \<and> pubkey_try_from k key = Some pk \<and>
        challenged k s ip pk chal \<and> tr_challenge req = pubkey_to_string k pk @ ''-'' @ chal \<and>
        signature_from_bytes cr (tr_signed_challenge req) = Some sig \<and>
        verify_signature cr key (tr_challenge req) sig)"

definition good_challenge :: "sdk \<Rightarrow> 'q auth_state \<Rightarrow> ip_addr \<Rightarrow> auth_challenge \<Rightarrow> bool" where
  "good_challenge k s ip c \<longleftrightarrow>
     client_ip (access_claims c) = ip \<and> client_ip (refresh_claims c) = ip \<and>
     client_pubkey (refresh_claims c) = client_pubkey (access_claims c) \<and>
     challenged k s ip (client_pubkey (access_claims c)) (challenge c)"

definition good_token :: "sdk \<Rightarrow> chrono \<Rightarrow> crypto \<Rightarrow> 'q auth_state \<Rightarrow> string \<Rightarrow> claims \<Rightarrow> bool" where
  "good_token k ch cr s tok c \<longleftrightarrow>
     sign_with_key cr Rs256 (de_ser_claims_from k ch c) = Some tok \<and>
     vouched k s (client_ip c) (client_pubkey c) \<and> proved k cr s (client_ip c) (client_pubkey c)"

definition auth_inv :: "sdk \<Rightarrow> chrono \<Rightarrow> crypto \<Rightarrow> 'q queue_ops \<Rightarrow> 'q auth_state \<Rightarrow> bool" where
  "auth_inv k ch cr ops s \<longleftrightarrow>
     (\<forall>(ip, c)\<in>set (to_push s). good_challenge k s ip c) \<and>
     (\<forall>ip c. challenges_get_priority ops (store s) ip = Some c \<longrightarrow> good_challenge k s ip c) \<and>
     (\<forall>(req, ip, key, pk, c)\<in>set (to_issue s). good_challenge k s ip c \<and> tr_remote_addr req = Some ip \<and>
        public_key_from_bytes cr (tr_client_pubkey req) = Some key \<and> pubkey_try_from k key = Some pk) \<and>
     (\<forall>(tok, c)\<in>set (issued s). good_token k ch cr s tok c)"

section \<open>Lemmas on the handlers\<close>

lemma challenge_decision_new:
  assumes "challenge_decision k ch cfg env req n pending = Ok (NewChallenge ip c)"
  shows "cr_remote_addr req = Some ip" "client_ip (access_claims c) = ip" "client_ip (refresh_claims c) = ip"
    "client_pubkey (refresh_claims c) = client_pubkey (access_claims c)"
    "ce_is_authorized env (client_pubkey (access_claims c))"
    "pubkey_try_from k (cr_pubkey req) = Some (client_pubkey (access_claims c))"
    "challenge c = generate_challenge_token (ce_sample env)" "n < AUTH_CHALLENGES_CAPACITY" "ce_health env = Healthy"
proof -
  have fresh: "cr_remote_addr req = Some ip' \<and> (\<exists>pk. validated_pubkey k cfg env req = Ok pk \<and>
      new_challenge ch cfg env ip' pk = Ok c \<and> ip' = ip) \<and> n < AUTH_CHALLENGES_CAPACITY \<and> ce_health env = Healthy"
    if "request_ip (cr_remote_addr req) = Ok ip'" for ip'
    using assms that
    by (auto simp: challenge_decision_def Let_def rust_simps request_ip_def auth_check_health_def
        split: option.splits if_splits)
  obtain ip' where ip': "request_ip (cr_remote_addr req) = Ok ip'"
    using assms by (auto simp: challenge_decision_def rust_simps split: if_splits)
  obtain pk where pk: "validated_pubkey k cfg env req = Ok pk" "new_challenge ch cfg env ip pk = Ok c"
    "cr_remote_addr req = Some ip" "n < AUTH_CHALLENGES_CAPACITY" "ce_health env = Healthy"
    using fresh [OF ip'] by blast
  from pk(2) have c: "client_ip (access_claims c) = ip" "client_ip (refresh_claims c) = ip"
    "client_pubkey (access_claims c) = pk" "client_pubkey (refresh_claims c) = pk" "challenge c = generate_challenge_token (ce_sample env)"
    by (auto simp: new_challenge_def rust_simps)
  have "ce_is_authorized env pk" "pubkey_try_from k (cr_pubkey req) = Some pk"
    using pk(1) by (auto simp: validated_pubkey_def rust_simps split: if_splits)
  with pk(3-5) c show "cr_remote_addr req = Some ip" "client_ip (access_claims c) = ip"
    "client_ip (refresh_claims c) = ip" "client_pubkey (refresh_claims c) = client_pubkey (access_claims c)"
    "ce_is_authorized env (client_pubkey (access_claims c))"
    "pubkey_try_from k (cr_pubkey req) = Some (client_pubkey (access_claims c))"
    "challenge c = generate_challenge_token (ce_sample env)" "n < AUTH_CHALLENGES_CAPACITY" "ce_health env = Healthy"
    by simp_all
qed

lemma tokens_client_Ok:
  assumes "tokens_client k cr health req = Ok (ip, key, pk)"
  shows "tr_remote_addr req = Some ip" "public_key_from_bytes cr (tr_client_pubkey req) = Some key"
    "pubkey_try_from k key = Some pk" "health = Healthy"
  using assms by (auto simp: tokens_client_def rust_simps request_ip_def auth_check_health_def split: if_splits)

lemma sign_claims_Ok:
  assumes "sign_claims k ch cr err c = Ok t"
  shows "sign_with_key cr Rs256 (de_ser_claims_from k ch c) = Some (token_value t)"
    "token_expires_seconds t = timestamp ch (claims_expires_at_utc c)"
  using assms by (auto simp: sign_claims_def rust_simps)

lemma tokens_decision_Ok:
  assumes "tokens_decision k ch cr cfg req key pk c = Ok resp"
  shows "client_pubkey (access_claims c) = pk" "tr_challenge req = pubkey_to_string k pk @ ''-'' @ challenge c"
    "\<exists>sig. signature_from_bytes cr (tr_signed_challenge req) = Some sig \<and>
      verify_signature cr key (tr_challenge req) sig"
    "sign_with_key cr Rs256 (de_ser_claims_from k ch (access_claims c)) = Some (token_value (resp_access_token resp))"
    "sign_with_key cr Rs256 (de_ser_claims_from k ch (refresh_claims c)) = Some (token_value (resp_refresh_token resp))"
  using assms
  by (auto simp: tokens_decision_def expected_challenge_def rust_simps dest: sign_claims_Ok(1) split: if_splits)

lemma refresh_access_token_Ok:
  assumes "refresh_access_token k ch cr cfg health now now' tok = Ok (c, t)"
  shows "\<exists>alg d c0. verify_with_key cr tok = Some (alg, d) \<and> claims_from k ch d = Ok c0 \<and>
      \<not> claims_is_expired now c0 \<and> client_ip c = client_ip c0 \<and> client_pubkey c = client_pubkey c0"
    and "sign_with_key cr Rs256 (de_ser_claims_from k ch c) = Some (token_value t)"
    and "utc_add ch now' (access_token_ttl cfg) = Some (claims_expires_at_utc c)"
    and "token_expires_seconds t = timestamp ch (claims_expires_at_utc c)"
  using assms
  by (auto simp: refresh_access_token_def rust_simps Let_def dest: sign_claims_Ok split: if_splits)

lemma vouched_mono:
  "vouched k s ip pk \<Longrightarrow> set (challenge_log s) \<subseteq> set (challenge_log s') \<Longrightarrow> vouched k s' ip pk"
  by (auto simp: vouched_def)

lemma challenged_mono:
  "challenged k s ip pk chal \<Longrightarrow> set (challenge_log s) \<subseteq> set (challenge_log s') \<Longrightarrow> challenged k s' ip pk chal"
  by (auto simp: challenged_def)

lemma challenged_vouched: "challenged k s ip pk chal \<Longrightarrow> vouched k s ip pk"
  by (auto simp: challenged_def vouched_def)

lemma proved_mono:
  assumes "proved k cr s ip pk" "set (challenge_log s) \<subseteq> set (challenge_log s')"
    and "set (tokens_log s) \<subseteq> set (tokens_log s')"
  shows "proved k cr s' ip pk"
  using assms(1,3) challenged_mono [OF _ assms(2)] unfolding proved_def by blast

lemma good_challenge_mono:
  "good_challenge k s ip c \<Longrightarrow> set (challenge_log s) \<subseteq> set (challenge_log s') \<Longrightarrow> good_challenge k s' ip c"
  by (auto simp: good_challenge_def intro: challenged_mono)

lemma good_token_mono:
  "good_token k ch cr s tok c \<Longrightarrow> set (challenge_log s) \<subseteq> set (challenge_log s') \<Longrightarrow>
     set (tokens_log s) \<subseteq> set (tokens_log s') \<Longrightarrow> good_token k ch cr s' tok c"
  by (auto simp: good_token_def intro: vouched_mono proved_mono)

lemma auth_step_logs:
  assumes "auth_step k ch cr cfg ops s s'"
  shows "set (challenge_log s) \<subseteq> set (challenge_log s')" "set (tokens_log s) \<subseteq> set (tokens_log s')"
  using assms by (cases, auto)+

text \<open>What is good in a state is good in every later one.\<close>

lemma auth_inv_later:
  assumes "auth_inv k ch cr ops s" "auth_step k ch cr cfg ops s s'"
  shows "\<And>ip c. (ip, c) \<in> set (to_push s) \<Longrightarrow> good_challenge k s' ip c"
    "\<And>ip c. challenges_get_priority ops (store s) ip = Some c \<Longrightarrow> good_challenge k s' ip c"
    "\<And>req ip key pk c. (req, ip, key, pk, c) \<in> set (to_issue s) \<Longrightarrow> good_challenge k s' ip c \<and>
       tr_remote_addr req = Some ip \<and> public_key_from_bytes cr (tr_client_pubkey req) = Some key \<and>
       pubkey_try_from k key = Some pk"
    "\<And>tok c. (tok, c) \<in> set (issued s) \<Longrightarrow> good_token k ch cr s' tok c"
proof -
  note logs = auth_step_logs [OF assms(2)]
  have gc: "good_challenge k s ip c \<Longrightarrow> good_challenge k s' ip c" for ip c
    using logs(1) by (rule good_challenge_mono [rotated])
  have gt: "good_token k ch cr s tok c \<Longrightarrow> good_token k ch cr s' tok c" for tok c
    by (rule good_token_mono) (use logs in simp_all)
  show "\<And>ip c. (ip, c) \<in> set (to_push s) \<Longrightarrow> good_challenge k s' ip c"
    "\<And>ip c. challenges_get_priority ops (store s) ip = Some c \<Longrightarrow> good_challenge k s' ip c"
    using assms(1) gc unfolding auth_inv_def by blast+
  show "\<And>req ip key pk c. (req, ip, key, pk, c) \<in> set (to_issue s) \<Longrightarrow> good_challenge k s' ip c \<and>
       tr_remote_addr req = Some ip \<and> public_key_from_bytes cr (tr_client_pubkey req) = Some key \<and>
       pubkey_try_from k key = Some pk"
    using assms(1) gc unfolding auth_inv_def by blast
  show "\<And>tok c. (tok, c) \<in> set (issued s) \<Longrightarrow> good_token k ch cr s' tok c"
    using assms(1) gt unfolding auth_inv_def by blast
qed

lemma auth_inv_preserved:
  assumes "auth_inv k ch cr ops s" "auth_step k ch cr cfg ops s s'"
    and "\<And>ip c. (ip, c) \<in> set (to_push s') \<Longrightarrow> (ip, c) \<in> set (to_push s) \<or> good_challenge k s' ip c"
    and "\<And>ip c. challenges_get_priority ops (store s') ip = Some c \<Longrightarrow>
      challenges_get_priority ops (store s) ip = Some c \<or> good_challenge k s' ip c"
    and "\<And>req ip key pk c. (req, ip, key, pk, c) \<in> set (to_issue s') \<Longrightarrow>
      (req, ip, key, pk, c) \<in> set (to_issue s) \<or> good_challenge k s' ip c \<and> tr_remote_addr req = Some ip \<and>
        public_key_from_bytes cr (tr_client_pubkey req) = Some key \<and> pubkey_try_from k key = Some pk"
    and "\<And>tok c. (tok, c) \<in> set (issued s') \<Longrightarrow> (tok, c) \<in> set (issued s) \<or> good_token k ch cr s' tok c"
  shows "auth_inv k ch cr ops s'"
proof -
  note later = auth_inv_later [OF assms(1,2)]
  have "good_challenge k s' ip c" if "(ip, c) \<in> set (to_push s')" for ip c
    using assms(3) [OF that] later(1) by blast
  moreover have "good_challenge k s' ip c" if "challenges_get_priority ops (store s') ip = Some c" for ip c
    using assms(4) [OF that] later(2) by blast
  moreover have "good_challenge k s' ip c \<and> tr_remote_addr req = Some ip \<and>
        public_key_from_bytes cr (tr_client_pubkey req) = Some key \<and> pubkey_try_from k key = Some pk"
    if "(req, ip, key, pk, c) \<in> set (to_issue s')" for req ip key pk c
    using assms(5) [OF that] later(3) by blast
  moreover have "good_token k ch cr s' tok c" if "(tok, c) \<in> set (issued s')" for tok c
    using assms(6) [OF that] later(4) by blast
  ultimately show ?thesis unfolding auth_inv_def by blast
qed

lemmas in_remove1 = set_remove1_subset [THEN subsetD]

section \<open>The handlers on the store\<close>

text \<open>A pending challenge that has not expired, who may ask for a new one, and the new one.\<close>

definition live_challenge :: "'q queue_ops \<Rightarrow> naive_date_time \<Rightarrow> 'q \<Rightarrow> ip_addr \<Rightarrow> auth_challenge option" where
  "live_challenge ops now q ip =
     (case challenges_get_priority ops q ip of
        Some c \<Rightarrow> if challenge_is_expired now c then None else Some c
      | None \<Rightarrow> None)"

definition may_ask :: "sdk \<Rightarrow> auth_config \<Rightarrow> challenge_env \<Rightarrow> challenge_request \<Rightarrow> pubkey \<Rightarrow> bool" where
  "may_ask k cfg env req pk \<longleftrightarrow>
     cr_role req = role_validator cfg \<and> length (cr_pubkey req) = pubkey_bytes cfg \<and>
     pubkey_try_from k (cr_pubkey req) = Some pk \<and> ce_is_authorized env pk"

definition expirations ::
  "chrono \<Rightarrow> auth_config \<Rightarrow> challenge_env \<Rightarrow> (naive_date_time \<times> naive_date_time \<times> naive_date_time) option" where
  "expirations ch cfg env =
     (case (utc_add ch (ce_now_access env) (access_token_ttl cfg), utc_add ch (ce_now_refresh env) (refresh_token_ttl cfg),
         utc_add ch (ce_now_challenge env) (challenge_ttl cfg)) of
        (Some a, Some r, Some c) \<Rightarrow> Some (a, r, c)
      | _ \<Rightarrow> None)"

definition challenge_for ::
  "challenge_env \<Rightarrow> ip_addr \<Rightarrow> pubkey \<Rightarrow> naive_date_time \<times> naive_date_time \<times> naive_date_time \<Rightarrow> auth_challenge" where
  "challenge_for env ip pk ts =
     \<lparr>challenge = generate_challenge_token (ce_sample env),
      access_claims = \<lparr>client_ip = ip, client_pubkey = pk, claims_expires_at_utc = fst ts\<rparr>,
      refresh_claims = \<lparr>client_ip = ip, client_pubkey = pk, claims_expires_at_utc = fst (snd ts)\<rparr>,
      challenge_expires_at_utc = snd (snd ts)\<rparr>"

lemma new_challenge_cases:
  "new_challenge ch cfg env ip pk =
     (case expirations ch cfg env of Some ts \<Rightarrow> Ok (challenge_for env ip pk ts) | None \<Rightarrow> Panic)"
  by (simp add: new_challenge_def expirations_def challenge_for_def unwrap_def split: option.split)

lemma validated_pubkey_cases:
  "validated_pubkey k cfg env req = Ok pk \<longleftrightarrow> may_ask k cfg env req pk" "validated_pubkey k cfg env req \<noteq> Panic"
  by (cases "pubkey_try_from k (cr_pubkey req)"; auto simp: validated_pubkey_def may_ask_def ok_or_def split: if_splits)+

lemma may_ask_unique: "may_ask k cfg env req pk \<Longrightarrow> may_ask k cfg env req pk' \<Longrightarrow> pk' = pk"
  by (simp add: may_ask_def)

lemma challenge_decision_split:
  "challenge_decision k ch cfg env req n (challenges_get_priority ops q) =
     and_then (auth_check_health (ce_health env)) (\<lambda>_.
       if AUTH_CHALLENGES_CAPACITY \<le> n then Err (ResourceExhausted ''System overloaded.'')
       else and_then (request_ip (cr_remote_addr req)) (\<lambda>ip.
         case live_challenge ops (ce_now env) q ip of
           Some c \<Rightarrow> Ok (ReuseChallenge (challenge c))
         | None \<Rightarrow> and_then (validated_pubkey k cfg env req) (\<lambda>pk.
             and_then (new_challenge ch cfg env ip pk) (\<lambda>c. Ok (NewChallenge ip c)))))"
  by (auto simp: challenge_decision_def live_challenge_def Let_def fun_eq_iff split: option.split intro!: arg_cong2 [where f = and_then])

lemma challenge_decision_eq:
  fixes k ch cfg env req n and ops :: "'q queue_ops" and q
  defines "d \<equiv> challenge_decision k ch cfg env req n (challenges_get_priority ops q)"
  shows "is_ok d \<longleftrightarrow> ce_health env = Healthy \<and> n < AUTH_CHALLENGES_CAPACITY \<and>
      (\<exists>ip. cr_remote_addr req = Some ip \<and>
         (live_challenge ops (ce_now env) q ip \<noteq> None \<or> (\<exists>pk. may_ask k cfg env req pk) \<and> expirations ch cfg env \<noteq> None))"
    and "d = Panic \<longleftrightarrow> ce_health env = Healthy \<and> n < AUTH_CHALLENGES_CAPACITY \<and>
      (\<exists>ip. cr_remote_addr req = Some ip \<and> live_challenge ops (ce_now env) q ip = None) \<and>
      (\<exists>pk. may_ask k cfg env req pk) \<and> expirations ch cfg env = None"
    and "d = Ok (ReuseChallenge chal) \<longleftrightarrow> ce_health env = Healthy \<and> n < AUTH_CHALLENGES_CAPACITY \<and>
      (\<exists>ip c. cr_remote_addr req = Some ip \<and> live_challenge ops (ce_now env) q ip = Some c \<and> chal = challenge c)"
    and "d = Ok (NewChallenge ip c) \<longleftrightarrow> ce_health env = Healthy \<and> n < AUTH_CHALLENGES_CAPACITY \<and>
      cr_remote_addr req = Some ip \<and> live_challenge ops (ce_now env) q ip = None \<and>
      (\<exists>pk. may_ask k cfg env req pk \<and> new_challenge ch cfg env ip pk = Ok c)"
proof -
  note defs = d_def challenge_decision_split auth_check_health_def request_ip_def ok_or_def
  note may = validated_pubkey_cases(1) [THEN iffD2] validated_pubkey_cases(1) [THEN iffD1]
  show "is_ok d \<longleftrightarrow> ce_health env = Healthy \<and> n < AUTH_CHALLENGES_CAPACITY \<and>
      (\<exists>ip. cr_remote_addr req = Some ip \<and>
         (live_challenge ops (ce_now env) q ip \<noteq> None \<or> (\<exists>pk. may_ask k cfg env req pk) \<and> expirations ch cfg env \<noteq> None))"
    by (cases "cr_remote_addr req"; cases "validated_pubkey k cfg env req")
      (auto simp: defs is_ok_def new_challenge_cases validated_pubkey_cases(2) split: option.splits dest: may)
  show "d = Panic \<longleftrightarrow> ce_health env = Healthy \<and> n < AUTH_CHALLENGES_CAPACITY \<and>
      (\<exists>ip. cr_remote_addr req = Some ip \<and> live_challenge ops (ce_now env) q ip = None) \<and>
      (\<exists>pk. may_ask k cfg env req pk) \<and> expirations ch cfg env = None"
    by (cases "cr_remote_addr req"; cases "validated_pubkey k cfg env req")
      (auto simp: defs new_challenge_cases validated_pubkey_cases(2) split: option.splits dest: may)
  show "d = Ok (ReuseChallenge chal) \<longleftrightarrow> ce_health env = Healthy \<and> n < AUTH_CHALLENGES_CAPACITY \<and>
      (\<exists>ip c. cr_remote_addr req = Some ip \<and> live_challenge ops (ce_now env) q ip = Some c \<and> chal = challenge c)"
    by (cases "cr_remote_addr req") (auto simp: defs rust_simps split: option.splits)
  show "d = Ok (NewChallenge ip c) \<longleftrightarrow> ce_health env = Healthy \<and> n < AUTH_CHALLENGES_CAPACITY \<and>
      cr_remote_addr req = Some ip \<and> live_challenge ops (ce_now env) q ip = None \<and>
      (\<exists>pk. may_ask k cfg env req pk \<and> new_challenge ch cfg env ip pk = Ok c)"
    by (cases "cr_remote_addr req") (auto simp: defs rust_simps validated_pubkey_cases split: option.splits)
qed

lemma generate_auth_tokens_Ok:
  assumes "generate_auth_tokens k ch cr cfg ops health req q = (q', Ok resp)"
  obtains ip key pk c where "tokens_client k cr health req = Ok (ip, key, pk)"
    "challenges_get_priority ops q ip = Some c" "tokens_decision k ch cr cfg req key pk c = Ok resp"
    "q' = challenges_remove ops ip q"
proof -
  from assms obtain ip key pk where t: "tokens_client k cr health req = Ok (ip, key, pk)"
    by (auto simp: generate_auth_tokens_def split: result.splits)
  from assms t have "and_then (pending_challenge (challenges_get_priority ops q ip))
      (tokens_decision k ch cr cfg req key pk) = Ok resp" "q' = challenges_remove ops ip q"
    by (auto simp: generate_auth_tokens_def split: result.splits)
  with t that show ?thesis by (auto simp: pending_challenge_def rust_simps)
qed

context keyed_queue
begin

lemma generate_auth_challenge_new:
  assumes "new_challenge ch cfg env ip pk = Ok c"
  obtains ts where "expirations ch cfg env = Some ts"
    "challenges_get_priority ops (challenges_push ops ip c q) = (challenges_get_priority ops q)(ip \<mapsto> challenge_for env ip pk ts)"
    "challenge c = generate_challenge_token (ce_sample env)"
  using new_challenge_cases [of ch cfg env ip pk] assms
  by (auto simp: challenges.get_push challenge_for_def split: option.splits)

lemma generate_auth_challenge_answer:
  assumes "generate_auth_challenge k ch cfg ops env req q = (q', r)"
  shows "is_ok r \<longleftrightarrow> ce_health env = Healthy \<and> challenges_len ops q < AUTH_CHALLENGES_CAPACITY \<and>
      (\<exists>ip. cr_remote_addr req = Some ip \<and>
         (live_challenge ops (ce_now env) q ip \<noteq> None \<or> (\<exists>pk. may_ask k cfg env req pk) \<and> expirations ch cfg env \<noteq> None))"
    and "r = Panic \<longleftrightarrow> ce_health env = Healthy \<and> challenges_len ops q < AUTH_CHALLENGES_CAPACITY \<and>
      (\<exists>ip. cr_remote_addr req = Some ip \<and> live_challenge ops (ce_now env) q ip = None) \<and>
      (\<exists>pk. may_ask k cfg env req pk) \<and> expirations ch cfg env = None"
    and "r = Ok chal \<Longrightarrow> \<exists>ip. cr_remote_addr req = Some ip \<and>
      (case live_challenge ops (ce_now env) q ip of
         Some c \<Rightarrow> q' = q \<and> chal = challenge c
       | None \<Rightarrow> \<exists>pk ts. may_ask k cfg env req pk \<and> expirations ch cfg env = Some ts \<and>
           chal = generate_challenge_token (ce_sample env) \<and>
           challenges_get_priority ops q' = (challenges_get_priority ops q)(ip \<mapsto> challenge_for env ip pk ts))"
    and "\<not> is_ok r \<Longrightarrow> q' = q"
proof -
  let ?d = "challenge_decision k ch cfg env req (challenges_len ops q) (challenges_get_priority ops q)"
  note d = challenge_decision_eq [of k ch cfg env req "challenges_len ops q" ops q]
  have r: "(q', r) = (case ?d of Ok (ReuseChallenge c) \<Rightarrow> (q, Ok c)
      | Ok (NewChallenge ip c) \<Rightarrow> (challenges_push ops ip c q, Ok (challenge c)) | Err e \<Rightarrow> (q, Err e) | Panic \<Rightarrow> (q, Panic))"
    using assms by (simp add: generate_auth_challenge_def)
  show "is_ok r \<longleftrightarrow> ce_health env = Healthy \<and> challenges_len ops q < AUTH_CHALLENGES_CAPACITY \<and>
      (\<exists>ip. cr_remote_addr req = Some ip \<and>
         (live_challenge ops (ce_now env) q ip \<noteq> None \<or> (\<exists>pk. may_ask k cfg env req pk) \<and> expirations ch cfg env \<noteq> None))"
    using r d(1) by (auto simp: is_ok_def split: result.splits challenge_outcome.splits)
  show "r = Panic \<longleftrightarrow> ce_health env = Healthy \<and> challenges_len ops q < AUTH_CHALLENGES_CAPACITY \<and>
      (\<exists>ip. cr_remote_addr req = Some ip \<and> live_challenge ops (ce_now env) q ip = None) \<and>
      (\<exists>pk. may_ask k cfg env req pk) \<and> expirations ch cfg env = None"
    using r d(2) by (auto split: result.splits challenge_outcome.splits)
  show "\<not> is_ok r \<Longrightarrow> q' = q" using r by (auto simp: is_ok_def split: result.splits challenge_outcome.splits)
  assume "r = Ok chal"
  with r obtain x where x: "?d = Ok x" and q': "(case x of ReuseChallenge c \<Rightarrow> q' = q \<and> chal = c
      | NewChallenge ip c \<Rightarrow> q' = challenges_push ops ip c q \<and> chal = challenge c)"
    by (auto split: result.splits challenge_outcome.splits)
  show "\<exists>ip. cr_remote_addr req = Some ip \<and>
      (case live_challenge ops (ce_now env) q ip of
         Some c \<Rightarrow> q' = q \<and> chal = challenge c
       | None \<Rightarrow> \<exists>pk ts. may_ask k cfg env req pk \<and> expirations ch cfg env = Some ts \<and>
           chal = generate_challenge_token (ce_sample env) \<and>
           challenges_get_priority ops q' = (challenges_get_priority ops q)(ip \<mapsto> challenge_for env ip pk ts))"
  proof (cases x)
    case (ReuseChallenge c)
    with d(3) x q' show ?thesis by fastforce
  next
    case (NewChallenge ip c)
    with d(4) x obtain pk where pk: "cr_remote_addr req = Some ip" "live_challenge ops (ce_now env) q ip = None"
      "may_ask k cfg env req pk" "new_challenge ch cfg env ip pk = Ok c" by blast
    from generate_auth_challenge_new [OF pk(4), of q] obtain ts where "expirations ch cfg env = Some ts"
      "challenges_get_priority ops (challenges_push ops ip c q) = (challenges_get_priority ops q)(ip \<mapsto> challenge_for env ip pk ts)"
      "challenge c = generate_challenge_token (ce_sample env)" .
    with pk q' NewChallenge show ?thesis by auto
  qed
qed

text \<open>
  Requests that have passed the check of the capacity but have not stored their challenge yet can push the store over
  its capacity, by at most their number.
\<close>

lemma challenges_len_mono:
  "dom (challenges_get_priority ops q') \<subseteq> dom (challenges_get_priority ops q) \<Longrightarrow> challenges_len ops q' \<le> challenges_len ops q"
  by (simp add: challenges.len_get challenges.finite_get card_mono)

lemma challenges_len_push: "challenges_len ops (challenges_push ops ip c q) \<le> Suc (challenges_len ops q)"
  using challenges.finite_get [of q] by (simp add: challenges.len_get challenges.get_push card_insert_if)

lemma challenges_len_step:
  assumes "auth_step k ch cr cfg ops s s'"
    and "challenges_len ops (store s) + in_flight s < AUTH_CHALLENGES_CAPACITY + in_flight_peak s"
  shows "challenges_len ops (store s') + in_flight s' < AUTH_CHALLENGES_CAPACITY + in_flight_peak s'"
  using assms(1)
proof cases
  case (push ip c)
  have "length (to_push s) = Suc (length (remove1 (ip, c) (to_push s)))"
    using push(2) length_pos_if_in_set [OF push(2)] by (simp add: length_remove1)
  with push assms(2) challenges_len_push [of ip c "store s"] show ?thesis by (simp add: in_flight_def)
next
  case (decide env req n ip c)
  have "length (admitted s) = Suc (length (remove1 (env, req, n) (admitted s)))"
    using decide(2) length_pos_if_in_set [OF decide(2)] by (simp add: length_remove1)
  with decide(1) assms(2) show ?thesis by (simp add: in_flight_def)
next
  case (dismiss env req n)
  with assms(2) show ?thesis by (simp add: in_flight_def length_remove1)
next
  case (issue req ip key pk c resp)
  have "challenges_len ops (challenges_remove ops ip (store s)) \<le> challenges_len ops (store s)"
    by (rule challenges_len_mono) (auto simp: challenges.get_remove)
  with issue(1) assms(2) show ?thesis by (simp add: in_flight_def)
next
  case (sweep clock q)
  have "challenges_len ops q \<le> challenges_len ops (store s)"
    by (rule challenges_len_mono) (rule map_le_implies_dom_le [OF challenges.sweep_subset [OF sweep(2)]])
  with sweep(1) assms(2) show ?thesis by (simp add: in_flight_def)
qed (use assms(2) in \<open>auto simp: in_flight_def\<close>)

lemma challenges_len_reachable:
  assumes "auth_reachable k ch cr cfg ops empty s"
  shows "challenges_len ops (store s) + in_flight s < AUTH_CHALLENGES_CAPACITY + in_flight_peak s"
  using assms
proof induction
  case init
  have "challenges_len ops empty = 0" by (simp add: challenges.len_get challenges.get_empty)
  then show ?case by (simp add: auth_new_def in_flight_def AUTH_CHALLENGES_CAPACITY_def)
qed (rule challenges_len_step)

lemma generate_auth_tokens_store:
  assumes "generate_auth_tokens k ch cr cfg ops health req q = (q', Ok resp)"
  shows "\<exists>ip c. tr_remote_addr req = Some ip \<and> challenges_get_priority ops q ip = Some c \<and>
    challenges_get_priority ops q' = (challenges_get_priority ops q)(ip := None) \<and>
    (\<forall>health' req'. tr_remote_addr req' = Some ip \<longrightarrow>
       \<not> is_ok (snd (generate_auth_tokens k ch cr cfg ops health' req' q')))"
  using assms
proof (rule generate_auth_tokens_Ok)
  fix ip key pk c
  assume t: "tokens_client k cr health req = Ok (ip, key, pk)"
    "challenges_get_priority ops q ip = Some c" "q' = challenges_remove ops ip q"
  have g: "challenges_get_priority ops q' = (challenges_get_priority ops q)(ip := None)"
    by (simp add: t(3) challenges.get_remove)
  have "\<not> is_ok (snd (generate_auth_tokens k ch cr cfg ops health' req' q'))"
    if "tr_remote_addr req' = Some ip" for health' req'
  proof
    assume "is_ok (snd (generate_auth_tokens k ch cr cfg ops health' req' q'))"
    then obtain q2 resp2 where "generate_auth_tokens k ch cr cfg ops health' req' q' = (q2, Ok resp2)"
      by (cases "generate_auth_tokens k ch cr cfg ops health' req' q'") (auto simp: is_ok_def split: result.splits)
    then show False
    proof (rule generate_auth_tokens_Ok)
      fix ip2 key2 pk2 c2
      assume "tokens_client k cr health' req' = Ok (ip2, key2, pk2)"
        "challenges_get_priority ops q' ip2 = Some c2"
      with tokens_client_Ok(1) that g show False by fastforce
    qed
  qed
  with t(2) g tokens_client_Ok(1) [OF t(1)] show ?thesis by blast
qed

end

section \<open>The service\<close>

locale auth_service = keyed_queue ops content empty + token_scheme k ch cr
  for ops :: "'q queue_ops" and content empty k ch cr
begin

lemma auth_inv_step:
  assumes inv: "auth_inv k ch cr ops s" and st: "auth_step k ch cr cfg ops s s'" and nf: "no_forgery s s'"
  shows "auth_inv k ch cr ops s'"
proof -
  note later = auth_inv_later [OF inv st] and keep = auth_inv_preserved [OF inv st]
  from st show ?thesis
  proof cases
    case (decide env req n ip c)
    have "good_challenge k s' ip c"
      using challenge_decision_new [OF decide(3)] by (auto simp: decide(1) good_challenge_def challenged_def)
    then show ?thesis by (intro keep) (auto simp: decide(1))
  next
    case (push ip c)
    with later(1) [OF push(2)] show ?thesis
      by (intro keep) (auto simp: challenges.get_push dest: in_remove1 split: if_splits)
  next
    case (lookup health req ip key pk c)
    have "good_challenge k s' ip c"
      using later(2) lookup(3) by (auto simp: pending_challenge_def rust_simps)
    with tokens_client_Ok [OF lookup(2)] show ?thesis by (intro keep) (auto simp: lookup(1))
  next
    case (issue req ip key pk c resp)
    note e = later(3) [OF issue(2)] and d = tokens_decision_Ok [OF issue(3)]
    have "challenged k s' ip pk (challenge c)" using e d(1) by (auto simp: good_challenge_def)
    then have "proved k cr s' ip pk" "vouched k s' ip pk"
      using e d(2,3) by (auto simp: proved_def issue(1) intro: challenged_vouched)
    then have g: "good_token k ch cr s' (token_value (resp_access_token resp)) (access_claims c)"
      "good_token k ch cr s' (token_value (resp_refresh_token resp)) (refresh_claims c)"
      using e d by (auto simp: good_token_def good_challenge_def)
    show ?thesis
    proof (rule keep)
      show "(req', ip', key', pk', c') \<in> set (to_issue s) \<or> good_challenge k s' ip' c' \<and>
          tr_remote_addr req' = Some ip' \<and> public_key_from_bytes cr (tr_client_pubkey req') = Some key' \<and>
          pubkey_try_from k key' = Some pk'"
        if "(req', ip', key', pk', c') \<in> set (to_issue s')" for req' ip' key' pk' c'
        using that by (auto simp: issue(1) dest: in_remove1)
      show "(tok, c') \<in> set (issued s) \<or> good_token k ch cr s' tok c'"
        if "(tok, c') \<in> set (issued s')" for tok c'
        using that g by (auto simp: issue(1))
    qed (auto simp: issue(1) challenges.get_remove split: if_splits)
  next
    case (admit env req)
    then show ?thesis by (intro keep) auto
  next
    case (dismiss env req n)
    then show ?thesis by (intro keep) auto
  next
    case (refuse req ip key pk c)
    then show ?thesis by (intro keep) (auto dest: in_remove1)
  next
    case (refresh health now now' tok c t)
    note r = refresh_access_token_Ok [OF refresh(2)]
    have "tok \<in> fst ` set (issued s)" using nf by (simp add: no_forgery_def refresh(1))
    then obtain c1 where c1: "(tok, c1) \<in> set (issued s)" by auto
    have g: "good_token k ch cr s' tok c1" by (rule later(4) [OF c1])
    then have "verify_with_key cr tok = Some (Rs256, de_ser_claims_from k ch c1)"
      by (auto simp: good_token_def intro: signed_verifies)
    with r(1) claims_roundtrip [of c1] have "client_ip c = client_ip c1" "client_pubkey c = client_pubkey c1"
      by auto
    with g r(2) have "good_token k ch cr s' (token_value t) c" by (simp add: good_token_def)
    then show ?thesis by (intro keep) (auto simp: refresh(1))
  next
    case (sweep clock q)
    have "challenges_get_priority ops q \<subseteq>\<^sub>m challenges_get_priority ops (store s)"
      by (rule challenges.sweep_subset [OF sweep(2)])
    then have "challenges_get_priority ops (store s) ip = Some c"
      if "challenges_get_priority ops q ip = Some c" for ip c
      using that by (metis domI map_le_def)
    then show ?thesis by (intro keep) (auto simp: sweep(1))
  qed
qed

lemma auth_inv_reachable: "auth_reachable k ch cr cfg ops empty s \<Longrightarrow> auth_inv k ch cr ops s"
proof (induction rule: auth_reachable.induct)
  case init
  then show ?case by (simp add: auth_inv_def auth_new_def challenges.get_empty)
qed (rule auth_inv_step)

lemma issued_token_provenance:
  assumes "auth_reachable k ch cr cfg ops empty s" "(tok, c) \<in> set (issued s)"
  shows "good_token k ch cr s tok c"
    and "auth_interceptor_call k ch cr Rs256 (HeaderText (BEARER @ tok)) = Ok (client_pubkey c)"
proof -
  show g: "good_token k ch cr s tok c"
    using auth_inv_reachable [OF assms(1)] assms(2) by (auto simp: auth_inv_def)
  then show "auth_interceptor_call k ch cr Rs256 (HeaderText (BEARER @ tok)) = Ok (client_pubkey c)"
    by (intro issued_token_accepted) (simp add: good_token_def)
qed

end

end
