(* ===== verification/Auth_Instances.thy ===== *)
theory Auth_Instances
  imports Auth_System Witness_Data "HOL-Library.Countable"
begin

text \<open>
  Concrete external functions that meet the interfaces of the authentication service: a queue that is
  an association list, second-precise timestamps, and tokens that spell out the number of their
  claims. The witnesses of the authentication properties use them.
\<close>

section \<open>A keyed priority queue\<close>

type_synonym alist_queue = "(ip_addr \<times> auth_challenge) list"

fun first_to_expire :: "ip_addr \<times> auth_challenge \<Rightarrow> alist_queue \<Rightarrow> ip_addr \<times> auth_challenge" where
  "first_to_expire e [] = e"
| "first_to_expire e (f # fs) = first_to_expire (if challenge_le (snd e) (snd f) then e else f) fs"

definition alist_peek :: "alist_queue \<Rightarrow> (ip_addr \<times> auth_challenge) option" where
  "alist_peek q = (case AList.clearjunk q of [] \<Rightarrow> None | e # es \<Rightarrow> Some (first_to_expire e es))"

definition alist_queue_ops :: "alist_queue queue_ops" where
  "alist_queue_ops =
     \<lparr>pq_peek = alist_peek,
      pq_pop = (\<lambda>q. case alist_peek q of None \<Rightarrow> q | Some (ip, _) \<Rightarrow> AList.delete ip q),
      pq_push = (\<lambda>ip c q. AList.update ip c q), pq_len = (\<lambda>q. length (AList.clearjunk q)),
      pq_get_priority = map_of, pq_remove = AList.delete\<rparr>"

lemma first_to_expire_in: "first_to_expire e es \<in> set (e # es)"
proof (induction e es rule: first_to_expire.induct)
  case (2 e f fs)
  then show ?case by (cases "challenge_le (snd e) (snd f)") auto
qed simp

lemma first_to_expire_le: "f \<in> set (e # es) \<Longrightarrow> challenge_le (snd (first_to_expire e es)) (snd f)"
proof (induction e es arbitrary: f rule: first_to_expire.induct)
  case (1 e)
  then show ?case by (simp add: challenge_le_def)
next
  case (2 e g gs)
  let ?m = "if challenge_le (snd e) (snd g) then e else g"
  have m: "challenge_le (snd ?m) (snd e)" "challenge_le (snd ?m) (snd g)" by (auto simp: challenge_le_def)
  have "challenge_le (snd (first_to_expire ?m gs)) (snd ?m)" by (rule "2.IH") simp
  moreover have "challenge_le (snd (first_to_expire ?m gs)) (snd f)" if "f \<in> set gs"
    using that by (intro "2.IH") simp
  ultimately show ?case using "2.prems" m by (auto simp: challenge_le_def)
qed

interpretation alist_queue: keyed_queue alist_queue_ops map_of "[]"
proof unfold_locales
  have in_junk: "x \<in> set (AList.clearjunk q) \<longleftrightarrow> map_of q (fst x) = Some (snd x)" for x and q :: alist_queue
    using map_of_eq_Some_iff [OF distinct_clearjunk [of q], of "fst x" "snd x"]
    by (simp add: map_of_clearjunk)
  fix q :: alist_queue and ip ip' c c'
  show "map_of [] = Map.empty" by simp
  show "finite (dom (map_of q))" by (rule finite_dom_map_of)
  show "pq_peek alist_queue_ops q = None \<longleftrightarrow> map_of q = Map.empty"
    using map_of_clearjunk [of q]
    by (cases "AList.clearjunk q") (auto simp: alist_queue_ops_def alist_peek_def)
  show "pq_len alist_queue_ops q = card (dom (map_of q))"
    using distinct_card [OF distinct_clearjunk [of q]] map_of_clearjunk [of q]
    by (simp add: alist_queue_ops_def dom_map_of_conv_image_fst [symmetric])
  show "map_of (pq_push alist_queue_ops ip c q) = (map_of q)(ip \<mapsto> c)"
    by (simp add: alist_queue_ops_def update_conv')
  show "map_of (pq_remove alist_queue_ops ip q) = (map_of q)(ip := None)"
    by (simp add: alist_queue_ops_def delete_conv')
  show "pq_get_priority alist_queue_ops q ip = map_of q ip" by (simp add: alist_queue_ops_def)
  assume p: "pq_peek alist_queue_ops q = Some (ip, c)"
  then obtain e es where j: "AList.clearjunk q = e # es" "(ip, c) = first_to_expire e es"
    by (auto simp: alist_queue_ops_def alist_peek_def split: list.splits)
  have "(ip, c) \<in> set (AList.clearjunk q)" using first_to_expire_in [of e es] j by simp
  then show "map_of q ip = Some c" by (simp add: in_junk)
  show "map_of (pq_pop alist_queue_ops q) = (map_of q)(ip := None)"
    using p by (simp add: alist_queue_ops_def delete_conv')
  assume "map_of q ip' = Some c'"
  then have "(ip', c') \<in> set (e # es)" using in_junk [of "(ip', c')" q] j(1) by simp
  from first_to_expire_le [OF this] show "challenge_le c c'" using j(2) by (metis snd_conv)
qed

section \<open>Time and tokens\<close>

definition demo_chrono :: chrono where
  "demo_chrono = \<lparr>timestamp = (\<lambda>t. t div 1000000000), from_timestamp = (\<lambda>s. Some (s * 1000000000)),
     utc_add = (\<lambda>t d. Some (t + d))\<rparr>"

definition algorithm_code :: "algorithm_type \<Rightarrow> nat" where
  "algorithm_code a = (case a of Rs256 \<Rightarrow> 0 | OtherAlgorithm n \<Rightarrow> Suc n)"

definition algorithm_of :: "nat \<Rightarrow> algorithm_type" where
  "algorithm_of n = (case n of 0 \<Rightarrow> Rs256 | Suc m \<Rightarrow> OtherAlgorithm m)"

definition text_code :: "string \<Rightarrow> nat" where
  "text_code s = list_encode (map of_char s)"

definition text_of :: "nat \<Rightarrow> string" where
  "text_of n = map char_of (list_decode n)"

definition demo_token :: "algorithm_type \<Rightarrow> de_ser_claims \<Rightarrow> string" where
  "demo_token a d = replicate (list_encode [algorithm_code a, text_code (ds_client_ip d),
     text_code (ds_client_pubkey d), int_encode (ds_expires_at_unix_ts d)]) (CHR ''t'')"

definition demo_verify :: "string \<Rightarrow> (algorithm_type \<times> de_ser_claims) option" where
  "demo_verify tok =
     (case list_decode (length tok) of
        [a, ip, pk, t] \<Rightarrow> Some (algorithm_of a, \<lparr>ds_client_ip = text_of ip, ds_client_pubkey = text_of pk,
          ds_expires_at_unix_ts = int_decode t\<rparr>)
      | _ \<Rightarrow> None)"

definition demo_crypto :: crypto where
  "demo_crypto = \<lparr>sign_with_key = (\<lambda>a d. Some (demo_token a d)), verify_with_key = demo_verify,
     public_key_from_bytes = (\<lambda>bs. if length bs = 32 then Some bs else None),
     signature_from_bytes = Some, verify_signature = (\<lambda>key msg sig. sig = replicate 64 (hd key))\<rparr>"

lemma algorithm_of_code [simp]: "algorithm_of (algorithm_code a) = a"
  by (cases a) (simp_all add: algorithm_of_def algorithm_code_def)

lemma text_of_code [simp]: "text_of (text_code s) = s"
  by (simp add: text_of_def text_code_def comp_def)

lemma demo_verify_token: "demo_verify (demo_token a d) = Some (a, d)"
  by (simp only: demo_verify_def demo_token_def length_replicate list_encode_inverse)
    (simp add: int_encode_inverse)

interpretation demo_scheme: token_scheme demo_sdk demo_chrono demo_crypto
proof unfold_locales
  show "pubkey_from_str demo_sdk (pubkey_to_string demo_sdk pk) = Some pk" for pk
  proof -
    have "replicate (unat pk) (CHR ''k'') \<noteq> ''*''" by (cases "unat pk") auto
    then show ?thesis by (simp add: demo_sdk_def)
  qed
  show "v6_from_str (ip_text demo_sdk) (v6_display (ip_text demo_sdk) a) = Some a" for a
    by (simp add: demo_sdk_def demo_v6_def list_all_iff)
  show "t' \<le> t \<and> t < t' + 1000000000"
    if "from_timestamp demo_chrono (timestamp demo_chrono t) = Some t'" for t t'
    using that by (auto simp: demo_chrono_def; presburger)
  show "from_timestamp demo_chrono (timestamp demo_chrono t) \<noteq> None" for t by (simp add: demo_chrono_def)
  show "verify_with_key demo_crypto tok = Some (alg, d)" if "sign_with_key demo_crypto alg d = Some tok" for alg d tok
    using that by (auto simp: demo_crypto_def demo_verify_token)
  show "CHR '' '' \<notin> set tok" if "sign_with_key demo_crypto alg d = Some tok" for alg d tok
    using that by (auto simp: demo_crypto_def demo_token_def)
  show "CHR '':'' \<in> set (v6_display (ip_text demo_sdk) a)" for a
    by (simp add: demo_sdk_def demo_v6_def)
qed

interpretation demo_auth: auth_service alist_queue_ops map_of "[]" demo_sdk demo_chrono demo_crypto ..

end
