(* ===== verification/Auth_Theorems.thy ===== *)
theory Auth_Theorems
  imports Auth_Instances
begin

text \<open>The statements about authentication.\<close>

section \<open>Where tokens come from\<close>

text \<open>
  C4: every token the service ever issues, under any interleaving of requests and of the expiration
  task and assuming tokens cannot be forged, is an RS256-signed token whose claims name an address and
  a public key such that, during the run, the validator auther approved the key in a challenge
  request from that address, for which the service drew a random challenge, and a token request from
  that address carried the key, the key's text with exactly this challenge, and the bytes of a signature
  of that text that verifies with the key. The interceptor maps such a token to exactly that key.
\<close>

theorem auth_token_provenance:
  assumes "auth_service ops content q0 k ch cr"
    and "auth_reachable k ch cr cfg ops q0 s" "(tok, c) \<in> set (issued s)"
  shows "sign_with_key cr Rs256 (de_ser_claims_from k ch c) = Some tok \<and>
    (\<exists>(env, creq)\<in>set (challenge_log s). \<exists>req\<in>set (tokens_log s). \<exists>key sig.
       ce_is_authorized env (client_pubkey c) \<and> cr_remote_addr creq = Some (client_ip c) \<and>
       pubkey_try_from k (cr_pubkey creq) = Some (client_pubkey c) \<and>
       tr_remote_addr req = Some (client_ip c) \<and>
       public_key_from_bytes cr (tr_client_pubkey req) = Some key \<and>
       pubkey_try_from k key = Some (client_pubkey c) \<and>
       tr_challenge req = pubkey_to_string k (client_pubkey c) @ ''-'' @ generate_challenge_token (ce_sample env) \<and>
       signature_from_bytes cr (tr_signed_challenge req) = Some sig \<and>
       verify_signature cr key (tr_challenge req) sig) \<and>
    auth_interceptor_call k ch cr Rs256 (HeaderText (BEARER @ tok)) = Ok (client_pubkey c)"
proof -
  have g: "good_token k ch cr s tok c" by (rule auth_service.issued_token_provenance(1) [OF assms])
  have i: "auth_interceptor_call k ch cr Rs256 (HeaderText (BEARER @ tok)) = Ok (client_pubkey c)"
    by (rule auth_service.issued_token_provenance(2) [OF assms])
  from g have "proved k cr s (client_ip c) (client_pubkey c)" by (simp add: good_token_def)
  then show ?thesis using g i unfolding good_token_def proved_def challenged_def by fast
qed

definition demo_auth_config :: auth_config where
  "demo_auth_config = \<lparr>access_token_ttl = 1800000000000, refresh_token_ttl = 180000000000000,
     challenge_ttl = 1800000000000, pubkey_bytes = 32, signature_bytes = 64, role_validator = 1\<rparr>"

definition demo_key :: bytes where
  "demo_key = 3 # replicate 31 0"

definition demo_challenge_request :: challenge_request where
  "demo_challenge_request = \<lparr>cr_remote_addr = Some (V4 10), cr_role = 1, cr_pubkey = demo_key\<rparr>"

definition demo_challenge_env :: "naive_date_time \<Rightarrow> challenge_env" where
  "demo_challenge_env now = \<lparr>ce_health = Healthy, ce_now = now, ce_now_access = now, ce_now_refresh = now,
     ce_now_challenge = now, ce_sample = (\<lambda>_. CHR ''x''), ce_is_authorized = (\<lambda>pk. pk = 3)\<rparr>"

definition demo_challenge :: "naive_date_time \<Rightarrow> auth_challenge" where
  "demo_challenge now = \<lparr>challenge = ''xxxxxxxxx'',
     access_claims = \<lparr>client_ip = V4 10, client_pubkey = 3, claims_expires_at_utc = now + 1800000000000\<rparr>,
     refresh_claims = \<lparr>client_ip = V4 10, client_pubkey = 3, claims_expires_at_utc = now + 180000000000000\<rparr>,
     challenge_expires_at_utc = now + 1800000000000\<rparr>"

definition demo_tokens_request :: tokens_request where
  "demo_tokens_request = \<lparr>tr_remote_addr = Some (V4 10), tr_client_pubkey = demo_key,
     tr_challenge = ''kkk-xxxxxxxxx'', tr_signed_challenge = replicate 64 3\<rparr>"

lemma demo_pubkey: "pubkey_try_from demo_sdk demo_key = Some 3" "length demo_key = 32" "hd demo_key = 3"
  by (simp_all add: demo_sdk_def demo_key_def)

lemma demo_new_challenge:
  assumes "n < AUTH_CHALLENGES_CAPACITY" "pending (V4 10) = None"
  shows "challenge_decision demo_sdk demo_chrono demo_auth_config (demo_challenge_env now)
      demo_challenge_request n pending = Ok (NewChallenge (V4 10) (demo_challenge now))"
  using assms
  by (simp add: challenge_decision_def auth_check_health_def demo_challenge_env_def
      demo_challenge_request_def request_ip_def ok_or_def validated_pubkey_def demo_auth_config_def
      demo_pubkey new_challenge_def generate_challenge_token_def upt_rec demo_chrono_def unwrap_def demo_challenge_def)

lemma demo_tokens_client:
  "tokens_client demo_sdk demo_crypto Healthy demo_tokens_request = Ok (V4 10, demo_key, 3)"
  by (simp add: tokens_client_def auth_check_health_def request_ip_def ok_or_def demo_tokens_request_def
      demo_crypto_def demo_pubkey)

lemma demo_tokens_decision:
  obtains resp where "tokens_decision demo_sdk demo_chrono demo_crypto demo_auth_config demo_tokens_request
      demo_key 3 (demo_challenge now) = Ok resp"
proof -
  have s: "pubkey_to_string demo_sdk 3 = ''kkk''" 
    by (simp add: demo_sdk_def) (simp add: numeral_3_eq_3)
  have "\<exists>resp. tokens_decision demo_sdk demo_chrono demo_crypto demo_auth_config demo_tokens_request
      demo_key 3 (demo_challenge now) = Ok resp"
    by (simp add: tokens_decision_def expected_challenge_def s demo_challenge_def demo_tokens_request_def
        demo_auth_config_def demo_crypto_def ok_or_def demo_pubkey sign_claims_def)
  with that show ?thesis by blast
qed

lemma quiet_step:
  "auth_reachable k ch cr cfg ops q s \<Longrightarrow> auth_step k ch cr cfg ops s s' \<Longrightarrow>
     refresh_log s' = refresh_log s \<Longrightarrow> auth_reachable k ch cr cfg ops q s'"
  by (rule auth_reachable.step) (auto simp: no_forgery_def)

lemma demo_auth_run:
  "\<exists>s tok. auth_reachable demo_sdk demo_chrono demo_crypto demo_auth_config alist_queue_ops [] s \<and>
     (tok, access_claims (demo_challenge 0)) \<in> set (issued s) \<and>
     challenge_log s = [(demo_challenge_env 0, demo_challenge_request)]"
proof -
  let ?R = "auth_reachable demo_sdk demo_chrono demo_crypto demo_auth_config alist_queue_ops []"
  define s0 where "s0 = auth_new ([] :: alist_queue)"
  let ?n = "challenges_len alist_queue_ops (store s0)"
  define a0 where "a0 = s0\<lparr>admitted := (demo_challenge_env 0, demo_challenge_request, ?n) # admitted s0,
      in_flight_peak := max (in_flight_peak s0) (Suc (in_flight s0))\<rparr>"
  define s1 where "s1 = a0\<lparr>admitted := remove1 (demo_challenge_env 0, demo_challenge_request, ?n) (admitted a0),
      to_push := (V4 10, demo_challenge 0) # to_push a0,
      challenge_log := (demo_challenge_env 0, demo_challenge_request) # challenge_log a0\<rparr>"
  define s2 where "s2 = s1\<lparr>store := challenges_push alist_queue_ops (V4 10) (demo_challenge 0) (store s1),
      to_push := remove1 (V4 10, demo_challenge 0) (to_push s1)\<rparr>"
  define s3 where
    "s3 = s2\<lparr>to_issue := (demo_tokens_request, V4 10, demo_key, 3, demo_challenge 0) # to_issue s2\<rparr>"
  have r0: "?R s0" unfolding s0_def by (rule auth_reachable.init)
  have n: "?n < AUTH_CHALLENGES_CAPACITY"
    by (simp add: s0_def auth_new_def challenges_len_def alist_queue_ops_def AUTH_CHALLENGES_CAPACITY_def)
  have "ce_health (demo_challenge_env 0) = Healthy" by (simp add: demo_challenge_env_def)
  from quiet_step [OF r0 auth_step.admit [OF this n]] have ra: "?R a0" by (simp add: a0_def)
  have adm: "(demo_challenge_env 0, demo_challenge_request, ?n) \<in> set (admitted a0)" by (simp add: a0_def)
  have "challenges_get_priority alist_queue_ops (store a0) (V4 10) = None"
    by (simp add: a0_def s0_def auth_new_def challenges_get_priority_def alist_queue_ops_def)
  with n have "challenge_decision demo_sdk demo_chrono demo_auth_config (demo_challenge_env 0)
      demo_challenge_request ?n (challenges_get_priority alist_queue_ops (store a0))
      = Ok (NewChallenge (V4 10) (demo_challenge 0))"
    by (intro demo_new_challenge)
  from quiet_step [OF ra auth_step.decide [OF adm this]] have r1: "?R s1" by (simp add: s1_def)
  have "(V4 10, demo_challenge 0) \<in> set (to_push s1)" by (simp add: s1_def)
  from quiet_step [OF r1 auth_step.push [OF this]] have r2: "?R s2" by (simp add: s2_def)
  have "pending_challenge (challenges_get_priority alist_queue_ops (store s2) (V4 10)) = Ok (demo_challenge 0)"
    by (simp add: s2_def challenges_get_priority_def challenges_push_def alist_queue_ops_def update_conv'
        pending_challenge_def ok_or_def)
  from quiet_step [OF r2 auth_step.lookup [OF demo_tokens_client this]] have r3: "?R s3"
    by (simp add: s3_def)
  obtain resp where resp: "tokens_decision demo_sdk demo_chrono demo_crypto demo_auth_config
      demo_tokens_request demo_key 3 (demo_challenge 0) = Ok resp" by (rule demo_tokens_decision)
  have "(demo_tokens_request, V4 10, demo_key, 3, demo_challenge 0) \<in> set (to_issue s3)" by (simp add: s3_def)
  note r4 = quiet_step [OF r3 auth_step.issue [OF this resp]]
  show ?thesis
    by (intro exI [of _ "token_value (resp_access_token resp)"] exI conjI, rule r4)
      (simp_all add: s3_def s2_def s1_def a0_def s0_def auth_new_def)
qed

theorem auth_token_provenance_witness:
  "\<exists>s tok c. auth_reachable demo_sdk demo_chrono demo_crypto demo_auth_config alist_queue_ops [] s \<and>
     (tok, c) \<in> set (issued s) \<and> tokens_log s \<noteq> [] \<and>
     auth_interceptor_call demo_sdk demo_chrono demo_crypto Rs256 (HeaderText (BEARER @ tok)) = Ok (client_pubkey c)"
proof -
  obtain s tok where s: "auth_reachable demo_sdk demo_chrono demo_crypto demo_auth_config alist_queue_ops [] s"
    "(tok, access_claims (demo_challenge 0)) \<in> set (issued s)" using demo_auth_run by blast
  from auth_token_provenance [OF demo_auth.auth_service_axioms s] s show ?thesis by fastforce
qed

section \<open>The handlers\<close>

text \<open>
  C31: the interceptor accepts a request exactly when its authorization header is the text
  \<open>Bearer\<close> and a token with no further \<open>Bearer\<close> in it, the token verifies under the expected algorithm
  and its claims can be read; it then attaches the public key of the claims.
\<close>

theorem auth_interceptor_call_exact:
  "auth_interceptor_call k ch cr algo header = Ok pk \<longleftrightarrow>
     (\<exists>tok d c. header = HeaderText (BEARER @ tok) \<and> \<not> sublist BEARER tok \<and>
        verify_with_key cr tok = Some (algo, d) \<and> claims_from k ch d = Ok c \<and> pk = client_pubkey c)"
  (is "?L \<longleftrightarrow> ?R")
proof
  assume ?L
  then obtain d c where d: "jwt_from_header cr algo header = Ok d" "claims_from k ch d = Ok c" "pk = client_pubkey c"
    by (auto simp: auth_interceptor_call_def rust_simps)
  from d(1) obtain h where h: "header = HeaderText h" "starts_with BEARER h" "length (split_str BEARER h) = 2"
    "verify_with_key cr (split_str BEARER h ! 1) = Some (algo, d)"
    by (auto simp: jwt_from_header_def Let_def split: auth_header.splits if_splits option.splits prod.splits)
  define tok where "tok = drop (length BEARER) h"
  have ht: "h = BEARER @ tok"
    using h(2) unfolding starts_with_def tok_def by (metis append_take_drop_id)
  have ns: "\<not> sublist BEARER tok"
    using split_str_two_iff [of BEARER h] h(2,3) by (simp add: BEARER_def tok_def)
  have "split_str BEARER h = [[], tok]"
    unfolding ht by (rule split_str_once) (use ns in \<open>simp_all add: BEARER_def\<close>)
  with h d ht ns show ?R by auto
next
  assume ?R
  then obtain tok d c where r: "header = HeaderText (BEARER @ tok)" "\<not> sublist BEARER tok"
    "verify_with_key cr tok = Some (algo, d)" "claims_from k ch d = Ok c" "pk = client_pubkey c" by blast
  have "split_str BEARER (BEARER @ tok) = [[], tok]"
    by (rule split_str_once) (use r(2) in \<open>simp_all add: BEARER_def\<close>)
  with r show ?L by (simp add: auth_interceptor_call_def jwt_from_header_def starts_with_def)
qed

text \<open>
  The interceptor does not look at the expiration: a token the service signed stays usable after
  its claims have expired, from any address.
\<close>

lemma auth_interceptor_ignores_expiry:
  assumes "token_scheme k ch cr" "sign_with_key cr Rs256 (de_ser_claims_from k ch c) = Some tok"
    and "claims_is_expired now c"
  shows "auth_interceptor_call k ch cr Rs256 (HeaderText (BEARER @ tok)) = Ok (client_pubkey c)"
  by (rule token_scheme.issued_token_accepted [OF assms(1,2)])

text \<open>
  C32: \<open>generate_auth_challenge\<close>. A call that no other request interrupts succeeds exactly if the relayer is healthy, the
  store is not full, the caller's address is known, and either an unexpired challenge is pending for the address or
  the caller is an authorized validator with a key of the right length and the expirations can be represented. In the
  first case it repeats the pending challenge and leaves the store alone; in the second the store changes only at the
  address, to the new random challenge with the claims for that address and key. A call that fails leaves the store
  alone, and it panics only for expirations that cannot be represented. Under concurrent calls, which can all pass the
  check of the capacity before one of them stores its challenge, the store stays below its capacity plus the largest
  number of calls that were in that section at one time.
\<close>

theorem generate_auth_challenge_contract:
  assumes "keyed_queue ops content q0"
    and "generate_auth_challenge k ch cfg ops env req q = (q', r)"
  shows "(is_ok r \<longleftrightarrow> ce_health env = Healthy \<and> challenges_len ops q < AUTH_CHALLENGES_CAPACITY \<and>
      (\<exists>ip. cr_remote_addr req = Some ip \<and>
         (live_challenge ops (ce_now env) q ip \<noteq> None \<or> (\<exists>pk. may_ask k cfg env req pk) \<and> expirations ch cfg env \<noteq> None))) \<and>
    (\<forall>chal. r = Ok chal \<longrightarrow> (\<exists>ip. cr_remote_addr req = Some ip \<and>
      (case live_challenge ops (ce_now env) q ip of
         Some c \<Rightarrow> q' = q \<and> chal = challenge c
       | None \<Rightarrow> \<exists>pk ts. may_ask k cfg env req pk \<and> expirations ch cfg env = Some ts \<and>
           chal = generate_challenge_token (ce_sample env) \<and>
           challenges_get_priority ops q' = (challenges_get_priority ops q)(ip \<mapsto> challenge_for env ip pk ts)))) \<and>
    (\<not> is_ok r \<longrightarrow> q' = q) \<and>
    (r = Panic \<longrightarrow> (\<exists>pk. may_ask k cfg env req pk) \<and> expirations ch cfg env = None) \<and>
    (\<forall>s. auth_reachable k ch cr cfg ops q0 s \<longrightarrow>
       challenges_len ops (store s) < AUTH_CHALLENGES_CAPACITY + in_flight_peak s)"
proof -
  note a = keyed_queue.generate_auth_challenge_answer [OF assms]
  have "challenges_len ops (store s) < AUTH_CHALLENGES_CAPACITY + in_flight_peak s"
    if "auth_reachable k ch cr cfg ops q0 s" for s
    using keyed_queue.challenges_len_reachable [OF assms(1) that] by simp
  moreover have "(\<exists>pk. may_ask k cfg env req pk) \<and> expirations ch cfg env = None" if "r = Panic"
    using a(2) that by blast
  ultimately show ?thesis using a(1,4) a(3) by blast
qed

lemma demo_challenge_call:
  "\<exists>q'. generate_auth_challenge demo_sdk demo_chrono demo_auth_config alist_queue_ops (demo_challenge_env 0)
     demo_challenge_request [] = (q', Ok ''xxxxxxxxx'')"
proof -
  have "challenges_get_priority alist_queue_ops [] (V4 10) = None" "challenges_len alist_queue_ops [] = 0"
    by (simp_all add: challenges_get_priority_def challenges_len_def alist_queue_ops_def)
  then show ?thesis
    using demo_new_challenge [of 0 "challenges_get_priority alist_queue_ops []" 0]
    by (simp add: generate_auth_challenge_def AUTH_CHALLENGES_CAPACITY_def demo_challenge_def)
qed

theorem generate_auth_challenge_contract_witness:
  "\<exists>q' c. generate_auth_challenge demo_sdk demo_chrono demo_auth_config alist_queue_ops (demo_challenge_env 0)
       demo_challenge_request [] = (q', Ok ''xxxxxxxxx'') \<and>
     challenges_get_priority alist_queue_ops q' (V4 10) = Some c \<and> challenge c = ''xxxxxxxxx''"
proof -
  obtain q' where run: "generate_auth_challenge demo_sdk demo_chrono demo_auth_config alist_queue_ops
      (demo_challenge_env 0) demo_challenge_request [] = (q', Ok ''xxxxxxxxx'')"
    using demo_challenge_call by blast
  have "live_challenge alist_queue_ops now [] ip = None" for now ip
    by (simp add: live_challenge_def challenges_get_priority_def alist_queue_ops_def)
  with generate_auth_challenge_contract [OF alist_queue.keyed_queue_axioms run, where cr = demo_crypto,
      THEN conjunct2, THEN conjunct1, rule_format, OF refl]
  obtain pk ts where "challenges_get_priority alist_queue_ops q' =
      (challenges_get_priority alist_queue_ops [])(V4 10 \<mapsto> challenge_for (demo_challenge_env 0) (V4 10) pk ts)"
    "''xxxxxxxxx'' = generate_challenge_token (ce_sample (demo_challenge_env 0))"
    by (auto simp: demo_challenge_request_def)
  then have "challenges_get_priority alist_queue_ops q' (V4 10) = Some (challenge_for (demo_challenge_env 0) (V4 10) pk ts)"
    "challenge (challenge_for (demo_challenge_env 0) (V4 10) pk ts) = ''xxxxxxxxx''"
    by (simp_all add: challenge_for_def)
  with run show ?thesis by blast
qed

text \<open>
  \<open>generate_auth_tokens\<close> uses a challenge up. A successful call found a challenge pending for the
  caller's address and removes it, leaving all other addresses alone; until a new challenge is made,
  no token request from that address succeeds.
\<close>

lemma generate_auth_tokens_single_use:
  assumes "keyed_queue ops content q0"
    and "generate_auth_tokens k ch cr cfg ops health req q = (q', Ok resp)"
  shows "\<exists>ip c. tr_remote_addr req = Some ip \<and> challenges_get_priority ops q ip = Some c \<and>
    challenges_get_priority ops q' = (challenges_get_priority ops q)(ip := None) \<and>
    (\<forall>health' req'. tr_remote_addr req' = Some ip \<longrightarrow>
       \<not> is_ok (snd (generate_auth_tokens k ch cr cfg ops health' req' q')))"
  by (rule keyed_queue.generate_auth_tokens_store [OF assms])

lemma generate_auth_tokens_single_use_example:
  "\<exists>q' resp. generate_auth_tokens demo_sdk demo_chrono demo_crypto demo_auth_config alist_queue_ops Healthy
       demo_tokens_request [(V4 10, demo_challenge 0)] = (q', Ok resp) \<and>
     \<not> is_ok (snd (generate_auth_tokens demo_sdk demo_chrono demo_crypto demo_auth_config alist_queue_ops
       Healthy demo_tokens_request q'))"
proof -
  let ?q = "[(V4 10, demo_challenge 0)]"
  obtain resp where resp: "tokens_decision demo_sdk demo_chrono demo_crypto demo_auth_config
      demo_tokens_request demo_key 3 (demo_challenge 0) = Ok resp" by (rule demo_tokens_decision)
  have "challenges_get_priority alist_queue_ops ?q (V4 10) = Some (demo_challenge 0)"
    by (simp add: challenges_get_priority_def alist_queue_ops_def)
  then have run: "generate_auth_tokens demo_sdk demo_chrono demo_crypto demo_auth_config alist_queue_ops Healthy
       demo_tokens_request ?q = (challenges_remove alist_queue_ops (V4 10) ?q, Ok resp)"
    using resp by (simp add: generate_auth_tokens_def demo_tokens_client pending_challenge_def ok_or_def)
  from generate_auth_tokens_single_use [OF alist_queue.keyed_queue_axioms run] run show ?thesis
    by (auto simp: demo_tokens_request_def)
qed

text \<open>
  C17: a validator gets in. If the relayer is healthy, the store is not full and no unexpired challenge is pending for
  the validator's address, the authorized validator is given a challenge. As long as this challenge stays pending,
  whatever else happens to the store in between, the token request that carries the validator's key, the text of
  the key and the challenge, and a signature of this text that verifies, is answered with two tokens; the interceptor
  maps the access token to the validator's key, their expirations are those of the claims, and the challenge is used
  up while every other challenge stays.
\<close>

theorem validator_handshake:
  assumes "keyed_queue ops content q0" "token_scheme k ch cr"
    and "ce_health env = Healthy" "challenges_len ops q < AUTH_CHALLENGES_CAPACITY"
      "cr_remote_addr creq = Some ip" "live_challenge ops (ce_now env) q ip = None"
    and "may_ask k cfg env creq pk" "expirations ch cfg env = Some (ta, tr, tc)"
    and "tr_remote_addr treq = Some ip" "public_key_from_bytes cr (tr_client_pubkey treq) = Some key"
      "pubkey_try_from k key = Some pk"
    and "signature_bytes cfg = 64" "length (tr_signed_challenge treq) = 64"
      "signature_from_bytes cr (tr_signed_challenge treq) = Some sig"
      "verify_signature cr key (tr_challenge treq) sig"
    and "\<forall>d. sign_with_key cr Rs256 d \<noteq> None"
  shows "\<exists>q1 chal. generate_auth_challenge k ch cfg ops env creq q = (q1, Ok chal) \<and>
    (\<forall>q2. challenges_get_priority ops q2 ip = challenges_get_priority ops q1 ip \<and>
       tr_challenge treq = pubkey_to_string k pk @ ''-'' @ chal \<longrightarrow>
       (\<exists>q3 resp. generate_auth_tokens k ch cr cfg ops Healthy treq q2 = (q3, Ok resp) \<and>
          challenges_get_priority ops q3 = (challenges_get_priority ops q2)(ip := None) \<and>
          auth_interceptor_call k ch cr Rs256 (HeaderText (BEARER @ token_value (resp_access_token resp))) = Ok pk \<and>
          token_expires_seconds (resp_access_token resp) = timestamp ch ta \<and>
          token_expires_seconds (resp_refresh_token resp) = timestamp ch tr))"
proof -
  let ?c = "challenge_for env ip pk (ta, tr, tc)"
  obtain q1 r where run: "generate_auth_challenge k ch cfg ops env creq q = (q1, r)" by fastforce
  note a = keyed_queue.generate_auth_challenge_answer [OF assms(1) run]
  have "is_ok r" using a(1) assms(3-8) by auto
  then obtain chal where r: "r = Ok chal" by (auto simp: is_ok_def split: result.splits)
  from a(3) [OF r] assms(5,6,8) obtain pk' where q1: "may_ask k cfg env creq pk'" "chal = generate_challenge_token (ce_sample env)"
    "challenges_get_priority ops q1 ip = Some (challenge_for env ip pk' (ta, tr, tc))" by auto
  with may_ask_unique [OF assms(7) q1(1)] have pending: "challenges_get_priority ops q1 ip = Some ?c" by simp
  obtain acc ref where signed: "sign_with_key cr Rs256 (de_ser_claims_from k ch (access_claims ?c)) = Some acc"
    "sign_with_key cr Rs256 (de_ser_claims_from k ch (refresh_claims ?c)) = Some ref"
    using assms(16) by (meson not_None_eq)
  have "\<exists>q3 resp. generate_auth_tokens k ch cr cfg ops Healthy treq q2 = (q3, Ok resp) \<and>
      challenges_get_priority ops q3 = (challenges_get_priority ops q2)(ip := None) \<and>
      auth_interceptor_call k ch cr Rs256 (HeaderText (BEARER @ token_value (resp_access_token resp))) = Ok pk \<and>
      token_expires_seconds (resp_access_token resp) = timestamp ch ta \<and>
      token_expires_seconds (resp_refresh_token resp) = timestamp ch tr"
    if q2: "challenges_get_priority ops q2 ip = challenges_get_priority ops q1 ip"
      and said: "tr_challenge treq = pubkey_to_string k pk @ ''-'' @ chal" for q2
  proof -
    let ?resp = "\<lparr>resp_access_token = \<lparr>token_value = acc, token_expires_seconds = timestamp ch ta\<rparr>,
        resp_refresh_token = \<lparr>token_value = ref, token_expires_seconds = timestamp ch tr\<rparr>\<rparr>"
    have "tokens_client k cr Healthy treq = Ok (ip, key, pk)"
      using assms(9-11) by (simp add: tokens_client_def auth_check_health_def request_ip_def ok_or_def)
    moreover have "tokens_decision k ch cr cfg treq key pk ?c = Ok ?resp"
      using assms(12-15) signed said q1(2)
      by (simp add: tokens_decision_def expected_challenge_def challenge_for_def ok_or_def sign_claims_def)
    ultimately have "generate_auth_tokens k ch cr cfg ops Healthy treq q2 = (challenges_remove ops ip q2, Ok ?resp)"
      using q2 pending by (simp add: generate_auth_tokens_def pending_challenge_def ok_or_def)
    moreover have "auth_interceptor_call k ch cr Rs256 (HeaderText (BEARER @ acc)) = Ok pk"
      using token_scheme.issued_token_accepted [OF assms(2) signed(1)] by (simp add: challenge_for_def)
    moreover have "challenges_get_priority ops (challenges_remove ops ip q2) = (challenges_get_priority ops q2)(ip := None)"
      by (simp add: challenges_get_priority_def challenges_remove_def keyed_queue.get_content [OF assms(1)]
          keyed_queue.content_remove [OF assms(1)] fun_eq_iff)
    ultimately show ?thesis by (intro exI [of _ "challenges_remove ops ip q2"] exI [of _ ?resp]) simp
  qed
  with run r show ?thesis by blast
qed

theorem validator_handshake_witness:
  "\<exists>q1 q3 resp. generate_auth_challenge demo_sdk demo_chrono demo_auth_config alist_queue_ops (demo_challenge_env 0)
       demo_challenge_request [] = (q1, Ok ''xxxxxxxxx'') \<and>
     generate_auth_tokens demo_sdk demo_chrono demo_crypto demo_auth_config alist_queue_ops Healthy demo_tokens_request q1
       = (q3, Ok resp) \<and>
     auth_interceptor_call demo_sdk demo_chrono demo_crypto Rs256
       (HeaderText (BEARER @ token_value (resp_access_token resp))) = Ok 3"
proof -
  let ?env = "demo_challenge_env 0"
  obtain q1 where run: "generate_auth_challenge demo_sdk demo_chrono demo_auth_config alist_queue_ops ?env
      demo_challenge_request [] = (q1, Ok ''xxxxxxxxx'')" using demo_challenge_call by blast
  have h: "ce_health ?env = Healthy" "challenges_len alist_queue_ops [] < AUTH_CHALLENGES_CAPACITY"
    "cr_remote_addr demo_challenge_request = Some (V4 10)" "live_challenge alist_queue_ops (ce_now ?env) [] (V4 10) = None"
    by (simp_all add: demo_challenge_env_def challenges_len_def alist_queue_ops_def AUTH_CHALLENGES_CAPACITY_def
        demo_challenge_request_def live_challenge_def challenges_get_priority_def)
  have ask: "may_ask demo_sdk demo_auth_config ?env demo_challenge_request 3"
    "expirations demo_chrono demo_auth_config ?env = Some (1800000000000, 180000000000000, 1800000000000)"
    by (simp_all add: may_ask_def expirations_def demo_auth_config_def demo_challenge_request_def demo_challenge_env_def
        demo_pubkey demo_chrono_def)
  have treq: "tr_remote_addr demo_tokens_request = Some (V4 10)"
    "public_key_from_bytes demo_crypto (tr_client_pubkey demo_tokens_request) = Some demo_key"
    "pubkey_try_from demo_sdk demo_key = Some 3" "signature_bytes demo_auth_config = 64"
    "length (tr_signed_challenge demo_tokens_request) = 64"
    "signature_from_bytes demo_crypto (tr_signed_challenge demo_tokens_request) = Some (replicate 64 3)"
    "verify_signature demo_crypto demo_key (tr_challenge demo_tokens_request) (replicate 64 3)"
    "\<forall>d. sign_with_key demo_crypto Rs256 d \<noteq> None"
    by (simp_all add: demo_tokens_request_def demo_crypto_def demo_pubkey demo_auth_config_def)
  have "pubkey_to_string demo_sdk 3 = ''kkk''"
    by (simp add: demo_sdk_def) (simp add: numeral_3_eq_3)
  then have said: "tr_challenge demo_tokens_request = pubkey_to_string demo_sdk 3 @ ''-'' @ ''xxxxxxxxx''"
    by (simp add: demo_tokens_request_def)
  from validator_handshake [OF alist_queue.keyed_queue_axioms demo_scheme.token_scheme_axioms h ask treq] run said
  show ?thesis by auto
qed

text \<open>
  C33: the expiration task. A sweep of the pending challenges always returns. If the clock does not run
  backwards before its first reading, no challenge that had expired when the sweep began is left;
  no challenge that is unexpired at every reading is removed, and nothing is added or altered.
\<close>

theorem remove_all_expired_sweeps:
  assumes "keyed_queue ops content q0"
  shows "\<exists>q'. remove_all_expired ops clock 0 q = Some q' \<and>
    challenges_get_priority ops q' \<subseteq>\<^sub>m challenges_get_priority ops q \<and>
    ((\<forall>i. clock 0 \<le> clock i) \<longrightarrow> (\<forall>ip c. challenges_get_priority ops q' ip = Some c \<longrightarrow>
       \<not> challenge_is_expired (clock 0) c)) \<and>
    (\<forall>ip c. challenges_get_priority ops q ip = Some c \<and> (\<forall>i. \<not> challenge_is_expired (clock i) c) \<longrightarrow>
       challenges_get_priority ops q' ip = Some c)"
proof -
  obtain q' where q': "remove_all_expired ops clock 0 q = Some q'"
    using keyed_queue.remove_all_expired_returns [OF assms] by blast
  have g: "challenges_get_priority ops q = content q" for q
    using keyed_queue.get_content [OF assms] by (simp add: challenges_get_priority_def fun_eq_iff)
  from keyed_queue.remove_all_expired_content [OF assms q', of 0] q' show ?thesis
    unfolding g by blast
qed

theorem remove_all_expired_sweeps_witness:
  "\<exists>q'. remove_all_expired alist_queue_ops (\<lambda>_. 1900000000000) 0
      [(V4 10, demo_challenge 0), (V4 11, demo_challenge 500000000000)] = Some q' \<and>
     challenges_get_priority alist_queue_ops q' (V4 10) = None \<and>
     challenges_get_priority alist_queue_ops q' (V4 11) = Some (demo_challenge 500000000000)"
proof -
  let ?q = "[(V4 10, demo_challenge 0), (V4 11, demo_challenge 500000000000)]"
  let ?get = "challenges_get_priority alist_queue_ops"
  obtain q' where ret: "remove_all_expired alist_queue_ops (\<lambda>_. 1900000000000) 0 ?q = Some q'"
    and le: "?get q' \<subseteq>\<^sub>m ?get ?q"
    and gone: "(\<forall>i :: nat. (1900000000000 :: int) \<le> 1900000000000) \<longrightarrow>
      (\<forall>ip c. ?get q' ip = Some c \<longrightarrow> \<not> challenge_is_expired 1900000000000 c)"
    and kept: "\<forall>ip c. ?get ?q ip = Some c \<and> (\<forall>i :: nat. \<not> challenge_is_expired 1900000000000 c) \<longrightarrow>
      ?get q' ip = Some c"
    using remove_all_expired_sweeps [OF alist_queue.keyed_queue_axioms, of "\<lambda>_. 1900000000000" ?q]
    by (elim exE conjE) (rule that)
  have get: "challenges_get_priority alist_queue_ops ?q (V4 10) = Some (demo_challenge 0)"
    "challenges_get_priority alist_queue_ops ?q (V4 11) = Some (demo_challenge 500000000000)"
    by (simp_all add: challenges_get_priority_def alist_queue_ops_def)
  have exp: "challenge_is_expired 1900000000000 (demo_challenge 0)"
    "\<not> challenge_is_expired 1900000000000 (demo_challenge 500000000000)"
    by (simp_all add: challenge_is_expired_def demo_challenge_def)
  have "challenges_get_priority alist_queue_ops q' (V4 10) = None"
  proof (cases "challenges_get_priority alist_queue_ops q' (V4 10)")
    case (Some c)
    have "V4 10 \<in> dom (challenges_get_priority alist_queue_ops q')" using Some by (rule domI)
    then have "c = demo_challenge 0" using le get(1) Some by (simp add: map_le_def)
    with gone Some exp(1) show ?thesis by simp
  qed simp
  moreover have "?get q' (V4 11) = Some (demo_challenge 500000000000)" using kept get(2) exp(2) by simp
  ultimately show ?thesis using ret by (intro exI conjI)
qed

text \<open>
  C40: claims survive the token format. Reading back the claims that were written into a token gives
  the same address and public key and the expiration rounded down to whole seconds.
\<close>

theorem de_ser_claims_roundtrip:
  assumes "token_scheme k ch cr"
  shows "\<exists>c'. claims_from k ch (de_ser_claims_from k ch c) = Ok c' \<and> client_ip c' = client_ip c \<and>
    client_pubkey c' = client_pubkey c \<and> claims_expires_at_utc c' \<le> claims_expires_at_utc c \<and>
    claims_expires_at_utc c < claims_expires_at_utc c' + 1000000000"
  using token_scheme.claims_roundtrip [OF assms, of c] by fastforce

theorem de_ser_claims_roundtrip_witness:
  "\<exists>c'. claims_from demo_sdk demo_chrono (de_ser_claims_from demo_sdk demo_chrono
      \<lparr>client_ip = V4 10, client_pubkey = 3, claims_expires_at_utc = 4500000000\<rparr>) = Ok c' \<and> client_pubkey c' = 3"
  using de_ser_claims_roundtrip [OF demo_scheme.token_scheme_axioms,
    of "\<lparr>client_ip = V4 10, client_pubkey = 3, claims_expires_at_utc = 4500000000\<rparr>"]
  by auto

text \<open>
  \<open>refresh_access_token\<close> on a refresh token the service signed. While the relayer is healthy and the
  token's whole-second expiration lies ahead, it issues an access token for the same address and key
  that expires the access lifetime from now; once the expiration has passed it is refused.
\<close>

lemma refresh_access_token_contract:
  assumes "token_scheme k ch cr" "sign_with_key cr alg (de_ser_claims_from k ch c) = Some refresh_token"
    and "utc_add ch now' (access_token_ttl cfg) = Some expiry"
    and "sign_with_key cr Rs256 (de_ser_claims_from k ch (c\<lparr>claims_expires_at_utc := expiry\<rparr>)) = Some tok"
  shows "(now + 1000000000 \<le> claims_expires_at_utc c \<longrightarrow>
      refresh_access_token k ch cr cfg Healthy now now' refresh_token =
        Ok (c\<lparr>claims_expires_at_utc := expiry\<rparr>, \<lparr>token_value = tok, token_expires_seconds = timestamp ch expiry\<rparr>)) \<and>
    (claims_is_expired now c \<longrightarrow>
      \<not> is_ok (refresh_access_token k ch cr cfg health now now' refresh_token)) \<and>
    \<not> is_ok (refresh_access_token k ch cr cfg Unhealthy now now' refresh_token)"
proof -
  obtain t where t: "claims_from k ch (de_ser_claims_from k ch c) = Ok (c\<lparr>claims_expires_at_utc := t\<rparr>)"
    "t \<le> claims_expires_at_utc c" "claims_expires_at_utc c < t + 1000000000"
    using token_scheme.claims_roundtrip [OF assms(1), of c] by blast
  have v: "verify_with_key cr refresh_token = Some (alg, de_ser_claims_from k ch c)"
    by (rule token_scheme.signed_verifies [OF assms(1,2)])
  have c: "\<lparr>client_ip = client_ip c, client_pubkey = client_pubkey c, claims_expires_at_utc = expiry\<rparr>
      = c\<lparr>claims_expires_at_utc := expiry\<rparr>" by simp
  show ?thesis
    using t v assms(3,4)
    by (auto simp: refresh_access_token_def auth_check_health_def ok_or_def unwrap_def Let_def
        claims_is_expired_def sign_claims_def c is_ok_def split: if_splits)
qed

lemma refresh_access_token_contract_example:
  "\<exists>c tok. refresh_access_token demo_sdk demo_chrono demo_crypto demo_auth_config Healthy 0 0
     (demo_token Rs256 (de_ser_claims_from demo_sdk demo_chrono (refresh_claims (demo_challenge 0))))
     = Ok (c, tok) \<and> client_pubkey c = 3"
proof -
  let ?c = "refresh_claims (demo_challenge 0)"
  have s: "sign_with_key demo_crypto a d = Some (demo_token a d)" for a d by (simp add: demo_crypto_def)
  have u: "utc_add demo_chrono 0 (access_token_ttl demo_auth_config) = Some 1800000000000"
    by (simp add: demo_chrono_def demo_auth_config_def)
  have "(0 :: int) + 1000000000 \<le> claims_expires_at_utc ?c" "client_pubkey ?c = 3"
    by (simp_all add: demo_challenge_def)
  with refresh_access_token_contract [OF demo_scheme.token_scheme_axioms s u s, of 0] show ?thesis by simp
qed

section \<open>Renewing tokens\<close>

text \<open>
  A client that renews its token again and again: each call of \<open>refresh_access_token\<close> gets the token that the previous
  one returned. \<open>in_time\<close>: each call comes at least a second before the token in hand expires.
\<close>

definition renewals ::
  "sdk \<Rightarrow> chrono \<Rightarrow> crypto \<Rightarrow> auth_config \<Rightarrow> string \<Rightarrow> (naive_date_time \<times> naive_date_time) list \<Rightarrow> (string, status) result" where
  "renewals k ch cr cfg =
     run_loop (\<lambda>tok (now, now'). and_then (refresh_access_token k ch cr cfg Healthy now now' tok) (\<lambda>(_, t). Ok (token_value t)))"

fun in_time :: "int \<Rightarrow> naive_date_time \<Rightarrow> (naive_date_time \<times> naive_date_time) list \<Rightarrow> bool" where
  "in_time ttl expiry [] \<longleftrightarrow> True"
| "in_time ttl expiry ((now, now') # calls) \<longleftrightarrow> now + 1000000000 \<le> expiry \<and> in_time ttl (now' + ttl) calls"

text \<open>
  C18: a session has no end. Signed claims do not say whether they are an access token or a refresh token, so
  \<open>refresh_access_token\<close> takes either: starting from any token of the service, a client that renews in time while the
  relayer is healthy gets a new token each time, without the refresh token and for as long as it likes, and the
  interceptor accepts the last one for the same key. The lifetime of refresh tokens bounds nothing.
\<close>

theorem tokens_renewable:
  assumes "token_scheme k ch cr" "sign_with_key cr Rs256 (de_ser_claims_from k ch c) = Some tok"
    and "\<forall>d. sign_with_key cr Rs256 d \<noteq> None"
    and "\<forall>now'\<in>snd ` set calls. utc_add ch now' (access_token_ttl cfg) = Some (now' + access_token_ttl cfg)"
    and "in_time (access_token_ttl cfg) (claims_expires_at_utc c) calls"
  shows "\<exists>tok'. renewals k ch cr cfg tok calls = Ok tok' \<and>
    auth_interceptor_call k ch cr Rs256 (HeaderText (BEARER @ tok')) = Ok (client_pubkey c)"
  using assms(2,4,5)
proof (induction calls arbitrary: tok c)
  case Nil
  then show ?case by (simp add: renewals_def token_scheme.issued_token_accepted [OF assms(1)])
next
  case (Cons e calls)
  obtain now now' where e: "e = (now, now')" by (cases e)
  let ?c = "c\<lparr>claims_expires_at_utc := now' + access_token_ttl cfg\<rparr>"
  obtain tok' where tok': "sign_with_key cr Rs256 (de_ser_claims_from k ch ?c) = Some tok'" using assms(3) by blast
  have "refresh_access_token k ch cr cfg Healthy now now' tok =
      Ok (?c, \<lparr>token_value = tok', token_expires_seconds = timestamp ch (now' + access_token_ttl cfg)\<rparr>)"
    using refresh_access_token_contract [OF assms(1) Cons.prems(1) _ tok'] Cons.prems(2,3) by (simp add: e)
  moreover have "\<exists>t. renewals k ch cr cfg tok' calls = Ok t \<and>
      auth_interceptor_call k ch cr Rs256 (HeaderText (BEARER @ t)) = Ok (client_pubkey ?c)"
    by (rule Cons.IH [OF tok']) (use Cons.prems(2,3) in \<open>simp_all add: e\<close>)
  ultimately show ?case by (simp add: renewals_def e)
qed

theorem tokens_renewable_witness:
  "\<exists>tok'. renewals demo_sdk demo_chrono demo_crypto demo_auth_config
       (demo_token Rs256 (de_ser_claims_from demo_sdk demo_chrono (access_claims (demo_challenge 0))))
       [(1700000000000, 1700000000000), (3400000000000, 3400000000000)] = Ok tok' \<and>
     auth_interceptor_call demo_sdk demo_chrono demo_crypto Rs256 (HeaderText (BEARER @ tok')) = Ok 3"
proof -
  have s: "sign_with_key demo_crypto a d = Some (demo_token a d)" for a d by (simp add: demo_crypto_def)
  show ?thesis
    using tokens_renewable [OF demo_scheme.token_scheme_axioms s, where c = "access_claims (demo_challenge 0)"
        and cfg = demo_auth_config and calls = "[(1700000000000, 1700000000000), (3400000000000, 3400000000000)]"]
    by (simp add: s demo_challenge_def demo_chrono_def demo_auth_config_def)
qed

section \<open>The signed text\<close>

text \<open>
  The text that a client signs determines the key and the challenge, because all challenges have the same length.
\<close>

lemma expected_challenge_inj:
  assumes "challenge c = generate_challenge_token f" "challenge c' = generate_challenge_token g"
    and "expected_challenge k pk c = expected_challenge k pk' c'"
  shows "pubkey_to_string k pk = pubkey_to_string k pk'" "challenge c = challenge c'"
  using assms by (simp_all add: expected_challenge_def generate_challenge_token_def)

end
