(* ===== verification/Interest_Filter.thy ===== *)
theory Interest_Filter
  imports Forwarder Ofac "HOL-Library.Sublist"
begin

text \<open>
  Which packets go to the block engine (\<open>filter_packets\<close>, \<open>is_aoi_in_static_keys\<close> and
  \<open>is_aoi_in_lookup_table\<close> of \<open>block_engine/src/block_engine.rs\<close>). The accounts and programs of interest
  are kept in caches whose entries expire (crate \<open>cached\<close>); the cache is a parameter with the
  interface \<open>timed_cache\<close>. Every lookup reads the clock, may change the cache, and is counted, so that
  \<open>clock n\<close> is the reading of the \<open>n\<close>-th lookup.
\<close>

section \<open>Conditions with effects\<close>

text \<open>\<open>a || b\<close>: \<open>b\<close> is evaluated only if \<open>a\<close> is false.\<close>

definition or_st :: "('s \<Rightarrow> bool \<times> 's) \<Rightarrow> ('s \<Rightarrow> bool \<times> 's) \<Rightarrow> 's \<Rightarrow> bool \<times> 's" where
  "or_st a b s = (case a s of (r, s') \<Rightarrow> if r then (True, s') else b s')"

text \<open>
  From a state in \<open>P\<close> the condition stays in \<open>P\<close>, holds if \<open>lo\<close> does, and only if \<open>hi\<close> does.
\<close>

definition between :: "('s \<Rightarrow> bool) \<Rightarrow> bool \<Rightarrow> bool \<Rightarrow> ('s \<Rightarrow> bool \<times> 's) \<Rightarrow> bool" where
  "between P lo hi f \<longleftrightarrow> (\<forall>s. P s \<longrightarrow> (lo \<longrightarrow> fst (f s)) \<and> (fst (f s) \<longrightarrow> hi) \<and> P (snd (f s)))"

lemma between_pair: "between P b b (Pair b)"
  by (simp add: between_def)

lemma between_weaken: "between P lo hi f \<Longrightarrow> (lo' \<Longrightarrow> lo) \<Longrightarrow> (hi \<Longrightarrow> hi') \<Longrightarrow> between P lo' hi' f"
  unfolding between_def by blast

lemma between_or:
  assumes "between P lo hi a" "between P lo' hi' b"
  shows "between P (lo \<or> lo') (hi \<or> hi') (or_st a b)"
  unfolding between_def
proof (intro allI impI)
  fix s assume "P s"
  obtain r s' where a: "a s = (r, s')" by (cases "a s")
  with assms(1) \<open>P s\<close> have *: "(lo \<longrightarrow> r) \<and> (r \<longrightarrow> hi) \<and> P s'"
    unfolding between_def by (metis fst_conv snd_conv)
  with assms(2) have "(lo' \<longrightarrow> fst (b s')) \<and> (fst (b s') \<longrightarrow> hi') \<and> P (snd (b s'))"
    unfolding between_def by blast
  with a * show "(lo \<or> lo' \<longrightarrow> fst (or_st a b s)) \<and> (fst (or_st a b s) \<longrightarrow> hi \<or> hi') \<and> P (snd (or_st a b s))"
    by (cases r) (simp_all add: or_st_def)
qed

lemma any_st_Cons: "any_st f (x # xs) = or_st (f x) (any_st f xs)"
  by (simp add: fun_eq_iff or_st_def)

lemma between_any:
  "(\<And>x. x \<in> set xs \<Longrightarrow> between P (lo x) (hi x) (f x)) \<Longrightarrow>
    between P (\<exists>x\<in>set xs. lo x) (\<exists>x\<in>set xs. hi x) (any_st f xs)"
proof (induction xs)
  case Nil
  then show ?case by (simp add: between_def)
next
  case (Cons x xs)
  from between_or [OF Cons.prems [of x] Cons.IH] Cons.prems show ?case
    by (auto simp only: any_st_Cons list.set insert_iff bex_simps intro: between_weaken)
qed

section \<open>Expiring caches\<close>

record 'c cache_ops =
  cache_get :: "instant \<Rightarrow> pubkey \<Rightarrow> 'c \<Rightarrow> bool \<times> 'c"
  cache_set :: "instant \<Rightarrow> pubkey \<Rightarrow> 'c \<Rightarrow> 'c"
  cache_flush :: "instant \<Rightarrow> 'c \<Rightarrow> 'c"
  cache_size :: "'c \<Rightarrow> nat"

text \<open>
  \<open>stamps\<close> gives the insertion instant of every entry held. An entry is served for less than the
  lifespan; lookups and insertions may drop entries, but only expired ones.
\<close>

definition live_keys :: "('c \<Rightarrow> pubkey \<rightharpoonup> instant) \<Rightarrow> duration \<Rightarrow> instant \<Rightarrow> 'c \<Rightarrow> pubkey set" where
  "live_keys stamps lifespan now c = {k. \<exists>t. stamps c k = Some t \<and> elapsed now t < lifespan}"

locale timed_cache =
  fixes ops :: "'c cache_ops"
    and stamps :: "'c \<Rightarrow> pubkey \<rightharpoonup> instant"
    and lifespan :: duration
  assumes get_hit: "fst (cache_get ops now k c) \<longleftrightarrow> (\<exists>t. stamps c k = Some t \<and> elapsed now t < lifespan)"
    and get_old: "stamps (snd (cache_get ops now k c)) \<subseteq>\<^sub>m stamps c"
    and get_keeps: "stamps c k' = Some t \<Longrightarrow> elapsed now t < lifespan \<Longrightarrow>
      stamps (snd (cache_get ops now k c)) k' = Some t"
    and set_new: "stamps (cache_set ops now k c) k = Some now"
    and set_old: "k' \<noteq> k \<Longrightarrow> stamps (cache_set ops now k c) k' = Some t \<Longrightarrow> stamps c k' = Some t"
    and set_keeps: "k' \<noteq> k \<Longrightarrow> stamps c k' = Some t \<Longrightarrow> elapsed now t < lifespan \<Longrightarrow>
      stamps (cache_set ops now k c) k' = Some t"
    and flush_exact: "stamps (cache_flush ops now c) k = Some t \<longleftrightarrow>
      stamps c k = Some t \<and> elapsed now t < lifespan"
begin

abbreviation live :: "instant \<Rightarrow> 'c \<Rightarrow> pubkey set" where
  "live \<equiv> live_keys stamps lifespan"

lemma liveI: "stamps c k = Some t \<Longrightarrow> elapsed now t < lifespan \<Longrightarrow> k \<in> live now c"
  by (auto simp: live_keys_def)

lemma liveE:
  assumes "k \<in> live now c"
  obtains t where "stamps c k = Some t" "elapsed now t < lifespan"
  using assms unfolding live_keys_def by blast

lemma elapsed_earlier: "now \<le> now' \<Longrightarrow> elapsed now' t < lifespan \<Longrightarrow> elapsed now t < lifespan"
  by (simp add: elapsed_def)

lemma live_antimono: "now \<le> now' \<Longrightarrow> live now' c \<subseteq> live now c"
  by (blast elim: liveE intro: liveI elapsed_earlier)

lemma get_hit_live: "fst (cache_get ops now k c) \<longleftrightarrow> k \<in> live now c"
  by (simp add: get_hit live_keys_def)

lemma live_after_get_old: "live t0 (snd (cache_get ops now k c)) \<subseteq> live t0 c"
proof
  fix k' assume "k' \<in> live t0 (snd (cache_get ops now k c))"
  then obtain t where t: "stamps (snd (cache_get ops now k c)) k' = Some t" "elapsed t0 t < lifespan"
    by (rule liveE)
  from t(1) get_old [of now k c] have "stamps c k' = Some t" by (auto simp: map_le_def dom_def)
  then show "k' \<in> live t0 c" using t(2) by (rule liveI)
qed

lemma live_after_get_keeps:
  assumes "now \<le> t1"
  shows "live t1 c \<subseteq> live t1 (snd (cache_get ops now k c))"
proof
  fix k' assume "k' \<in> live t1 c"
  then obtain t where t: "stamps c k' = Some t" "elapsed t1 t < lifespan" by (rule liveE)
  from get_keeps [OF t(1) elapsed_earlier [OF assms t(2)]] t(2)
  show "k' \<in> live t1 (snd (cache_get ops now k c))" by (rule liveI)
qed

text \<open>Between \<open>t0\<close> and \<open>t1\<close>, with all that was live at \<open>t0\<close> and \<open>t1\<close> in \<open>hi\<close> and \<open>lo\<close>.\<close>

definition within :: "instant \<Rightarrow> instant \<Rightarrow> pubkey set \<Rightarrow> pubkey set \<Rightarrow> 'c \<Rightarrow> bool" where
  "within t0 t1 lo hi c \<longleftrightarrow> lo \<subseteq> live t1 c \<and> live t0 c \<subseteq> hi"

lemma within_get:
  assumes "within t0 t1 lo hi c" "t0 \<le> now" "now \<le> t1"
  shows "(k \<in> lo \<longrightarrow> fst (cache_get ops now k c)) \<and> (fst (cache_get ops now k c) \<longrightarrow> k \<in> hi) \<and>
    within t0 t1 lo hi (snd (cache_get ops now k c))"
  using assms(1) live_antimono [OF assms(2)] live_antimono [OF assms(3)] live_after_get_old [of t0 now k c]
    live_after_get_keeps [OF assms(3), of c k]
  unfolding within_def get_hit_live by blast

lemma live_after_set:
  assumes "0 < lifespan"
  shows "live now (cache_set ops now k c) = insert k (live now c)"
proof (intro set_eqI iffI)
  fix k' assume "k' \<in> live now (cache_set ops now k c)"
  then obtain t where t: "stamps (cache_set ops now k c) k' = Some t" "elapsed now t < lifespan"
    by (rule liveE)
  show "k' \<in> insert k (live now c)"
    using set_old [OF _ t(1)] t(2) by (cases "k' = k") (auto intro: liveI)
next
  fix k' assume "k' \<in> insert k (live now c)"
  then show "k' \<in> live now (cache_set ops now k c)"
  proof (cases "k' = k")
    case True
    show ?thesis using liveI [OF set_new] assms by (simp add: True elapsed_def)
  next
    case False
    with \<open>k' \<in> insert k (live now c)\<close> obtain t where "stamps c k' = Some t" "elapsed now t < lifespan"
      by (auto elim: liveE)
    with set_keeps [OF False this] show ?thesis by (auto intro: liveI)
  qed
qed

lemma live_after_flush:
  assumes "now \<le> t1"
  shows "live t1 (cache_flush ops now c) = live t1 c"
proof (intro set_eqI iffI)
  fix k assume "k \<in> live t1 (cache_flush ops now c)"
  then obtain t where "stamps (cache_flush ops now c) k = Some t" "elapsed t1 t < lifespan" by (rule liveE)
  then show "k \<in> live t1 c" using liveI by (simp add: flush_exact)
next
  fix k assume "k \<in> live t1 c"
  then obtain t where "stamps c k = Some t" "elapsed t1 t < lifespan" by (rule liveE)
  with elapsed_earlier [OF assms this(2)] show "k \<in> live t1 (cache_flush ops now c)"
    by (auto simp: flush_exact intro: liveI)
qed

end

text \<open>All readings of the clock are between two instants.\<close>

definition clock_within :: "instant \<Rightarrow> instant \<Rightarrow> (nat \<Rightarrow> instant) \<Rightarrow> bool" where
  "clock_within t0 t1 clock \<longleftrightarrow> (\<forall>n. t0 \<le> clock n \<and> clock n \<le> t1)"

lemma clock_withinD: "clock_within t0 t1 clock \<Longrightarrow> t0 \<le> clock n \<and> clock n \<le> t1"
  by (simp add: clock_within_def)

section \<open>The checks\<close>

text \<open>The number of lookups so far, the accounts and the programs of interest.\<close>

record 'c interest =
  lookups :: nat
  accounts_of_interest :: 'c
  programs_of_interest :: 'c

definition aoi_get :: "'c cache_ops \<Rightarrow> (nat \<Rightarrow> instant) \<Rightarrow> pubkey \<Rightarrow> 'c interest \<Rightarrow> bool \<times> 'c interest" where
  "aoi_get ops clock k s =
     (case cache_get ops (clock (lookups s)) k (accounts_of_interest s) of
        (hit, c) \<Rightarrow> (hit, s\<lparr>lookups := Suc (lookups s), accounts_of_interest := c\<rparr>))"

definition poi_get :: "'c cache_ops \<Rightarrow> (nat \<Rightarrow> instant) \<Rightarrow> pubkey \<Rightarrow> 'c interest \<Rightarrow> bool \<times> 'c interest" where
  "poi_get ops clock k s =
     (case cache_get ops (clock (lookups s)) k (programs_of_interest s) of
        (hit, c) \<Rightarrow> (hit, s\<lparr>lookups := Suc (lookups s), programs_of_interest := c\<rparr>))"

definition is_aoi_in_static_keys ::
  "sdk \<Rightarrow> 'c cache_ops \<Rightarrow> (nat \<Rightarrow> instant) \<Rightarrow> versioned_tx \<Rightarrow> 'c interest \<Rightarrow> bool \<times> 'c interest" where
  "is_aoi_in_static_keys k ops clock tx =
     any_st (\<lambda>(idx, acc).
         or_st (\<lambda>s. if is_maybe_writable k tx idx then aoi_get ops clock acc s else (False, s))
           (poi_get ops clock acc))
       (List.enumerate 0 (static_account_keys tx))"

text \<open>One index of a table: looked up when it is in range.\<close>

definition at_index :: "lookup_table_account \<Rightarrow> (pubkey \<Rightarrow> 's \<Rightarrow> bool \<times> 's) \<Rightarrow> u8 \<Rightarrow> 's \<Rightarrow> bool \<times> 's" where
  "at_index info f idx s =
     (case slice_get (addresses info) (unat idx) of Some account \<Rightarrow> f account s | None \<Rightarrow> (False, s))"

definition aoi_in_table ::
  "'c cache_ops \<Rightarrow> (nat \<Rightarrow> instant) \<Rightarrow> lookup_cache \<Rightarrow> message_lookup \<Rightarrow> 'c interest \<Rightarrow> bool \<times> 'c interest" where
  "aoi_in_table ops clock cache table =
     (case cache (account_key table) of
        Some info \<Rightarrow>
          or_st
            (any_st (at_index info (\<lambda>acc. or_st (aoi_get ops clock acc) (poi_get ops clock acc)))
               (writable_indexes table))
            (any_st (at_index info (poi_get ops clock)) (readonly_indexes table))
      | None \<Rightarrow> Pair False)"

definition is_aoi_in_lookup_table ::
  "'c cache_ops \<Rightarrow> (nat \<Rightarrow> instant) \<Rightarrow> versioned_tx \<Rightarrow> lookup_cache \<Rightarrow> 'c interest \<Rightarrow> bool \<times> 'c interest" where
  "is_aoi_in_lookup_table ops clock tx cache =
     (case address_table_lookups tx of
        Some lookup_tables \<Rightarrow> any_st (aoi_in_table ops clock cache) lookup_tables
      | None \<Rightarrow> Pair False)"

section \<open>\<open>filter_packets\<close>\<close>

definition is_forwardable ::
  "sdk \<Rightarrow> 'c cache_ops \<Rightarrow> (nat \<Rightarrow> instant) \<Rightarrow> lookup_cache \<Rightarrow> pubkey set \<Rightarrow> bool \<Rightarrow> versioned_tx
     \<Rightarrow> 'c interest \<Rightarrow> bool \<times> 'c interest" where
  "is_forwardable k ops clock cache ofac fwd_all tx s =
     (let interesting =
        or_st (Pair fwd_all)
          (or_st (is_aoi_in_static_keys k ops clock tx) (is_aoi_in_lookup_table ops clock tx cache))
      in if ofac = {} then interesting s
         else if \<not> is_tx_ofac_related tx ofac cache then interesting s else (False, s))"

definition filter_packet ::
  "sdk \<Rightarrow> 'c cache_ops \<Rightarrow> (nat \<Rightarrow> instant) \<Rightarrow> lookup_cache \<Rightarrow> pubkey set \<Rightarrow> bool \<Rightarrow> packet
     \<Rightarrow> 'c interest \<times> proto_packet list \<Rightarrow> 'c interest \<times> proto_packet list" where
  "filter_packet k ops clock cache ofac fwd_all packet acc =
     (case acc of (s, filtered_packets) \<Rightarrow>
        if discard (meta_flags (meta packet)) then (s, filtered_packets)
        else
          (case deserialize_slice k packet of
             None \<Rightarrow> (s, filtered_packets)
           | Some tx \<Rightarrow>
               (case is_forwardable k ops clock cache ofac fwd_all tx s of
                  (fwd, s') \<Rightarrow>
                    if fwd then
                      (case packet_to_proto_packet k packet of
                         Some p \<Rightarrow> (s', filtered_packets @ [p])
                       | None \<Rightarrow> (s', filtered_packets))
                    else (s', filtered_packets))))"

record expiring_packet_batch =
  epb_header :: "proto_header option"
  epb_batch :: "proto_packet_batch option"
  epb_expiry_ms :: u32

definition filter_packets ::
  "sdk \<Rightarrow> 'c cache_ops \<Rightarrow> (nat \<Rightarrow> instant) \<Rightarrow> lookup_cache \<Rightarrow> pubkey set \<Rightarrow> bool \<Rightarrow> block_engine_packets
     \<Rightarrow> 'c interest \<Rightarrow> 'c interest \<times> expiring_packet_batch option" where
  "filter_packets k ops clock cache ofac fwd_all batches s =
     (case fold (\<lambda>batch. fold (filter_packet k ops clock cache ofac fwd_all) batch)
             (bep_batch batches) (s, []) of
        (s', filtered_packets) \<Rightarrow>
          (s', if filtered_packets \<noteq> [] then
                 Some \<lparr>epb_header = Some \<lparr>header_ts = Some (bep_stamp batches)\<rparr>,
                       epb_batch = Some \<lparr>batch_packets = filtered_packets\<rparr>,
                       epb_expiry_ms = bep_expiration batches\<rparr>
               else None))"

section \<open>What the filter should let through\<close>

text \<open>
  A transaction touches accounts \<open>A\<close> or programs \<open>P\<close> of interest: a writable static key or a writable
  table entry in \<open>A\<close>, or any static key or table entry in \<open>P\<close>.
\<close>

definition touches_static :: "sdk \<Rightarrow> versioned_tx \<Rightarrow> pubkey set \<Rightarrow> pubkey set \<Rightarrow> bool" where
  "touches_static k tx A P \<longleftrightarrow>
     (\<exists>idx < length (static_account_keys tx).
        is_maybe_writable k tx idx \<and> static_account_keys tx ! idx \<in> A \<or> static_account_keys tx ! idx \<in> P)"

definition touches :: "sdk \<Rightarrow> lookup_cache \<Rightarrow> versioned_tx \<Rightarrow> pubkey set \<Rightarrow> pubkey set \<Rightarrow> bool" where
  "touches k cache tx A P \<longleftrightarrow>
     touches_static k tx A P \<or>
     loaded_accounts cache writable_indexes tx \<inter> (A \<union> P) \<noteq> {} \<or>
     loaded_accounts cache readonly_indexes tx \<inter> P \<noteq> {}"

lemma touches_mono: "touches k cache tx A P \<Longrightarrow> A \<subseteq> A' \<Longrightarrow> P \<subseteq> P' \<Longrightarrow> touches k cache tx A' P'"
  unfolding touches_def touches_static_def by blast

definition tx_wanted ::
  "sdk \<Rightarrow> lookup_cache \<Rightarrow> pubkey set \<Rightarrow> bool \<Rightarrow> pubkey set \<Rightarrow> pubkey set \<Rightarrow> versioned_tx \<Rightarrow> bool" where
  "tx_wanted k cache ofac fwd_all A P tx \<longleftrightarrow>
     named_accounts cache tx \<inter> ofac = {} \<and> (fwd_all \<or> touches k cache tx A P)"

definition wanted :: "sdk \<Rightarrow> lookup_cache \<Rightarrow> pubkey set \<Rightarrow> bool \<Rightarrow> pubkey set \<Rightarrow> pubkey set \<Rightarrow> packet \<Rightarrow> bool" where
  "wanted k cache ofac fwd_all A P p \<longleftrightarrow>
     \<not> discard (meta_flags (meta p)) \<and>
     (case deserialize_slice k p of None \<Rightarrow> False | Some tx \<Rightarrow> tx_wanted k cache ofac fwd_all A P tx)"

definition wanted_packets ::
  "sdk \<Rightarrow> lookup_cache \<Rightarrow> pubkey set \<Rightarrow> bool \<Rightarrow> pubkey set \<Rightarrow> pubkey set \<Rightarrow> banking_packet_batch \<Rightarrow> proto_packet list" where
  "wanted_packets k cache ofac fwd_all A P batches =
     List.map_filter (packet_to_proto_packet k) (filter (wanted k cache ofac fwd_all A P) (concat batches))"

section \<open>The filter under bounds on the lookups\<close>

text \<open>
  If lookups hit at least on \<open>A\<close> and \<open>P\<close> and at most on \<open>A'\<close> and \<open>P'\<close>, then every check answers yes where
  it should with the former, and only where it should with the latter.
\<close>

definition lookups_between ::
  "'c cache_ops \<Rightarrow> (nat \<Rightarrow> instant) \<Rightarrow> ('c interest \<Rightarrow> bool) \<Rightarrow> pubkey set \<Rightarrow> pubkey set \<Rightarrow> pubkey set \<Rightarrow> pubkey set
     \<Rightarrow> bool" where
  "lookups_between ops clock Q A A' P P' \<longleftrightarrow>
     (\<forall>k. between Q (k \<in> A) (k \<in> A') (aoi_get ops clock k)) \<and>
     (\<forall>k. between Q (k \<in> P) (k \<in> P') (poi_get ops clock k))"

lemma lookups_betweenD:
  assumes "lookups_between ops clock Q A A' P P'"
  shows "between Q (k \<in> A) (k \<in> A') (aoi_get ops clock k)" "between Q (k \<in> P) (k \<in> P') (poi_get ops clock k)"
  using assms by (simp_all add: lookups_between_def)

lemma static_keys_between:
  assumes "lookups_between ops clock Q A A' P P'"
  shows "between Q (touches_static k tx A P) (touches_static k tx A' P')
    (is_aoi_in_static_keys k ops clock tx)"
proof -
  let ?hit = "\<lambda>A P (idx, acc). (is_maybe_writable k tx idx \<and> acc \<in> A) \<or> acc \<in> P"
  have one: "between Q (?hit A P x) (?hit A' P' x)
    ((\<lambda>(idx, acc). or_st (\<lambda>s. if is_maybe_writable k tx idx then aoi_get ops clock acc s else (False, s))
      (poi_get ops clock acc)) x)" for x
  proof (cases x)
    case (Pair idx acc)
    have w: "between Q (is_maybe_writable k tx idx \<and> acc \<in> A)
      (is_maybe_writable k tx idx \<and> acc \<in> A')
      (\<lambda>s. if is_maybe_writable k tx idx then aoi_get ops clock acc s else (False, s))"
      using lookups_betweenD(1) [OF assms(1), of acc] by (auto simp: between_def)
    show ?thesis using between_or [OF w lookups_betweenD(2) [OF assms(1)]] by (simp add: Pair)
  qed
  have eq: "(\<exists>x\<in>set (List.enumerate 0 (static_account_keys tx)). ?hit A P x) \<longleftrightarrow> touches_static k tx A P"
    for A P
    unfolding touches_static_def Bex_def enumerate_eq_zip set_zip by force
  show ?thesis
    unfolding is_aoi_in_static_keys_def eq [symmetric] by (rule between_any) (rule one)
qed

lemma at_index_between:
  assumes "\<And>acc. between Q (acc \<in> L) (acc \<in> H) (f acc)"
  shows "between Q (table_accounts info idxs \<inter> L \<noteq> {}) (table_accounts info idxs \<inter> H \<noteq> {})
    (any_st (at_index info f) idxs)"
proof -
  let ?hit = "\<lambda>S (i :: u8). unat i < length (addresses info) \<and> addresses info ! unat i \<in> S"
  have one: "between Q (?hit L i) (?hit H i) (at_index info f i)" for i
    using assms [of "addresses info ! unat i"] by (auto simp: between_def at_index_def slice_get_def)
  have eq: "(\<exists>i\<in>set idxs. ?hit S i) \<longleftrightarrow> table_accounts info idxs \<inter> S \<noteq> {}" for S
    unfolding table_accounts_def by blast
  show ?thesis unfolding eq [symmetric] by (rule between_any) (rule one)
qed

lemma lookup_table_between:
  assumes "lookups_between ops clock Q A A' P P'"
  defines "hit \<equiv> \<lambda>tx cache A P. loaded_accounts cache writable_indexes tx \<inter> (A \<union> P) \<noteq> {} \<or>
      loaded_accounts cache readonly_indexes tx \<inter> P \<noteq> {}"
  shows "between Q (hit tx cache A P) (hit tx cache A' P')
    (is_aoi_in_lookup_table ops clock tx cache)"
proof (cases "address_table_lookups tx")
  case None
  then show ?thesis
    using between_pair [of _ False] by (simp add: hit_def loaded_accounts_def is_aoi_in_lookup_table_def)
next
  case (Some tables)
  let ?hit = "\<lambda>A P table. case cache (account_key table) of None \<Rightarrow> False
      | Some info \<Rightarrow> table_accounts info (writable_indexes table) \<inter> (A \<union> P) \<noteq> {} \<or>
          table_accounts info (readonly_indexes table) \<inter> P \<noteq> {}"
  note aoi = lookups_betweenD(1) [OF assms(1)] and poi = lookups_betweenD(2) [OF assms(1)]
  have both: "between Q (acc \<in> A \<union> P) (acc \<in> A' \<union> P')
    (or_st (aoi_get ops clock acc) (poi_get ops clock acc))" for acc
    using between_or [OF aoi poi] by simp
  have one: "between Q (?hit A P table) (?hit A' P' table)
    (aoi_in_table ops clock cache table)" for table
  proof (cases "cache (account_key table)")
    case None
    then show ?thesis using between_pair [of _ False] by (simp add: aoi_in_table_def)
  next
    case (Some info)
    show ?thesis
      using between_or [OF at_index_between [OF both] at_index_between [OF poi]]
      by (simp add: Some aoi_in_table_def)
  qed
  have eq: "(\<exists>table\<in>set tables. ?hit A P table) \<longleftrightarrow> hit tx cache A P" for A P
    by (fastforce simp: hit_def loaded_accounts_def Some split: option.splits)
  show ?thesis
    unfolding eq [symmetric] is_aoi_in_lookup_table_def Some option.case by (rule between_any) (rule one)
qed

lemma is_forwardable_between:
  assumes "lookups_between ops clock Q A A' P P'"
  shows "between Q (tx_wanted k cache ofac fwd_all A P tx)
    (tx_wanted k cache ofac fwd_all A' P' tx)
    (is_forwardable k ops clock cache ofac fwd_all tx)"
proof -
  have int: "between Q (fwd_all \<or> touches k cache tx A P)
    (fwd_all \<or> touches k cache tx A' P')
    (or_st (Pair fwd_all)
       (or_st (is_aoi_in_static_keys k ops clock tx) (is_aoi_in_lookup_table ops clock tx cache)))"
    unfolding touches_def
    by (intro between_or between_pair static_keys_between lookup_table_between assms(1))
  show ?thesis
  proof (cases "named_accounts cache tx \<inter> ofac = {}")
    case True
    with int show ?thesis
      by (cases "ofac = {}") (simp_all add: tx_wanted_def is_forwardable_def [abs_def] Let_def is_tx_ofac_related_iff)
  next
    case False
    then have "is_forwardable k ops clock cache ofac fwd_all tx = Pair False"
      by (cases "ofac = {}") (simp_all add: fun_eq_iff is_forwardable_def Let_def is_tx_ofac_related_iff)
    with False show ?thesis using between_pair [of _ False] by (simp add: tx_wanted_def)
  qed
qed

text \<open>One packet: nothing or its protobuf form is appended.\<close>

abbreviation kept :: "sdk \<Rightarrow> packet \<Rightarrow> bool \<Rightarrow> proto_packet list" where
  "kept k p b \<equiv> (if b then case packet_to_proto_packet k p of None \<Rightarrow> [] | Some q \<Rightarrow> [q] else [])"

lemma filter_packet_within:
  assumes "lookups_between ops clock Q A A' P P'" "Q s"
  obtains s' b where "filter_packet k ops clock cache ofac fwd_all p (s, acc) = (s', acc @ kept k p b)"
    "Q s'"
    "wanted k cache ofac fwd_all A P p \<Longrightarrow> b" "b \<Longrightarrow> wanted k cache ofac fwd_all A' P' p"
proof (cases "discard (meta_flags (meta p)) \<or> deserialize_slice k p = None")
  case True
  then show ?thesis using that [of s False] assms(2) by (auto simp: filter_packet_def wanted_def)
next
  case False
  then obtain tx where tx: "deserialize_slice k p = Some tx" and d: "\<not> discard (meta_flags (meta p))" by auto
  obtain b s' where b: "is_forwardable k ops clock cache ofac fwd_all tx s = (b, s')"
    by (cases "is_forwardable k ops clock cache ofac fwd_all tx s")
  from is_forwardable_between [OF assms(1), of k cache ofac fwd_all tx] assms(2)
  have fwd: "(tx_wanted k cache ofac fwd_all A P tx \<longrightarrow> b) \<and> (b \<longrightarrow> tx_wanted k cache ofac fwd_all A' P' tx) \<and>
    Q s'"
    unfolding between_def using b by (metis fst_conv snd_conv)
  have "filter_packet k ops clock cache ofac fwd_all p (s, acc) = (s', acc @ kept k p b)"
    by (simp add: filter_packet_def d tx b split: option.split)
  with fwd d tx show ?thesis by (intro that [of s' b]) (simp_all add: wanted_def)
qed

lemma wanted_packets_Cons:
  "wanted_packets k cache ofac fwd_all A P ((p # ps) # bs) =
     kept k p (wanted k cache ofac fwd_all A P p) @ wanted_packets k cache ofac fwd_all A P (ps # bs)"
  by (simp add: wanted_packets_def map_filter_simps split: option.split)

lemma wanted_packets_append:
  "wanted_packets k cache ofac fwd_all A P (xs @ ys) =
     wanted_packets k cache ofac fwd_all A P xs @ wanted_packets k cache ofac fwd_all A P ys"
  by (simp add: wanted_packets_def List.map_filter_def)

lemma kept_mono: "(b \<Longrightarrow> b') \<Longrightarrow> subseq (kept k p b) (kept k p b')"
  by (simp split: option.split)

lemma filter_batch_within:
  assumes "lookups_between ops clock Q A A' P P'" "Q s"
  shows "\<exists>s' out. fold (filter_packet k ops clock cache ofac fwd_all) ps (s, acc) = (s', acc @ out) \<and>
    Q s' \<and>
    subseq (wanted_packets k cache ofac fwd_all A P [ps]) out \<and>
    subseq out (wanted_packets k cache ofac fwd_all A' P' [ps])"
  using assms(2)
proof (induction ps arbitrary: s acc)
  case Nil
  then show ?case by (simp add: wanted_packets_def map_filter_simps)
next
  case (Cons p ps)
  obtain s' b where b: "filter_packet k ops clock cache ofac fwd_all p (s, acc) = (s', acc @ kept k p b)"
    and s': "Q s'"
    and lo: "wanted k cache ofac fwd_all A P p \<Longrightarrow> b" and hi: "b \<Longrightarrow> wanted k cache ofac fwd_all A' P' p"
    using filter_packet_within [OF assms(1) Cons.prems] by blast
  from Cons.IH [OF s', of "acc @ kept k p b"] obtain s'' out where
    out: "fold (filter_packet k ops clock cache ofac fwd_all) ps (s', acc @ kept k p b) = (s'', acc @ kept k p b @ out)"
    "Q s''"
    "subseq (wanted_packets k cache ofac fwd_all A P [ps]) out"
    "subseq out (wanted_packets k cache ofac fwd_all A' P' [ps])"
    by auto
  show ?case
    using out(1,2) list_emb_append_mono [OF kept_mono [OF lo] out(3)]
      list_emb_append_mono [OF kept_mono [OF hi] out(4)]
    by (intro exI [of _ s''] exI [of _ "kept k p b @ out"]) (simp add: b wanted_packets_Cons)
qed

lemma filter_batches_within:
  assumes "lookups_between ops clock Q A A' P P'" "Q s"
  shows "\<exists>s' out. fold (\<lambda>batch. fold (filter_packet k ops clock cache ofac fwd_all) batch) bs (s, acc) =
      (s', acc @ out) \<and>
    Q s' \<and>
    subseq (wanted_packets k cache ofac fwd_all A P bs) out \<and>
    subseq out (wanted_packets k cache ofac fwd_all A' P' bs)"
  using assms(2)
proof (induction bs arbitrary: s acc)
  case Nil
  then show ?case by (simp add: wanted_packets_def map_filter_simps)
next
  case (Cons ps bs)
  from filter_batch_within [OF assms(1) Cons.prems, of k cache ofac fwd_all ps acc] obtain s' out where
    one: "fold (filter_packet k ops clock cache ofac fwd_all) ps (s, acc) = (s', acc @ out)"
    "Q s'"
    "subseq (wanted_packets k cache ofac fwd_all A P [ps]) out"
    "subseq out (wanted_packets k cache ofac fwd_all A' P' [ps])" by blast
  from Cons.IH [OF one(2), of "acc @ out"] obtain s'' out' where
    rest: "fold (\<lambda>batch. fold (filter_packet k ops clock cache ofac fwd_all) batch) bs (s', acc @ out) =
      (s'', acc @ out @ out')" "Q s''"
    "subseq (wanted_packets k cache ofac fwd_all A P bs) out'"
    "subseq out' (wanted_packets k cache ofac fwd_all A' P' bs)" by auto
  show ?case
    using rest(1,2) list_emb_append_mono [OF one(3) rest(3)] list_emb_append_mono [OF one(4) rest(4)]
    by (intro exI [of _ s''] exI [of _ "out @ out'"])
      (simp add: one(1) wanted_packets_append [of _ _ _ _ _ _ "[ps]" bs, simplified])
qed

lemma filter_packets_between:
  assumes "lookups_between ops clock Q A A' P P'" "Q s"
  obtains s' out where
    "filter_packets k ops clock cache ofac fwd_all batches s = (s',
       if out = [] then None
       else Some \<lparr>epb_header = Some \<lparr>header_ts = Some (bep_stamp batches)\<rparr>,
                  epb_batch = Some \<lparr>batch_packets = out\<rparr>, epb_expiry_ms = bep_expiration batches\<rparr>)"
    "Q s'"
    "subseq (wanted_packets k cache ofac fwd_all A P (bep_batch batches)) out"
    "subseq out (wanted_packets k cache ofac fwd_all A' P' (bep_batch batches))"
proof -
  from filter_batches_within [OF assms, of k cache ofac fwd_all "bep_batch batches" "[]"]
  obtain s' out where
    "fold (\<lambda>batch. fold (filter_packet k ops clock cache ofac fwd_all) batch) (bep_batch batches) (s, []) = (s', out)"
    "Q s'" "subseq (wanted_packets k cache ofac fwd_all A P (bep_batch batches)) out"
    "subseq out (wanted_packets k cache ofac fwd_all A' P' (bep_batch batches))" by auto
  then show ?thesis by (intro that [of s' out]) (simp_all add: filter_packets_def)
qed

section \<open>The caches between two instants\<close>

text \<open>
  While lookups happen between \<open>t0\<close> and \<open>t1\<close>, they hit at least on the entries still live at \<open>t1\<close> and at
  most on those live at \<open>t0\<close>. Without a bound on the clock they hit at most on the entries held.
\<close>

context timed_cache
begin

definition interest_within ::
  "instant \<Rightarrow> instant \<Rightarrow> pubkey set \<Rightarrow> pubkey set \<Rightarrow> pubkey set \<Rightarrow> pubkey set \<Rightarrow> 'c interest \<Rightarrow> bool" where
  "interest_within t0 t1 A A' P P' s \<longleftrightarrow>
     within t0 t1 A A' (accounts_of_interest s) \<and> within t0 t1 P P' (programs_of_interest s)"

lemma interest_within_start:
  "interest_within t0 t1 (live t1 (accounts_of_interest s)) (live t0 (accounts_of_interest s))
     (live t1 (programs_of_interest s)) (live t0 (programs_of_interest s)) s"
  by (simp add: interest_within_def within_def)

lemma aoi_get_between:
  assumes "clock_within t0 t1 clock"
  shows "between (interest_within t0 t1 A A' P P') (k \<in> A) (k \<in> A') (aoi_get ops clock k)"
  unfolding between_def
proof (intro allI impI)
  fix s assume "interest_within t0 t1 A A' P P' s"
  with within_get [of t0 t1 A A' "accounts_of_interest s" "clock (lookups s)" k] clock_withinD [OF assms, of "lookups s"]
  show "(k \<in> A \<longrightarrow> fst (aoi_get ops clock k s)) \<and> (fst (aoi_get ops clock k s) \<longrightarrow> k \<in> A') \<and>
    interest_within t0 t1 A A' P P' (snd (aoi_get ops clock k s))"
    by (simp add: interest_within_def aoi_get_def case_prod_beta)
qed

lemma poi_get_between:
  assumes "clock_within t0 t1 clock"
  shows "between (interest_within t0 t1 A A' P P') (k \<in> P) (k \<in> P') (poi_get ops clock k)"
  unfolding between_def
proof (intro allI impI)
  fix s assume "interest_within t0 t1 A A' P P' s"
  with within_get [of t0 t1 P P' "programs_of_interest s" "clock (lookups s)" k] clock_withinD [OF assms, of "lookups s"]
  show "(k \<in> P \<longrightarrow> fst (poi_get ops clock k s)) \<and> (fst (poi_get ops clock k s) \<longrightarrow> k \<in> P') \<and>
    interest_within t0 t1 A A' P P' (snd (poi_get ops clock k s))"
    by (simp add: interest_within_def poi_get_def case_prod_beta)
qed

lemma lookups_between_instants:
  assumes "clock_within t0 t1 clock"
  shows "lookups_between ops clock (interest_within t0 t1 A A' P P') A A' P P'"
  unfolding lookups_between_def using aoi_get_between [OF assms] poi_get_between [OF assms] by blast

definition interest_held :: "pubkey set \<Rightarrow> pubkey set \<Rightarrow> 'c interest \<Rightarrow> bool" where
  "interest_held A P s \<longleftrightarrow> dom (stamps (accounts_of_interest s)) \<subseteq> A \<and> dom (stamps (programs_of_interest s)) \<subseteq> P"

lemma dom_get: "dom (stamps (snd (cache_get ops now k c))) \<subseteq> dom (stamps c)"
  using get_old [of now k c] by (rule map_le_implies_dom_le)

lemma get_hit_dom: "fst (cache_get ops now k c) \<Longrightarrow> k \<in> dom (stamps c)"
  by (auto simp: get_hit)

lemma dom_set: "dom (stamps (cache_set ops now k c)) \<subseteq> insert k (dom (stamps c))"
  using set_old [of _ k now c] by fastforce

lemma dom_flush: "dom (stamps (cache_flush ops now c)) \<subseteq> dom (stamps c)"
  by (auto simp: flush_exact)

lemma lookups_between_held: "lookups_between ops clock (interest_held A P) {} A {} P"
proof -
  have "between (interest_held A P) (k \<in> {}) (k \<in> A) (aoi_get ops clock k)" for k
    unfolding between_def interest_held_def aoi_get_def case_prod_beta
    using dom_get [of _ k] get_hit_dom [of _ k] by (auto simp: subset_iff)
  moreover have "between (interest_held A P) (k \<in> {}) (k \<in> P) (poi_get ops clock k)" for k
    unfolding between_def interest_held_def poi_get_def case_prod_beta
    using dom_get [of _ k] get_hit_dom [of _ k] by (auto simp: subset_iff)
  ultimately show ?thesis by (simp add: lookups_between_def)
qed

end

section \<open>A cache\<close>

text \<open>A cache that meets the interface: the entries with their instants, latest first.\<close>

type_synonym alist_cache = "(pubkey \<times> instant) list"

definition alist_cache_ops :: "duration \<Rightarrow> alist_cache cache_ops" where
  "alist_cache_ops ttl =
     \<lparr>cache_get = \<lambda>now k c. (case map_of c k of Some t \<Rightarrow> elapsed now t < ttl | None \<Rightarrow> False, c),
      cache_set = \<lambda>now k c. AList.update k now c,
      cache_flush = \<lambda>now c. filter (\<lambda>(k, t). elapsed now t < ttl \<and> map_of c k = Some t) c,
      cache_size = length\<rparr>"

lemma map_of_flush:
  "map_of (filter (\<lambda>(k, t). Q t \<and> map_of c k = Some t) c) k = Some t \<longleftrightarrow> map_of c k = Some t \<and> Q t"
proof
  assume "map_of (filter (\<lambda>(k, t). Q t \<and> map_of c k = Some t) c) k = Some t"
  then have "(k, t) \<in> set (filter (\<lambda>(k, t). Q t \<and> map_of c k = Some t) c)" by (rule map_of_SomeD)
  then show "map_of c k = Some t \<and> Q t" by simp
next
  assume *: "map_of c k = Some t \<and> Q t"
  then have "(k, t) \<in> set (filter (\<lambda>(k, t). Q t \<and> map_of c k = Some t) c)"
    using map_of_SomeD [of c k t] by simp
  then obtain t' where t': "map_of (filter (\<lambda>(k, t). Q t \<and> map_of c k = Some t) c) k = Some t'"
    by (metis (no_types, lifting) weak_map_of_SomeI)
  then have "(k, t') \<in> set (filter (\<lambda>(k, t). Q t \<and> map_of c k = Some t) c)" by (rule map_of_SomeD)
  with * t' show "map_of (filter (\<lambda>(k, t). Q t \<and> map_of c k = Some t) c) k = Some t" by simp
qed

interpretation alist_cache: timed_cache "alist_cache_ops ttl" map_of ttl for ttl
  by unfold_locales
    (simp_all add: alist_cache_ops_def update_conv' map_of_flush split: option.splits)

end
