(* ===== verification/Block_Engine_Auth.thy ===== *)
theory Block_Engine_Auth
  imports Packets
begin

text \<open>
  The relayer as a client of the block engine's auth service (\<open>AuthInterceptor\<close>, \<open>auth\<close> and
  \<open>maybe_refresh_auth\<close> of \<open>block_engine/src/block_engine.rs\<close>). The service is remote: its calls are the
  fields of \<open>auth_client_ops\<close>, over a state \<open>'a\<close> that stands for the connection and the server. A failed
  call carries the text of its status.
\<close>

datatype block_engine_error = AuthServiceFailure string | BlockEngineFailure string

text \<open>The protobuf timestamp and token.\<close>

record proto_timestamp =
  ts_seconds :: int
  ts_nanos :: int

record auth_token =
  tok_value :: string
  expires_at_utc :: "proto_timestamp option"

record 'a auth_client_ops =
  rpc_generate_auth_challenge :: "int \<Rightarrow> bytes \<Rightarrow> 'a \<Rightarrow> (string, string) result \<times> 'a"
  rpc_generate_auth_tokens ::
    "string \<Rightarrow> bytes \<Rightarrow> bytes \<Rightarrow> 'a \<Rightarrow> (auth_token option \<times> auth_token option, string) result \<times> 'a"
  rpc_refresh_access_token :: "string \<Rightarrow> 'a \<Rightarrow> (auth_token option, string) result \<times> 'a"

text \<open>
  The keypair of the node, the number of \<open>Role::Relayer\<close>, \<open>SystemTime::try_from(Timestamp)\<close> (nanoseconds
  since the epoch) and the parser of metadata values.
\<close>

record keypair =
  kp_pubkey :: pubkey
  kp_pubkey_bytes :: bytes
  kp_sign :: "string \<Rightarrow> bytes"

record be_client =
  be_keypair :: keypair
  role_relayer :: int
  system_time_of :: "proto_timestamp \<Rightarrow> nat option"
  metadata_parse :: "string \<Rightarrow> string option"

section \<open>The interceptor\<close>

definition client_interceptor_call ::
  "be_client \<Rightarrow> auth_token \<Rightarrow> (string \<rightharpoonup> string) \<Rightarrow> (string \<rightharpoonup> string, block_engine_error) result" where
  "client_interceptor_call cl access_token metadata =
     and_then (unwrap (metadata_parse cl (''Bearer '' @ tok_value access_token))) (\<lambda>v.
       Ok (metadata(''authorization'' \<mapsto> v)))"

section \<open>The handshake\<close>

text \<open>A remote call followed by the rest of the function.\<close>

definition rpc_then ::
  "('b, string) result \<times> 'a \<Rightarrow> ('b \<Rightarrow> 'a \<Rightarrow> ('c, block_engine_error) result \<times> 'a)
     \<Rightarrow> ('c, block_engine_error) result \<times> 'a" where
  "rpc_then call f =
     (case call of
        (Ok b, a) \<Rightarrow> f b a
      | (Err e, a) \<Rightarrow> (Err (AuthServiceFailure e), a)
      | (Panic, a) \<Rightarrow> (Panic, a))"

definition be_auth ::
  "sdk \<Rightarrow> be_client \<Rightarrow> 'a auth_client_ops \<Rightarrow> 'a
     \<Rightarrow> (auth_token \<times> auth_token, block_engine_error) result \<times> 'a" where
  "be_auth k cl ops a =
     rpc_then (rpc_generate_auth_challenge ops (role_relayer cl) (kp_pubkey_bytes (be_keypair cl)) a)
       (\<lambda>server_challenge a.
          let challenge = pubkey_to_string k (kp_pubkey (be_keypair cl)) @ ''-'' @ server_challenge;
              signed_challenge = kp_sign (be_keypair cl) challenge
          in rpc_then (rpc_generate_auth_tokens ops challenge (kp_pubkey_bytes (be_keypair cl)) signed_challenge a)
               (\<lambda>(maybe_access_token, maybe_refresh_token) a.
                  (case (maybe_access_token, maybe_refresh_token) of
                     (Some access_token, Some refresh_token) \<Rightarrow>
                       if expires_at_utc access_token = None \<or> expires_at_utc refresh_token = None then
                         Err (AuthServiceFailure ''auth tokens don't have valid expiration time'')
                       else Ok (access_token, refresh_token)
                   | _ \<Rightarrow> Err (AuthServiceFailure ''failed to get valid auth tokens''), a)))"

section \<open>Refreshing the tokens\<close>

text \<open>\<open>duration_since\<close> fails when the other time is later.\<close>

definition duration_since :: "nat \<Rightarrow> nat \<Rightarrow> duration option" where
  "duration_since t earlier = (if earlier \<le> t then Some (t - earlier) else None)"

definition expiring_soon :: "duration option \<Rightarrow> bool" where
  "expiring_soon left = (case left of Some dur \<Rightarrow> dur < from_secs (5 * 60) | None \<Rightarrow> True)"

text \<open>\<open>SystemTime::try_from(token.expires_at_utc.unwrap()).unwrap()\<close>\<close>

definition token_expiration :: "be_client \<Rightarrow> auth_token \<Rightarrow> (nat, block_engine_error) result" where
  "token_expiration cl t =
     and_then (unwrap (expires_at_utc t)) (\<lambda>ts. unwrap (system_time_of cl ts))"

text \<open>Both tokens; the access token is shared with the interceptor.\<close>

record 'a auth_tokens =
  shared_access_token :: auth_token
  be_refresh_token :: auth_token
  auth_conn :: 'a

definition refresh_tokens ::
  "sdk \<Rightarrow> be_client \<Rightarrow> 'a auth_client_ops \<Rightarrow> bool \<Rightarrow> bool \<Rightarrow> 'a auth_tokens
     \<Rightarrow> (bool, block_engine_error) result \<times> 'a auth_tokens" where
  "refresh_tokens k cl ops refresh_expiring access_expiring s =
     (if refresh_expiring then
        (case be_auth k cl ops (auth_conn s) of
           (Ok (access_token, new_refresh_token), a) \<Rightarrow>
             (Ok True, s\<lparr>shared_access_token := access_token, be_refresh_token := new_refresh_token,
                         auth_conn := a\<rparr>)
         | (Err e, a) \<Rightarrow> (Err e, s\<lparr>auth_conn := a\<rparr>)
         | (Panic, a) \<Rightarrow> (Panic, s\<lparr>auth_conn := a\<rparr>))
      else if access_expiring then
        (case rpc_refresh_access_token ops (tok_value (be_refresh_token s)) (auth_conn s) of
           (Ok (Some access_token), a) \<Rightarrow> (Ok True, s\<lparr>shared_access_token := access_token, auth_conn := a\<rparr>)
         | (Ok None, a) \<Rightarrow> (Err (AuthServiceFailure ''missing access token''), s\<lparr>auth_conn := a\<rparr>)
         | (Err e, a) \<Rightarrow> (Err (AuthServiceFailure e), s\<lparr>auth_conn := a\<rparr>)
         | (Panic, a) \<Rightarrow> (Panic, s\<lparr>auth_conn := a\<rparr>))
      else (Ok False, s))"

text \<open>\<open>now\<close> and \<open>now'\<close> are the wall clock at the two checks.\<close>

definition maybe_refresh_auth ::
  "sdk \<Rightarrow> be_client \<Rightarrow> 'a auth_client_ops \<Rightarrow> nat \<Rightarrow> nat \<Rightarrow> 'a auth_tokens
     \<Rightarrow> (bool, block_engine_error) result \<times> 'a auth_tokens" where
  "maybe_refresh_auth k cl ops now now' s =
     (case and_then (token_expiration cl (shared_access_token s)) (\<lambda>access_time.
             and_then (token_expiration cl (be_refresh_token s)) (\<lambda>refresh_time.
               Ok (expiring_soon (duration_since refresh_time now'),
                   expiring_soon (duration_since access_time now)))) of
        Ok (refresh_expiring, access_expiring) \<Rightarrow>
          refresh_tokens k cl ops refresh_expiring access_expiring s
      | Err e \<Rightarrow> (Err e, s)
      | Panic \<Rightarrow> (Panic, s))"

section \<open>What the functions guarantee\<close>

text \<open>A successful handshake yields tokens that carry an expiration.\<close>

lemma be_auth_ok:
  assumes "be_auth k cl ops a = (Ok (acc, ref), a')"
  shows "expires_at_utc acc \<noteq> None" "expires_at_utc ref \<noteq> None"
  using assms
  by (auto simp: be_auth_def rpc_then_def Let_def split: prod.splits result.splits option.splits if_splits)

lemma expiring_soon_iff:
  "expiring_soon (duration_since t now) \<longleftrightarrow> t < now + from_secs (5 * 60)"
  by (auto simp: expiring_soon_def duration_since_def from_secs_def)

lemma token_expiration_ok:
  "token_expiration cl t = Ok n \<longleftrightarrow> (\<exists>ts. expires_at_utc t = Some ts \<and> system_time_of cl ts = Some n)"
  by (simp add: token_expiration_def and_then_eq_Ok unwrap_eq_Ok)

text \<open>The check panics exactly if a token has no usable expiration.\<close>

lemma token_expiration_cases:
  "token_expiration cl t = Panic \<or> (\<exists>n. token_expiration cl t = Ok n)"
  by (auto simp: token_expiration_def unwrap_def split: option.split)

lemma maybe_refresh_auth_usable:
  assumes "token_expiration cl (shared_access_token s) = Ok ta" "token_expiration cl (be_refresh_token s) = Ok tr"
  shows "maybe_refresh_auth k cl ops now now' s =
    refresh_tokens k cl ops (tr < now' + from_secs (5 * 60)) (ta < now + from_secs (5 * 60)) s"
  by (simp add: maybe_refresh_auth_def assms expiring_soon_iff)

end
