(* ===== verification/Block_Engine_Stats.thy ===== *)
theory Block_Engine_Stats
  imports Relayer_Prelude
begin

text \<open>
  The counters of the block engine connection (\<open>block_engine/src/block_engine_stats.rs\<close>). Counters
  saturate; \<open>block_engine_packet_sender_len\<close> is a high water mark. \<open>report\<close> only hands the values to the
  metrics client: the event loop keeps the reported records in a list.
\<close>

record block_engine_stats =
  heartbeat_count :: u64
  heartbeat_elapsed_us :: u64
  aoi_update_count :: u64
  aoi_update_elapsed_us :: u64
  aoi_accounts_received :: u64
  poi_update_count :: u64
  poi_update_elapsed_us :: u64
  poi_accounts_received :: u64
  num_packets_received :: u64
  packet_filter_elapsed_us :: u64
  packet_forward_elapsed_us :: u64
  block_engine_packet_sender_len :: u64
  auth_refresh_count :: u64
  refresh_auth_elapsed_us :: u64
  packet_forward_count :: u64
  metrics_delay_us :: u64
  accounts_of_interest_len :: u64
  programs_of_interest_len :: u64
  flush_elapsed_us :: u64

definition block_engine_stats_default :: block_engine_stats where
  "block_engine_stats_default =
     \<lparr>heartbeat_count = 0, heartbeat_elapsed_us = 0, aoi_update_count = 0,
      aoi_update_elapsed_us = 0, aoi_accounts_received = 0, poi_update_count = 0,
      poi_update_elapsed_us = 0, poi_accounts_received = 0, num_packets_received = 0,
      packet_filter_elapsed_us = 0, packet_forward_elapsed_us = 0, block_engine_packet_sender_len = 0,
      auth_refresh_count = 0, refresh_auth_elapsed_us = 0, packet_forward_count = 0,
      metrics_delay_us = 0, accounts_of_interest_len = 0, programs_of_interest_len = 0,
      flush_elapsed_us = 0\<rparr>"

definition increment_heartbeat_count :: "u64 \<Rightarrow> block_engine_stats \<Rightarrow> block_engine_stats" where
  "increment_heartbeat_count num s = s\<lparr>heartbeat_count := saturating_add (heartbeat_count s) num\<rparr>"

definition increment_heartbeat_elapsed_us :: "u64 \<Rightarrow> block_engine_stats \<Rightarrow> block_engine_stats" where
  "increment_heartbeat_elapsed_us num s = s\<lparr>heartbeat_elapsed_us := saturating_add (heartbeat_elapsed_us s) num\<rparr>"

definition increment_aoi_update_count :: "u64 \<Rightarrow> block_engine_stats \<Rightarrow> block_engine_stats" where
  "increment_aoi_update_count num s = s\<lparr>aoi_update_count := saturating_add (aoi_update_count s) num\<rparr>"

definition increment_aoi_accounts_received :: "u64 \<Rightarrow> block_engine_stats \<Rightarrow> block_engine_stats" where
  "increment_aoi_accounts_received num s = s\<lparr>aoi_accounts_received := saturating_add (aoi_accounts_received s) num\<rparr>"

definition increment_aoi_update_elapsed_us :: "u64 \<Rightarrow> block_engine_stats \<Rightarrow> block_engine_stats" where
  "increment_aoi_update_elapsed_us num s = s\<lparr>aoi_update_elapsed_us := saturating_add (aoi_update_elapsed_us s) num\<rparr>"

definition increment_poi_update_count :: "u64 \<Rightarrow> block_engine_stats \<Rightarrow> block_engine_stats" where
  "increment_poi_update_count num s = s\<lparr>poi_update_count := saturating_add (poi_update_count s) num\<rparr>"

definition increment_poi_accounts_received :: "u64 \<Rightarrow> block_engine_stats \<Rightarrow> block_engine_stats" where
  "increment_poi_accounts_received num s = s\<lparr>poi_accounts_received := saturating_add (poi_accounts_received s) num\<rparr>"

definition increment_poi_update_elapsed_us :: "u64 \<Rightarrow> block_engine_stats \<Rightarrow> block_engine_stats" where
  "increment_poi_update_elapsed_us num s = s\<lparr>poi_update_elapsed_us := saturating_add (poi_update_elapsed_us s) num\<rparr>"

definition increment_num_packets_received :: "u64 \<Rightarrow> block_engine_stats \<Rightarrow> block_engine_stats" where
  "increment_num_packets_received num s = s\<lparr>num_packets_received := saturating_add (num_packets_received s) num\<rparr>"

definition increment_packet_filter_elapsed_us :: "u64 \<Rightarrow> block_engine_stats \<Rightarrow> block_engine_stats" where
  "increment_packet_filter_elapsed_us num s = s\<lparr>packet_filter_elapsed_us := saturating_add (packet_filter_elapsed_us s) num\<rparr>"

definition increment_packet_forward_elapsed_us :: "u64 \<Rightarrow> block_engine_stats \<Rightarrow> block_engine_stats" where
  "increment_packet_forward_elapsed_us num s = s\<lparr>packet_forward_elapsed_us := saturating_add (packet_forward_elapsed_us s) num\<rparr>"

definition update_block_engine_packet_sender_len :: "u64 \<Rightarrow> block_engine_stats \<Rightarrow> block_engine_stats" where
  "update_block_engine_packet_sender_len num s = s\<lparr>block_engine_packet_sender_len := max (block_engine_packet_sender_len s) num\<rparr>"

definition increment_auth_refresh_count :: "u64 \<Rightarrow> block_engine_stats \<Rightarrow> block_engine_stats" where
  "increment_auth_refresh_count num s = s\<lparr>auth_refresh_count := saturating_add (auth_refresh_count s) num\<rparr>"

definition increment_refresh_auth_elapsed_us :: "u64 \<Rightarrow> block_engine_stats \<Rightarrow> block_engine_stats" where
  "increment_refresh_auth_elapsed_us num s = s\<lparr>refresh_auth_elapsed_us := saturating_add (refresh_auth_elapsed_us s) num\<rparr>"

definition increment_packet_forward_count :: "u64 \<Rightarrow> block_engine_stats \<Rightarrow> block_engine_stats" where
  "increment_packet_forward_count num s = s\<lparr>packet_forward_count := saturating_add (packet_forward_count s) num\<rparr>"

definition increment_metrics_delay_us :: "u64 \<Rightarrow> block_engine_stats \<Rightarrow> block_engine_stats" where
  "increment_metrics_delay_us num s = s\<lparr>metrics_delay_us := saturating_add (metrics_delay_us s) num\<rparr>"

definition increment_accounts_of_interest_len :: "u64 \<Rightarrow> block_engine_stats \<Rightarrow> block_engine_stats" where
  "increment_accounts_of_interest_len num s = s\<lparr>accounts_of_interest_len := saturating_add (accounts_of_interest_len s) num\<rparr>"

definition increment_programs_of_interest_len :: "u64 \<Rightarrow> block_engine_stats \<Rightarrow> block_engine_stats" where
  "increment_programs_of_interest_len num s = s\<lparr>programs_of_interest_len := saturating_add (programs_of_interest_len s) num\<rparr>"

definition increment_flush_elapsed_us :: "u64 \<Rightarrow> block_engine_stats \<Rightarrow> block_engine_stats" where
  "increment_flush_elapsed_us num s = s\<lparr>flush_elapsed_us := saturating_add (flush_elapsed_us s) num\<rparr>"

lemmas block_engine_stats_defs =
  increment_heartbeat_count_def
  increment_heartbeat_elapsed_us_def
  increment_aoi_update_count_def
  increment_aoi_accounts_received_def
  increment_aoi_update_elapsed_us_def
  increment_poi_update_count_def
  increment_poi_accounts_received_def
  increment_poi_update_elapsed_us_def
  increment_num_packets_received_def
  increment_packet_filter_elapsed_us_def
  increment_packet_forward_elapsed_us_def
  update_block_engine_packet_sender_len_def
  increment_auth_refresh_count_def
  increment_refresh_auth_elapsed_us_def
  increment_packet_forward_count_def
  increment_metrics_delay_us_def
  increment_accounts_of_interest_len_def
  increment_programs_of_interest_len_def
  increment_flush_elapsed_us_def

end
