(* ===== verification/Block_Engine.thy ===== *)
theory Block_Engine
  imports Interest_Filter Block_Engine_Auth Block_Engine_Stats
begin

text \<open>
  The connection to the block engine (\<open>block_engine/src/block_engine.rs\<close>): the updates of the accounts
  and programs of interest, forwarding and heartbeats, the event loop of \<open>handle_packet_stream\<close>, and
  connecting and reconnecting around it. The event loop runs over the list of the arms that
  \<open>select!\<close> takes, with what each of them reads; a run that ends in an error ends the connection.
  \<open>try_send\<close> of the sender is \<open>send_timeout\<close> with three seconds: \<open>SendFull\<close> is the elapsed timeout.
\<close>

section \<open>Interest updates\<close>

fun cache_set_all :: "'c cache_ops \<Rightarrow> (nat \<Rightarrow> instant) \<Rightarrow> nat \<Rightarrow> pubkey list \<Rightarrow> 'c \<Rightarrow> 'c" where
  "cache_set_all ops clock n [] c = c"
| "cache_set_all ops clock n (pk # pks) c = cache_set_all ops clock (Suc n) pks (cache_set ops (clock n) pk c)"

text \<open>The wildcard check and the parsed keys.\<close>

definition interest_update :: "sdk \<Rightarrow> string list \<Rightarrow> bool \<Rightarrow> bool \<times> pubkey list" where
  "interest_update k texts fwd_all =
     (if list_ex (\<lambda>a. a = ''*'') texts then True else fwd_all, List.map_filter (pubkey_from_str k) texts)"

definition handle_aoi ::
  "sdk \<Rightarrow> 'c cache_ops \<Rightarrow> (nat \<Rightarrow> instant) \<Rightarrow> (string list option, string) result \<Rightarrow> 'c \<Rightarrow> bool
     \<Rightarrow> (nat \<times> 'c \<times> bool, block_engine_error) result" where
  "handle_aoi k ops clock maybe_msg c fwd_all =
     (case maybe_msg of
        Ok (Some accounts) \<Rightarrow>
          (case interest_update k accounts fwd_all of
             (fwd_all', pubkeys) \<Rightarrow> Ok (length pubkeys, cache_set_all ops clock 0 pubkeys c, fwd_all'))
      | Ok None \<Rightarrow> Err (BlockEngineFailure ''aoi updates disconnected'')
      | Err e \<Rightarrow> Err (BlockEngineFailure e)
      | Panic \<Rightarrow> Panic)"

definition handle_poi ::
  "sdk \<Rightarrow> 'c cache_ops \<Rightarrow> (nat \<Rightarrow> instant) \<Rightarrow> (string list option, string) result \<Rightarrow> 'c \<Rightarrow> bool
     \<Rightarrow> (nat \<times> 'c \<times> bool, block_engine_error) result" where
  "handle_poi k ops clock maybe_msg c fwd_all =
     (case maybe_msg of
        Ok (Some programs) \<Rightarrow>
          (case interest_update k programs fwd_all of
             (fwd_all', pubkeys) \<Rightarrow> Ok (length pubkeys, cache_set_all ops clock 0 pubkeys c, fwd_all'))
      | Ok None \<Rightarrow> Err (BlockEngineFailure ''poi disconnected'')
      | Err e \<Rightarrow> Err (BlockEngineFailure e)
      | Panic \<Rightarrow> Panic)"

section \<open>Sending\<close>

datatype packet_batch_update = Batches expiring_packet_batch | BeHeartbeat u64

type_synonym 's be_sender_ops = "('s, packet_batch_update) sender_ops"

definition be_forward_packets ::
  "'s be_sender_ops \<Rightarrow> 's \<Rightarrow> expiring_packet_batch \<Rightarrow> (nat \<times> 's, block_engine_error) result" where
  "be_forward_packets ops sender batch =
     and_then (unwrap (epb_batch batch)) (\<lambda>b.
       case try_send ops sender (Batches batch) of
         (SendOk, sender') \<Rightarrow> Ok (length (batch_packets b), sender')
       | _ \<Rightarrow> Err (BlockEngineFailure ''error forwarding packets''))"

definition check_and_send_heartbeat ::
  "'s be_sender_ops \<Rightarrow> 's \<Rightarrow> u64 \<Rightarrow> ('s, block_engine_error) result" where
  "check_and_send_heartbeat ops sender heartbeats =
     (case try_send ops sender (BeHeartbeat heartbeats) of
        (SendOk, sender') \<Rightarrow> Ok sender'
      | _ \<Rightarrow> Err (BlockEngineFailure ''error sending heartbeat''))"

section \<open>The event loop\<close>

definition BLOCK_ENGINE_PACKET_QUEUE_CAPACITY :: u64 where
  "BLOCK_ENGINE_PACKET_QUEUE_CAPACITY = 1000"

definition BLOCK_ENGINE_RESPONSE_TIMEOUT :: duration where
  "BLOCK_ENGINE_RESPONSE_TIMEOUT = from_secs 30"

text \<open>\<open>be_buffer\<close> is the content of the channel from the forwarder.\<close>

record ('c, 's, 'a) be_loop =
  be_interest :: "'c interest"
  be_forward_all :: bool
  be_stats :: block_engine_stats
  be_heartbeat_count :: u64
  last_response_at :: instant
  be_sender :: 's
  be_tokens :: "'a auth_tokens"
  be_buffer :: "block_engine_packets list"
  be_reports :: "block_engine_stats list"

text \<open>The places where an arm reads the monotonic clock.\<close>

datatype be_reading =
    Started | Filtered | ForwardStarted | Ended | WatchdogChecked | FlushStarted | AccountsFlushed | ProgramsFlushed

text \<open>
  What an iteration reads: the clock (at its own places and at each cache operation), the wall clock at
  the token checks, the lookup tables, and the batches that arrive before the arm runs.
\<close>

record be_env =
  bee_at :: "be_reading \<Rightarrow> instant"
  bee_clock :: "nat \<Rightarrow> instant"
  bee_wall_access :: nat
  bee_wall_refresh :: nat
  bee_lookup :: lookup_cache
  bee_arrived :: "block_engine_packets list"

definition bee_us :: "be_env \<Rightarrow> be_reading \<Rightarrow> be_reading \<Rightarrow> u64" where
  "bee_us env from to = as_micros_u64 (elapsed (bee_at env to) (bee_at env from))"

datatype be_arm =
    ResponseArm "(unit option, string) result"
  | BeHeartbeatArm
  | AoiArm "(string list option, string) result"
  | PoiArm "(string list option, string) result"
  | BatchesArm
  | AuthRefreshArm
  | BeMetricsArm instant

definition response_arm ::
  "be_env \<Rightarrow> ('c, 's, 'a) be_loop \<Rightarrow> (unit option, string) result
     \<Rightarrow> (('c, 's, 'a) be_loop, block_engine_error) result" where
  "response_arm env s maybe_response =
     (case maybe_response of
        Ok (Some _) \<Rightarrow> Ok (s\<lparr>last_response_at := bee_at env Started\<rparr>)
      | Ok None \<Rightarrow> Err (BlockEngineFailure ''block engine packet response stream closed'')
      | Err e \<Rightarrow> Err (BlockEngineFailure e)
      | Panic \<Rightarrow> Panic)"

definition be_heartbeat_arm ::
  "'s be_sender_ops \<Rightarrow> be_env \<Rightarrow> ('c, 's, 'a) be_loop \<Rightarrow> (('c, 's, 'a) be_loop, block_engine_error) result" where
  "be_heartbeat_arm ops env s =
     and_then (check_and_send_heartbeat ops (be_sender s) (be_heartbeat_count s)) (\<lambda>sender.
       Ok (s\<lparr>be_sender := sender,
             be_stats := increment_heartbeat_count 1
               (increment_heartbeat_elapsed_us (bee_us env Started Ended) (be_stats s)),
             be_heartbeat_count := be_heartbeat_count s + 1\<rparr>))"

definition aoi_arm ::
  "sdk \<Rightarrow> 'c cache_ops \<Rightarrow> be_env \<Rightarrow> ('c, 's, 'a) be_loop \<Rightarrow> (string list option, string) result
     \<Rightarrow> (('c, 's, 'a) be_loop, block_engine_error) result" where
  "aoi_arm k cops env s maybe_aoi =
     and_then (handle_aoi k cops (bee_clock env) maybe_aoi (accounts_of_interest (be_interest s)) (be_forward_all s))
       (\<lambda>(num_pubkeys, c, fwd_all).
          Ok (s\<lparr>be_interest := (be_interest s)\<lparr>accounts_of_interest := c\<rparr>, be_forward_all := fwd_all,
                be_stats := increment_aoi_accounts_received (word_of_nat num_pubkeys)
                  (increment_aoi_update_count 1
                    (increment_aoi_update_elapsed_us (bee_us env Started Ended) (be_stats s)))\<rparr>))"

definition poi_arm ::
  "sdk \<Rightarrow> 'c cache_ops \<Rightarrow> be_env \<Rightarrow> ('c, 's, 'a) be_loop \<Rightarrow> (string list option, string) result
     \<Rightarrow> (('c, 's, 'a) be_loop, block_engine_error) result" where
  "poi_arm k cops env s maybe_poi =
     and_then (handle_poi k cops (bee_clock env) maybe_poi (programs_of_interest (be_interest s)) (be_forward_all s))
       (\<lambda>(num_pubkeys, c, fwd_all).
          Ok (s\<lparr>be_interest := (be_interest s)\<lparr>programs_of_interest := c\<rparr>, be_forward_all := fwd_all,
                be_stats := increment_poi_accounts_received (word_of_nat num_pubkeys)
                  (increment_poi_update_count 1
                    (increment_poi_update_elapsed_us (bee_us env Started Ended) (be_stats s)))\<rparr>))"

text \<open>\<open>recv\<close> returns \<open>None\<close> once the channel is empty and every sender is gone.\<close>

definition batches_arm ::
  "sdk \<Rightarrow> 'c cache_ops \<Rightarrow> 's be_sender_ops \<Rightarrow> pubkey set \<Rightarrow> be_env \<Rightarrow> ('c, 's, 'a) be_loop
     \<Rightarrow> (('c, 's, 'a) be_loop, block_engine_error) result" where
  "batches_arm k cops sops ofac env s =
     (case be_buffer s of
        [] \<Rightarrow> Err (BlockEngineFailure ''block engine packet receiver disconnected'')
      | batches # rest \<Rightarrow>
          (case filter_packets k cops (bee_clock env) (bee_lookup env) ofac (be_forward_all s) batches (be_interest s) of
             (interest, filtered) \<Rightarrow>
               let st = increment_packet_filter_elapsed_us (bee_us env Started Filtered)
                     (increment_num_packets_received (sum_len_u64 (bep_batch batches)) (be_stats s));
                   s' = s\<lparr>be_buffer := rest, be_interest := interest, be_stats := st\<rparr>
               in (case filtered of
                     None \<Rightarrow> Ok s'
                   | Some filtered_packets \<Rightarrow>
                       and_then (be_forward_packets sops (be_sender s) filtered_packets) (\<lambda>(num, sender).
                         Ok (s'\<lparr>be_sender := sender,
                                be_stats := increment_packet_forward_elapsed_us (bee_us env ForwardStarted Ended)
                                  (increment_packet_forward_count (word_of_nat num) st)\<rparr>)))))"

definition auth_refresh_arm ::
  "sdk \<Rightarrow> be_client \<Rightarrow> 'a auth_client_ops \<Rightarrow> be_env \<Rightarrow> ('c, 's, 'a) be_loop
     \<Rightarrow> (('c, 's, 'a) be_loop, block_engine_error) result" where
  "auth_refresh_arm k cl aops env s =
     (case maybe_refresh_auth k cl aops (bee_wall_access env) (bee_wall_refresh env) (be_tokens s) of
        (r, tokens) \<Rightarrow>
          and_then r (\<lambda>did_refresh.
            let st = (if did_refresh then increment_auth_refresh_count 1 (be_stats s) else be_stats s)
            in Ok (s\<lparr>be_tokens := tokens,
                     be_stats := increment_refresh_auth_elapsed_us (bee_us env Started Ended) st\<rparr>)))"

definition be_metrics_arm ::
  "'c cache_ops \<Rightarrow> be_env \<Rightarrow> ('c, 's, 'a) be_loop \<Rightarrow> instant
     \<Rightarrow> (('c, 's, 'a) be_loop, block_engine_error) result" where
  "be_metrics_arm cops env s rx =
     (let st = increment_metrics_delay_us (as_micros_u64 (elapsed (bee_at env Started) rx)) (be_stats s)
      in if elapsed (bee_at env WatchdogChecked) (last_response_at s) > BLOCK_ENGINE_RESPONSE_TIMEOUT then
           Err (BlockEngineFailure ''no response from block engine in 30s, reconnecting'')
         else
           let accounts = cache_flush cops (bee_at env AccountsFlushed) (accounts_of_interest (be_interest s));
               programs = cache_flush cops (bee_at env ProgramsFlushed) (programs_of_interest (be_interest s));
               st' = increment_programs_of_interest_len (word_of_nat (cache_size cops programs))
                 (increment_accounts_of_interest_len (word_of_nat (cache_size cops accounts))
                   (increment_flush_elapsed_us (bee_us env FlushStarted Ended) st))
           in Ok (s\<lparr>be_interest := (be_interest s)\<lparr>accounts_of_interest := accounts,
                                                    programs_of_interest := programs\<rparr>,
                    be_reports := be_reports s @ [st'],
                    be_stats := block_engine_stats_default\<rparr>))"

record ('c, 's, 'a) be_config =
  be_sdk :: sdk
  be_cache_ops :: "'c cache_ops"
  be_sender_ops :: "'s be_sender_ops"
  be_auth_ops :: "'a auth_client_ops"
  be_cl :: be_client
  be_ofac :: "pubkey set"

definition run_be_arm ::
  "('c, 's, 'a) be_config \<Rightarrow> be_env \<Rightarrow> ('c, 's, 'a) be_loop \<Rightarrow> be_arm
     \<Rightarrow> (('c, 's, 'a) be_loop, block_engine_error) result" where
  "run_be_arm cfg env s arm =
     (case arm of
        ResponseArm r \<Rightarrow> response_arm env s r
      | BeHeartbeatArm \<Rightarrow> be_heartbeat_arm (be_sender_ops cfg) env s
      | AoiArm r \<Rightarrow> aoi_arm (be_sdk cfg) (be_cache_ops cfg) env s r
      | PoiArm r \<Rightarrow> poi_arm (be_sdk cfg) (be_cache_ops cfg) env s r
      | BatchesArm \<Rightarrow> batches_arm (be_sdk cfg) (be_cache_ops cfg) (be_sender_ops cfg) (be_ofac cfg) env s
      | AuthRefreshArm \<Rightarrow> auth_refresh_arm (be_sdk cfg) (be_cl cfg) (be_auth_ops cfg) env s
      | BeMetricsArm rx \<Rightarrow> be_metrics_arm (be_cache_ops cfg) env s rx)"

definition be_step ::
  "('c, 's, 'a) be_config \<Rightarrow> ('c, 's, 'a) be_loop \<Rightarrow> be_arm \<times> be_env
     \<Rightarrow> (('c, 's, 'a) be_loop, block_engine_error) result" where
  "be_step cfg s ev =
     (case ev of (arm, env) \<Rightarrow>
        and_then (run_be_arm cfg env (s\<lparr>be_buffer := be_buffer s @ bee_arrived env\<rparr>) arm) (\<lambda>s'.
          Ok (s'\<lparr>be_stats := update_block_engine_packet_sender_len
                   (BLOCK_ENGINE_PACKET_QUEUE_CAPACITY - capacity (be_sender_ops cfg) (be_sender s')) (be_stats s')\<rparr>)))"

text \<open>
  The receiver is drained until it is found empty; the lists are what arrives after each message taken.
\<close>

function drain_receiver :: "'m list list \<Rightarrow> 'm list \<Rightarrow> 'm list" where
  "drain_receiver arrivals [] = []"
| "drain_receiver [] (m # q) = drain_receiver [] q"
| "drain_receiver (new # arrivals) (m # q) = drain_receiver arrivals (q @ new)"
  by pat_completeness auto
termination
  by (relation "measure (\<lambda>(arrivals, q). length (concat arrivals) + length q)") auto

text \<open>A connection as \<open>handle_packet_stream\<close> finds it: fresh channel and caches, tokens, receiver.\<close>

record ('c, 's, 'a) be_stream =
  str_sender :: 's
  str_cache :: 'c
  str_tokens :: "'a auth_tokens"
  str_buffered :: "block_engine_packets list"
  str_draining :: "block_engine_packets list list"
  str_started :: instant

definition be_init :: "('c, 's, 'a) be_stream \<Rightarrow> ('c, 's, 'a) be_loop" where
  "be_init str =
     \<lparr>be_interest = \<lparr>lookups = 0, accounts_of_interest = str_cache str, programs_of_interest = str_cache str\<rparr>,
      be_forward_all = False, be_stats = block_engine_stats_default, be_heartbeat_count = 0,
      last_response_at = str_started str, be_sender = str_sender str, be_tokens = str_tokens str,
      be_buffer = drain_receiver (str_draining str) (str_buffered str), be_reports = []\<rparr>"

definition handle_packet_stream ::
  "('c, 's, 'a) be_config \<Rightarrow> ('c, 's, 'a) be_stream \<Rightarrow> (be_arm \<times> be_env) list
     \<Rightarrow> (('c, 's, 'a) be_loop, block_engine_error) result" where
  "handle_packet_stream cfg str events = run_loop (be_step cfg) (be_init str) events"

section \<open>Connecting\<close>

text \<open>What a connection attempt to an endpoint meets; \<open>ep_url\<close> is the configured address.\<close>

record endpoint =
  ep_url :: string
  ep_valid :: bool
  ep_tls_ok :: bool
  ep_connect :: "(unit, string) result"

definition connect_endpoint ::
  "(string \<Rightarrow> block_engine_error) \<Rightarrow> endpoint \<Rightarrow> (unit, block_engine_error) result" where
  "connect_endpoint err ep =
     (if \<not> ep_valid ep then Panic
      else if sublist ''https'' (ep_url ep) \<and> \<not> ep_tls_ok ep then Panic
      else map_err err (ep_connect ep))"

text \<open>
  An attempt: the two endpoints, the wall clock at the two readings of the log line, whether the log
  line is enabled (its arguments are evaluated only then), the answers to the three calls that open the
  streams, and the rest of what the stream needs.
\<close>

record ('c, 's, 'a) be_session =
  ses_auth :: endpoint
  ses_engine :: endpoint
  ses_log_info :: bool
  ses_now_access :: nat
  ses_now_refresh :: nat
  ses_subscribe_aoi :: "(unit, string) result"
  ses_subscribe_poi :: "(unit, string) result"
  ses_start_stream :: "(unit, string) result"
  ses_conn :: 'a
  ses_sender :: 's
  ses_cache :: 'c
  ses_buffered :: "block_engine_packets list"
  ses_draining :: "block_engine_packets list list"
  ses_started :: instant
  ses_events :: "(be_arm \<times> be_env) list"

text \<open>A call of the block engine client goes through the interceptor.\<close>

definition client_call ::
  "be_client \<Rightarrow> auth_token \<Rightarrow> (unit, string) result \<Rightarrow> (unit, block_engine_error) result" where
  "client_call cl access_token answer =
     and_then (client_interceptor_call cl access_token Map.empty) (\<lambda>_. map_err BlockEngineFailure answer)"

text \<open>The three calls of \<open>start_event_loop\<close> that open the streams.\<close>

definition open_streams ::
  "be_client \<Rightarrow> ('c, 's, 'a) be_session \<Rightarrow> auth_token \<Rightarrow> (unit, block_engine_error) result" where
  "open_streams cl ses access_token =
     and_then (client_call cl access_token (ses_subscribe_aoi ses)) (\<lambda>_.
     and_then (client_call cl access_token (ses_subscribe_poi ses)) (\<lambda>_.
       client_call cl access_token (ses_start_stream ses)))"

text \<open>The log line of the remaining lifetimes unwraps both.\<close>

definition log_expirations ::
  "be_client \<Rightarrow> ('c, 's, 'a) be_session \<Rightarrow> auth_token \<Rightarrow> auth_token \<Rightarrow> (unit, block_engine_error) result" where
  "log_expirations cl ses access_token refresh_token =
     and_then (token_expiration cl access_token) (\<lambda>access_time.
     and_then (token_expiration cl refresh_token) (\<lambda>refresh_time.
       if ses_log_info ses then
         and_then (unwrap (duration_since access_time (ses_now_access ses))) (\<lambda>_.
         and_then (unwrap (duration_since refresh_time (ses_now_refresh ses))) (\<lambda>_. Ok ()))
       else Ok ()))"

text \<open>\<open>auth_and_connect\<close> up to the call of \<open>start_event_loop\<close>: the tokens in use.\<close>

definition connect_session ::
  "('c, 's, 'a) be_config \<Rightarrow> ('c, 's, 'a) be_session \<Rightarrow> ('a auth_tokens, block_engine_error) result" where
  "connect_session cfg ses =
     and_then (connect_endpoint AuthServiceFailure (ses_auth ses)) (\<lambda>_.
       (case be_auth (be_sdk cfg) (be_cl cfg) (be_auth_ops cfg) (ses_conn ses) of
          (r, conn) \<Rightarrow>
            and_then r (\<lambda>(access_token, refresh_token).
            and_then (log_expirations (be_cl cfg) ses access_token refresh_token) (\<lambda>_.
            and_then (connect_endpoint BlockEngineFailure (ses_engine ses)) (\<lambda>_.
              Ok \<lparr>shared_access_token = access_token, be_refresh_token = refresh_token, auth_conn = conn\<rparr>)))))"

text \<open>
  The event loop and one attempt: the values stored in \<open>is_connected_to_block_engine\<close>, in order, and how it ends.
\<close>

definition start_event_loop ::
  "('c, 's, 'a) be_config \<Rightarrow> ('c, 's, 'a) be_session \<Rightarrow> 'a auth_tokens \<Rightarrow> bool list \<times> (unit, block_engine_error) result" where
  "start_event_loop cfg ses tokens =
     (case open_streams (be_cl cfg) ses (shared_access_token tokens) of
        Ok _ \<Rightarrow>
          ([True],
           and_then (handle_packet_stream cfg
               \<lparr>str_sender = ses_sender ses, str_cache = ses_cache ses, str_tokens = tokens,
                str_buffered = ses_buffered ses, str_draining = ses_draining ses,
                str_started = ses_started ses\<rparr> (ses_events ses)) (\<lambda>_. Ok ()))
      | Err e \<Rightarrow> ([], Err e)
      | Panic \<Rightarrow> ([], Panic))"

definition auth_and_connect ::
  "('c, 's, 'a) be_config \<Rightarrow> ('c, 's, 'a) be_session \<Rightarrow> bool list \<times> (unit, block_engine_error) result" where
  "auth_and_connect cfg ses =
     (case connect_session cfg ses of
        Ok tokens \<Rightarrow> start_event_loop cfg ses tokens
      | Err e \<Rightarrow> ([], Err e)
      | Panic \<Rightarrow> ([], Panic))"

text \<open>
  The thread of the handler: one attempt after another until the exit flag is set
  (the end of the list), with two seconds of sleep after an error. It returns the stores to the flag,
  the delays slept, and whether the thread ended normally; a panic ends it.
\<close>

fun be_handler ::
  "('c, 's, 'a) be_config \<Rightarrow> ('c, 's, 'a) be_session list \<Rightarrow> bool list \<times> duration list \<times> (unit, unit) result" where
  "be_handler cfg [] = ([], [], Ok ())"
| "be_handler cfg (ses # rest) =
     (case auth_and_connect cfg ses of
        (stores, Panic) \<Rightarrow> (stores, [], Panic)
      | (stores, r) \<Rightarrow>
          (case be_handler cfg rest of
             (stores', slept, final) \<Rightarrow>
               (stores @ False # stores', (case r of Err _ \<Rightarrow> [from_secs 2] | _ \<Rightarrow> []) @ slept, final)))"

text \<open>\<open>BlockEngineRelayerHandler::new\<close>: without a configuration (the two addresses) there is no thread.\<close>

definition be_handler_new ::
  "(string \<times> string) option \<Rightarrow> ('c, 's, 'a) be_config \<Rightarrow> ('c, 's, 'a) be_session list
     \<Rightarrow> bool list \<times> duration list \<times> (unit, unit) result" where
  "be_handler_new config cfg sessions =
     (case config of None \<Rightarrow> ([], [], Ok ()) | Some _ \<Rightarrow> be_handler cfg sessions)"

end
