(* ===== verification/Block_Engine_Props.thy ===== *)
theory Block_Engine_Props
  imports Block_Engine Channels
begin

text \<open>
  Invariants of the connection to the block engine. The history of a run is the list of its events; the
  lemmas relate what the sender accepted, the caches and the flags to it.
\<close>

section \<open>What the events say\<close>

definition aoi_texts :: "be_arm \<Rightarrow> string list" where
  "aoi_texts arm = (case arm of AoiArm (Ok (Some ts)) \<Rightarrow> ts | _ \<Rightarrow> [])"

definition poi_texts :: "be_arm \<Rightarrow> string list" where
  "poi_texts arm = (case arm of PoiArm (Ok (Some ts)) \<Rightarrow> ts | _ \<Rightarrow> [])"

text \<open>The accounts and programs named so far, whether a wildcard came, and the batches that arrived.\<close>

definition keys_of :: "sdk \<Rightarrow> string list \<Rightarrow> pubkey set" where
  "keys_of k ts = {pk. \<exists>t\<in>set ts. pubkey_from_str k t = Some pk}"

definition named_aoi :: "sdk \<Rightarrow> (be_arm \<times> be_env) list \<Rightarrow> pubkey set" where
  "named_aoi k es = (\<Union>e\<in>set es. keys_of k (aoi_texts (fst e)))"

definition named_poi :: "sdk \<Rightarrow> (be_arm \<times> be_env) list \<Rightarrow> pubkey set" where
  "named_poi k es = (\<Union>e\<in>set es. keys_of k (poi_texts (fst e)))"

definition wildcard :: "(be_arm \<times> be_env) list \<Rightarrow> bool" where
  "wildcard es \<longleftrightarrow> (\<exists>e\<in>set es. ''*'' \<in> set (aoi_texts (fst e)) \<or> ''*'' \<in> set (poi_texts (fst e)))"

definition be_arrived :: "(be_arm \<times> be_env) list \<Rightarrow> block_engine_packets list" where
  "be_arrived es = concat (map (\<lambda>e. bee_arrived (snd e)) es)"

lemma history_snoc [simp]:
  "named_aoi k (es @ [e]) = named_aoi k es \<union> keys_of k (aoi_texts (fst e))"
  "named_poi k (es @ [e]) = named_poi k es \<union> keys_of k (poi_texts (fst e))"
  "wildcard (es @ [e]) \<longleftrightarrow> wildcard es \<or> ''*'' \<in> set (aoi_texts (fst e)) \<or> ''*'' \<in> set (poi_texts (fst e))"
  "be_arrived (es @ [e]) = be_arrived es @ bee_arrived (snd e)"
  by (auto simp: named_aoi_def named_poi_def wildcard_def be_arrived_def)

lemma history_Nil [simp]:
  "named_aoi k [] = {}" "named_poi k [] = {}" "\<not> wildcard []" "be_arrived [] = []"
  by (simp_all add: named_aoi_def named_poi_def wildcard_def be_arrived_def)

section \<open>Justified messages\<close>

text \<open>
  A message of packets is justified by the history: its packets are, in order, packets of one batch that
  arrived, and each was wanted given the wildcard and the keys named so far; stamp and expiry are those of
  the batch.
\<close>

definition batch_justified ::
  "sdk \<Rightarrow> pubkey set \<Rightarrow> (be_arm \<times> be_env) list \<Rightarrow> expiring_packet_batch \<Rightarrow> bool" where
  "batch_justified k ofac es m \<longleftrightarrow>
     (\<exists>e\<in>set es. \<exists>b\<in>set (be_arrived es). \<exists>out.
        m = \<lparr>epb_header = Some \<lparr>header_ts = Some (bep_stamp b)\<rparr>, epb_batch = Some \<lparr>batch_packets = out\<rparr>,
             epb_expiry_ms = bep_expiration b\<rparr> \<and>
        out \<noteq> [] \<and>
        subseq out (wanted_packets k (bee_lookup (snd e)) ofac (wildcard es) (named_aoi k es) (named_poi k es)
          (bep_batch b)))"

definition update_justified ::
  "sdk \<Rightarrow> pubkey set \<Rightarrow> (be_arm \<times> be_env) list \<Rightarrow> packet_batch_update \<Rightarrow> bool" where
  "update_justified k ofac es u =
     (case u of Batches m \<Rightarrow> batch_justified k ofac es m | BeHeartbeat _ \<Rightarrow> True)"

lemma wanted_mono:
  "wanted k cache ofac w A P p \<Longrightarrow> (w \<Longrightarrow> w') \<Longrightarrow> A \<subseteq> A' \<Longrightarrow> P \<subseteq> P' \<Longrightarrow> wanted k cache ofac w' A' P' p"
  by (auto simp: wanted_def tx_wanted_def split: option.splits intro: touches_mono)

lemma filter_filter_mono: "(\<And>x. P x \<Longrightarrow> Q x) \<Longrightarrow> filter P xs = filter P (filter Q xs)"
  by (metis (mono_tags, lifting) filter_cong filter_filter)

lemma map_filter_subseq: "subseq xs ys \<Longrightarrow> subseq (List.map_filter f xs) (List.map_filter f ys)"
  unfolding List.map_filter_def by (intro subseq_map subseq_filter)

lemma wanted_packets_mono:
  assumes "w \<Longrightarrow> w'" "A \<subseteq> A'" "P \<subseteq> P'"
  shows "subseq (wanted_packets k cache ofac w A P bs) (wanted_packets k cache ofac w' A' P' bs)"
proof -
  have "filter (wanted k cache ofac w A P) (concat bs) =
    filter (wanted k cache ofac w A P) (filter (wanted k cache ofac w' A' P') (concat bs))"
    by (rule filter_filter_mono) (rule wanted_mono [OF _ assms])
  then have "subseq (filter (wanted k cache ofac w A P) (concat bs)) (filter (wanted k cache ofac w' A' P') (concat bs))"
    using subseq_filter_left by metis
  then show ?thesis unfolding wanted_packets_def by (rule map_filter_subseq)
qed

lemma batch_justified_snoc:
  assumes "batch_justified k ofac es m"
  shows "batch_justified k ofac (es @ [e]) m"
proof -
  from assms obtain d b out where d: "d \<in> set es" "b \<in> set (be_arrived es)"
    and m: "m = \<lparr>epb_header = Some \<lparr>header_ts = Some (bep_stamp b)\<rparr>, epb_batch = Some \<lparr>batch_packets = out\<rparr>,
             epb_expiry_ms = bep_expiration b\<rparr>" "out \<noteq> []"
    and out: "subseq out (wanted_packets k (bee_lookup (snd d)) ofac (wildcard es) (named_aoi k es) (named_poi k es)
          (bep_batch b))"
    unfolding batch_justified_def by blast
  have "subseq (wanted_packets k (bee_lookup (snd d)) ofac (wildcard es) (named_aoi k es) (named_poi k es) (bep_batch b))
    (wanted_packets k (bee_lookup (snd d)) ofac (wildcard (es @ [e])) (named_aoi k (es @ [e])) (named_poi k (es @ [e]))
      (bep_batch b))"
    by (rule wanted_packets_mono) auto
  with out have "subseq out (wanted_packets k (bee_lookup (snd d)) ofac (wildcard (es @ [e])) (named_aoi k (es @ [e]))
    (named_poi k (es @ [e])) (bep_batch b))"
    by (rule subseq_order.trans)
  then show ?thesis
    unfolding batch_justified_def using d m
    by (intro bexI [of _ d] bexI [of _ b] exI [of _ out]) auto
qed

lemma update_justified_snoc: "update_justified k ofac es u \<Longrightarrow> update_justified k ofac (es @ [e]) u"
  by (auto simp: update_justified_def intro: batch_justified_snoc split: packet_batch_update.splits)

section \<open>The connection\<close>

text \<open>The heartbeat counts among the messages sent.\<close>

definition beats :: "packet_batch_update list \<Rightarrow> u64 list" where
  "beats us = List.map_filter (\<lambda>u. case u of BeHeartbeat n \<Rightarrow> Some n | Batches _ \<Rightarrow> None) us"

lemma beats_simps [simp]:
  "beats [] = []" "beats (us @ vs) = beats us @ beats vs" "beats [BeHeartbeat n] = [n]" "beats [Batches m] = []"
  by (simp_all add: beats_def List.map_filter_def)

lemma drain_receiver_empty [simp]: "drain_receiver arrivals q = []"
  by (induction arrivals q rule: drain_receiver.induct) auto

text \<open>
  A connection whose caches and channel meet their interfaces: the invariant of its event loop.
\<close>

locale be_connection =
  timed_cache "be_cache_ops cfg" stamps lifespan + mpsc_sender "be_sender_ops cfg" accepted
  for cfg :: "('c, 's, 'a) be_config" and stamps lifespan accepted
begin

text \<open>
  Caches within \<open>A\<close> and \<open>P\<close>, the flag only if \<open>w\<close>, the buffer within \<open>B\<close>.
\<close>

definition state_ok ::
  "pubkey set \<Rightarrow> pubkey set \<Rightarrow> bool \<Rightarrow> block_engine_packets set \<Rightarrow> ('c, 's, 'a) be_loop \<Rightarrow> bool" where
  "state_ok A P w B s \<longleftrightarrow>
     interest_held A P (be_interest s) \<and> (be_forward_all s \<longrightarrow> w) \<and> set (be_buffer s) \<subseteq> B"

lemma dom_set_all:
  "dom (stamps (cache_set_all (be_cache_ops cfg) clock n pks c)) \<subseteq> dom (stamps c) \<union> set pks"
proof (induction pks arbitrary: n c)
  case Nil
  then show ?case by simp
next
  case (Cons pk pks)
  from Cons.IH [of "Suc n" "cache_set (be_cache_ops cfg) (clock n) pk c"] dom_set [of "clock n" pk c]
  show ?case by auto
qed

lemma set_map_filter_keys: "set (List.map_filter (pubkey_from_str k) ts) = keys_of k ts"
  by (force simp: List.map_filter_def keys_of_def)

lemma keys_of_Nil [simp]: "keys_of k [] = {}"
  by (simp add: keys_of_def)

lemma dom_set_all_keys:
  "dom (stamps c) \<subseteq> A \<Longrightarrow>
    dom (stamps (cache_set_all (be_cache_ops cfg) clock n (List.map_filter (pubkey_from_str k) ts) c)) \<subseteq> A \<union> keys_of k ts"
  using dom_set_all [of clock n "List.map_filter (pubkey_from_str k) ts" c]
  unfolding set_map_filter_keys by blast

lemma aoi_arm_ok:
  assumes "aoi_arm (be_sdk cfg) (be_cache_ops cfg) env s r = Ok s'" "state_ok A P w B s"
  shows "state_ok (A \<union> keys_of (be_sdk cfg) (aoi_texts (AoiArm r))) P (w \<or> ''*'' \<in> set (aoi_texts (AoiArm r))) B s'"
proof -
  from assms(1) obtain ts where r: "r = Ok (Some ts)"
    by (auto simp: aoi_arm_def handle_aoi_def split: result.splits option.splits)
  then have t: "aoi_texts (AoiArm r) = ts" by (simp add: aoi_texts_def)
  from assms(1) have "accounts_of_interest (be_interest s') = cache_set_all (be_cache_ops cfg) (bee_clock env) 0
      (List.map_filter (pubkey_from_str (be_sdk cfg)) ts) (accounts_of_interest (be_interest s))"
    "programs_of_interest (be_interest s') = programs_of_interest (be_interest s)"
    "be_forward_all s' \<longleftrightarrow> be_forward_all s \<or> ''*'' \<in> set ts" "be_buffer s' = be_buffer s"
    by (auto simp: aoi_arm_def handle_aoi_def r interest_update_def list_ex_iff)
  with assms(2) show ?thesis
    by (simp add: t state_ok_def interest_held_def dom_set_all_keys)
qed

lemma poi_arm_ok:
  assumes "poi_arm (be_sdk cfg) (be_cache_ops cfg) env s r = Ok s'" "state_ok A P w B s"
  shows "state_ok A (P \<union> keys_of (be_sdk cfg) (poi_texts (PoiArm r))) (w \<or> ''*'' \<in> set (poi_texts (PoiArm r))) B s'"
proof -
  from assms(1) obtain ts where r: "r = Ok (Some ts)"
    by (auto simp: poi_arm_def handle_poi_def split: result.splits option.splits)
  then have t: "poi_texts (PoiArm r) = ts" by (simp add: poi_texts_def)
  from assms(1) have "programs_of_interest (be_interest s') = cache_set_all (be_cache_ops cfg) (bee_clock env) 0
      (List.map_filter (pubkey_from_str (be_sdk cfg)) ts) (programs_of_interest (be_interest s))"
    "accounts_of_interest (be_interest s') = accounts_of_interest (be_interest s)"
    "be_forward_all s' \<longleftrightarrow> be_forward_all s \<or> ''*'' \<in> set ts" "be_buffer s' = be_buffer s"
    by (auto simp: poi_arm_def handle_poi_def r interest_update_def list_ex_iff)
  with assms(2) show ?thesis
    by (simp add: t state_ok_def interest_held_def dom_set_all_keys)
qed

lemma be_metrics_arm_ok:
  assumes "be_metrics_arm (be_cache_ops cfg) env s rx = Ok s'" "state_ok A P w B s"
  shows "state_ok A P w B s'"
proof -
  have f: "dom (stamps c) \<subseteq> X \<Longrightarrow> dom (stamps (cache_flush (be_cache_ops cfg) t c)) \<subseteq> X" for c X t
    using dom_flush [of t c] by (rule subset_trans)
  from assms(1) have
    "accounts_of_interest (be_interest s') =
       cache_flush (be_cache_ops cfg) (bee_at env AccountsFlushed) (accounts_of_interest (be_interest s))"
    "programs_of_interest (be_interest s') =
       cache_flush (be_cache_ops cfg) (bee_at env ProgramsFlushed) (programs_of_interest (be_interest s))"
    "be_forward_all s' = be_forward_all s" "be_buffer s' = be_buffer s"
    by (auto simp: be_metrics_arm_def Let_def split: if_splits)
  with assms(2) show ?thesis by (simp add: state_ok_def interest_held_def f)
qed

lemma batches_arm_ok:
  assumes "batches_arm (be_sdk cfg) (be_cache_ops cfg) (be_sender_ops cfg) (be_ofac cfg) env s = Ok s'"
    "state_ok A P w B s"
  obtains us where "state_ok A P w B s'" "accepted (be_sender s') = accepted (be_sender s) @ us"
    "be_heartbeat_count s' = be_heartbeat_count s"
    "us = [] \<or> (\<exists>b out. b \<in> B \<and> out \<noteq> [] \<and>
       us = [Batches \<lparr>epb_header = Some \<lparr>header_ts = Some (bep_stamp b)\<rparr>, epb_batch = Some \<lparr>batch_packets = out\<rparr>,
             epb_expiry_ms = bep_expiration b\<rparr>] \<and>
       subseq out (wanted_packets (be_sdk cfg) (bee_lookup env) (be_ofac cfg) w A P (bep_batch b)))"
proof -
  from assms(1) obtain b rest where b: "be_buffer s = b # rest"
    by (auto simp: batches_arm_def split: list.splits)
  have held: "interest_held A P (be_interest s)" and fw: "be_forward_all s \<Longrightarrow> w" and bB: "b \<in> B" "set rest \<subseteq> B"
    using assms(2) by (auto simp: state_ok_def b)
  obtain i out where f: "filter_packets (be_sdk cfg) (be_cache_ops cfg) (bee_clock env) (bee_lookup env) (be_ofac cfg)
      (be_forward_all s) b (be_interest s) = (i,
       if out = [] then None
       else Some \<lparr>epb_header = Some \<lparr>header_ts = Some (bep_stamp b)\<rparr>,
                  epb_batch = Some \<lparr>batch_packets = out\<rparr>, epb_expiry_ms = bep_expiration b\<rparr>)"
    and i: "interest_held A P i"
    and out: "subseq out (wanted_packets (be_sdk cfg) (bee_lookup env) (be_ofac cfg) (be_forward_all s) A P (bep_batch b))"
    using filter_packets_between [OF lookups_between_held held] by blast
  have out': "subseq out (wanted_packets (be_sdk cfg) (bee_lookup env) (be_ofac cfg) w A P (bep_batch b))"
    using out wanted_packets_mono [OF fw subset_refl subset_refl] by (rule subseq_order.trans)
  show ?thesis
  proof (cases "out = []")
    case True
    with assms(1) have s': "be_interest s' = i" "be_forward_all s' = be_forward_all s" "be_buffer s' = rest"
      "be_sender s' = be_sender s" "be_heartbeat_count s' = be_heartbeat_count s"
      by (auto simp: batches_arm_def b f Let_def)
    then show ?thesis by (intro that [of "[]"]) (simp_all add: state_ok_def i fw bB)
  next
    case False
    let ?m = "Batches \<lparr>epb_header = Some \<lparr>header_ts = Some (bep_stamp b)\<rparr>, epb_batch = Some \<lparr>batch_packets = out\<rparr>,
             epb_expiry_ms = bep_expiration b\<rparr>"
    from False assms(1) have s': "be_interest s' = i" "be_forward_all s' = be_forward_all s" "be_buffer s' = rest"
      "try_send (be_sender_ops cfg) (be_sender s) ?m = (SendOk, be_sender s')"
      "be_heartbeat_count s' = be_heartbeat_count s"
      by (auto simp: batches_arm_def b f Let_def be_forward_packets_def unwrap_def split: send_outcome.splits prod.splits)
    from try_send_ok [OF s'(4)] show ?thesis
      by (intro that [of "[?m]"])
        (use s' False bB out' in \<open>auto simp: state_ok_def i fw\<close>)
  qed
qed

abbreviation knows :: "(be_arm \<times> be_env) list \<Rightarrow> ('c, 's, 'a) be_loop \<Rightarrow> bool" where
  "knows es \<equiv> state_ok (named_aoi (be_sdk cfg) es) (named_poi (be_sdk cfg) es) (wildcard es) (set (be_arrived es))"

lemma state_ok_other:
  "be_interest s' = be_interest s \<Longrightarrow> be_forward_all s' = be_forward_all s \<Longrightarrow> be_buffer s' = be_buffer s \<Longrightarrow>
    state_ok A P w B s \<Longrightarrow> state_ok A P w B s'"
  by (simp add: state_ok_def)

text \<open>One arm: what it adds to the stream and how the known keys grow.\<close>

lemma run_be_arm_ok:
  fixes env :: be_env
  assumes arm: "run_be_arm cfg env s arm = Ok s'" and s: "state_ok A P w B s"
  defines "A' \<equiv> A \<union> keys_of (be_sdk cfg) (aoi_texts arm)" and "P' \<equiv> P \<union> keys_of (be_sdk cfg) (poi_texts arm)"
    and "w' \<equiv> w \<or> ''*'' \<in> set (aoi_texts arm) \<or> ''*'' \<in> set (poi_texts arm)"
  obtains us where "state_ok A' P' w' B s'" "accepted (be_sender s') = accepted (be_sender s) @ us"
    "us = [] \<and> be_heartbeat_count s' = be_heartbeat_count s \<or>
     us = [BeHeartbeat (be_heartbeat_count s)] \<and> be_heartbeat_count s' = be_heartbeat_count s + 1 \<or>
     be_heartbeat_count s' = be_heartbeat_count s \<and> (\<exists>b out. b \<in> B \<and> out \<noteq> [] \<and>
       us = [Batches \<lparr>epb_header = Some \<lparr>header_ts = Some (bep_stamp b)\<rparr>, epb_batch = Some \<lparr>batch_packets = out\<rparr>,
             epb_expiry_ms = bep_expiration b\<rparr>] \<and>
       subseq out (wanted_packets (be_sdk cfg) (bee_lookup env) (be_ofac cfg) w' A' P' (bep_batch b)))"
proof (cases arm)
  case (ResponseArm r)
  with arm have f: "be_interest s' = be_interest s" "be_forward_all s' = be_forward_all s" "be_buffer s' = be_buffer s"
    "be_sender s' = be_sender s" "be_heartbeat_count s' = be_heartbeat_count s"
    by (auto simp: run_be_arm_def response_arm_def split: result.splits option.splits)
  show ?thesis
    by (rule that [of "[]"])
      (use state_ok_other [OF f(1-3) s] f in \<open>simp_all add: A'_def P'_def w'_def ResponseArm aoi_texts_def poi_texts_def\<close>)
next
  case BeHeartbeatArm
  with arm have f: "be_interest s' = be_interest s" "be_forward_all s' = be_forward_all s" "be_buffer s' = be_buffer s"
    "try_send (be_sender_ops cfg) (be_sender s) (BeHeartbeat (be_heartbeat_count s)) = (SendOk, be_sender s')"
    "be_heartbeat_count s' = be_heartbeat_count s + 1"
    by (auto simp: run_be_arm_def be_heartbeat_arm_def check_and_send_heartbeat_def rust_simps
        split: send_outcome.splits prod.splits)
  show ?thesis
    by (rule that [of "[BeHeartbeat (be_heartbeat_count s)]"])
      (use state_ok_other [OF f(1-3) s] f try_send_ok [OF f(4)] in
        \<open>simp_all add: A'_def P'_def w'_def BeHeartbeatArm aoi_texts_def poi_texts_def\<close>)
next
  case (AoiArm r)
  with arm have a: "aoi_arm (be_sdk cfg) (be_cache_ops cfg) env s r = Ok s'" by (simp add: run_be_arm_def)
  then have "be_sender s' = be_sender s" "be_heartbeat_count s' = be_heartbeat_count s"
    by (auto simp: aoi_arm_def rust_simps)
  then show ?thesis
    by (intro that [of "[]"])
      (use aoi_arm_ok [OF a s] in \<open>simp_all add: A'_def P'_def w'_def AoiArm poi_texts_def\<close>)
next
  case (PoiArm r)
  with arm have a: "poi_arm (be_sdk cfg) (be_cache_ops cfg) env s r = Ok s'" by (simp add: run_be_arm_def)
  then have "be_sender s' = be_sender s" "be_heartbeat_count s' = be_heartbeat_count s"
    by (auto simp: poi_arm_def rust_simps)
  then show ?thesis
    by (intro that [of "[]"])
      (use poi_arm_ok [OF a s] in \<open>simp_all add: A'_def P'_def w'_def PoiArm aoi_texts_def\<close>)
next
  case BatchesArm
  with arm have a: "batches_arm (be_sdk cfg) (be_cache_ops cfg) (be_sender_ops cfg) (be_ofac cfg) env s = Ok s'"
    by (simp add: run_be_arm_def)
  have eq: "A' = A" "P' = P" "w' = w"
    by (simp_all add: A'_def P'_def w'_def BatchesArm aoi_texts_def poi_texts_def)
  show ?thesis
    by (rule batches_arm_ok [OF a s], rule that, unfold eq) blast+
next
  case AuthRefreshArm
  with arm have f: "be_interest s' = be_interest s" "be_forward_all s' = be_forward_all s" "be_buffer s' = be_buffer s"
    "be_sender s' = be_sender s" "be_heartbeat_count s' = be_heartbeat_count s"
    by (auto simp: run_be_arm_def auth_refresh_arm_def rust_simps Let_def split: prod.splits)
  show ?thesis
    by (rule that [of "[]"])
      (use state_ok_other [OF f(1-3) s] f in \<open>simp_all add: A'_def P'_def w'_def AuthRefreshArm aoi_texts_def poi_texts_def\<close>)
next
  case (BeMetricsArm rx)
  with arm have a: "be_metrics_arm (be_cache_ops cfg) env s rx = Ok s'" by (simp add: run_be_arm_def)
  then have "be_sender s' = be_sender s" "be_heartbeat_count s' = be_heartbeat_count s"
    by (auto simp: be_metrics_arm_def Let_def split: if_splits)
  then show ?thesis
    by (intro that [of "[]"])
      (use be_metrics_arm_ok [OF a s] in \<open>simp_all add: A'_def P'_def w'_def BeMetricsArm aoi_texts_def poi_texts_def\<close>)
qed

text \<open>The messages sent so far are justified, and the heartbeats among them are numbered from zero.\<close>

definition sent_ok :: "(be_arm \<times> be_env) list \<Rightarrow> packet_batch_update list \<Rightarrow> u64 \<Rightarrow> bool" where
  "sent_ok es us n \<longleftrightarrow>
     (\<forall>u\<in>set us. update_justified (be_sdk cfg) (be_ofac cfg) es u) \<and>
     beats us = map word_of_nat [0..<length (beats us)] \<and> n = word_of_nat (length (beats us))"

lemma be_step_ok:
  assumes step: "be_step cfg s e = Ok s'" and s: "knows es s"
    and us: "accepted (be_sender s) = acc @ us" "sent_ok es us (be_heartbeat_count s)"
  obtains us' where "knows (es @ [e]) s'" "accepted (be_sender s') = acc @ us'"
    "sent_ok (es @ [e]) us' (be_heartbeat_count s')"
proof -
  obtain arm env where e: "e = (arm, env)" by (cases e)
  let ?s = "s\<lparr>be_buffer := be_buffer s @ bee_arrived env\<rparr>"
  from step obtain t where t: "run_be_arm cfg env ?s arm = Ok t"
    and s': "be_interest s' = be_interest t" "be_forward_all s' = be_forward_all t" "be_buffer s' = be_buffer t"
      "be_sender s' = be_sender t" "be_heartbeat_count s' = be_heartbeat_count t"
    by (auto simp: be_step_def e rust_simps)
  have "state_ok (named_aoi (be_sdk cfg) es) (named_poi (be_sdk cfg) es) (wildcard es) (set (be_arrived (es @ [e]))) ?s"
    using s by (auto simp: state_ok_def e)
  from run_be_arm_ok [OF t this] obtain vs where
    vs: "knows (es @ [e]) t" "accepted (be_sender t) = accepted (be_sender s) @ vs"
    and new: "vs = [] \<and> be_heartbeat_count t = be_heartbeat_count s \<or>
     vs = [BeHeartbeat (be_heartbeat_count s)] \<and> be_heartbeat_count t = be_heartbeat_count s + 1 \<or>
     be_heartbeat_count t = be_heartbeat_count s \<and> (\<exists>b out. b \<in> set (be_arrived (es @ [e])) \<and> out \<noteq> [] \<and>
       vs = [Batches \<lparr>epb_header = Some \<lparr>header_ts = Some (bep_stamp b)\<rparr>, epb_batch = Some \<lparr>batch_packets = out\<rparr>,
             epb_expiry_ms = bep_expiration b\<rparr>] \<and>
       subseq out (wanted_packets (be_sdk cfg) (bee_lookup env) (be_ofac cfg) (wildcard (es @ [e]))
         (named_aoi (be_sdk cfg) (es @ [e])) (named_poi (be_sdk cfg) (es @ [e])) (bep_batch b)))"
    by (simp add: e) blast
  have old: "\<forall>u\<in>set us. update_justified (be_sdk cfg) (be_ofac cfg) (es @ [e]) u"
    using us(2) update_justified_snoc by (auto simp: sent_ok_def)
  have beats: "beats us = map word_of_nat [0..<length (beats us)]"
    "be_heartbeat_count s = word_of_nat (length (beats us))"
    using us(2) by (auto simp: sent_ok_def)
  have "sent_ok (es @ [e]) (us @ vs) (be_heartbeat_count t)"
    using new
  proof (elim disjE conjE exE)
    assume "vs = []" "be_heartbeat_count t = be_heartbeat_count s"
    with old beats show ?thesis by (simp add: sent_ok_def)
  next
    assume v: "vs = [BeHeartbeat (be_heartbeat_count s)]" "be_heartbeat_count t = be_heartbeat_count s + 1"
    show ?thesis unfolding sent_ok_def
    proof (intro conjI)
      show "\<forall>u\<in>set (us @ vs). update_justified (be_sdk cfg) (be_ofac cfg) (es @ [e]) u"
        using old by (simp add: v update_justified_def)
      show "beats (us @ vs) = map word_of_nat [0..<length (beats (us @ vs))]"
        using beats by (simp add: v)
      show "be_heartbeat_count t = word_of_nat (length (beats (us @ vs)))"
        using beats(2) by (simp add: v)
    qed
  next
    fix b out
    assume c: "be_heartbeat_count t = be_heartbeat_count s" and b: "b \<in> set (be_arrived (es @ [e]))" "out \<noteq> []"
      and v: "vs = [Batches \<lparr>epb_header = Some \<lparr>header_ts = Some (bep_stamp b)\<rparr>,
             epb_batch = Some \<lparr>batch_packets = out\<rparr>, epb_expiry_ms = bep_expiration b\<rparr>]"
      and out: "subseq out (wanted_packets (be_sdk cfg) (bee_lookup env) (be_ofac cfg) (wildcard (es @ [e]))
         (named_aoi (be_sdk cfg) (es @ [e])) (named_poi (be_sdk cfg) (es @ [e])) (bep_batch b))"
    have "batch_justified (be_sdk cfg) (be_ofac cfg) (es @ [e])
      \<lparr>epb_header = Some \<lparr>header_ts = Some (bep_stamp b)\<rparr>, epb_batch = Some \<lparr>batch_packets = out\<rparr>,
       epb_expiry_ms = bep_expiration b\<rparr>"
      unfolding batch_justified_def
      by (rule bexI [of _ e], rule bexI [OF _ b(1)], rule exI [of _ out]) (use b out in \<open>simp_all add: e\<close>)
    with old beats c show ?thesis by (simp add: sent_ok_def v update_justified_def)
  qed
  moreover have "knows (es @ [e]) s'"
    using vs(1) state_ok_other [OF s'(1-3)] by blast
  ultimately show ?thesis
    using vs(2) us(1) s' by (intro that [of "us @ vs"]) simp_all
qed

lemma be_run_ok:
  assumes "run_loop (be_step cfg) s es = Ok s'" "knows hist s" "accepted (be_sender s) = acc @ us"
    "sent_ok hist us (be_heartbeat_count s)"
  shows "\<exists>us'. knows (hist @ es) s' \<and> accepted (be_sender s') = acc @ us' \<and>
    sent_ok (hist @ es) us' (be_heartbeat_count s')"
  using assms
proof (induction es arbitrary: s hist us)
  case Nil
  then show ?case by auto
next
  case (Cons e es)
  from Cons.prems(1) obtain t where t: "be_step cfg s e = Ok t" "run_loop (be_step cfg) t es = Ok s'"
    by (auto simp: rust_simps)
  obtain us' where *: "knows (hist @ [e]) t" "accepted (be_sender t) = acc @ us'"
    "sent_ok (hist @ [e]) us' (be_heartbeat_count t)"
    using be_step_ok [OF t(1) Cons.prems(2-4)] by blast
  from Cons.IH [OF t(2) *] show ?case by simp
qed

lemma handle_packet_stream_ok:
  assumes "handle_packet_stream cfg str es = Ok s'" "stamps (str_cache str) = Map.empty"
  obtains us where "knows es s'" "accepted (be_sender s') = accepted (str_sender str) @ us"
    "sent_ok es us (be_heartbeat_count s')"
proof -
  have "knows [] (be_init str)"
    by (simp add: state_ok_def interest_held_def be_init_def assms(2))
  moreover have "accepted (be_sender (be_init str)) = accepted (str_sender str) @ []"
    "sent_ok [] [] (be_heartbeat_count (be_init str))"
    by (simp_all add: be_init_def sent_ok_def)
  ultimately show ?thesis
    using be_run_ok [of "be_init str" es s' "[]" "accepted (str_sender str)" "[]"] assms(1) that
    unfolding handle_packet_stream_def by auto
qed

end

text \<open>The interface is met by the cache and channel of the development, whatever the other parts.\<close>

definition alist_be_config ::
  "duration \<Rightarrow> sdk \<Rightarrow> 'a auth_client_ops \<Rightarrow> be_client \<Rightarrow> pubkey set
     \<Rightarrow> (alist_cache, packet_batch_update chan, 'a) be_config" where
  "alist_be_config ttl k aops cl ofac =
     \<lparr>be_sdk = k, be_cache_ops = alist_cache_ops ttl, be_sender_ops = chan_ops, be_auth_ops = aops,
      be_cl = cl, be_ofac = ofac\<rparr>"

interpretation alist_be: be_connection "alist_be_config ttl k aops cl ofac" map_of ttl ch_log
  for ttl k aops cl ofac
  by (rule be_connection.intro)
    (simp_all add: alist_be_config_def alist_cache.timed_cache_axioms bounded_chan.mpsc_sender_axioms)

section \<open>The watchdog\<close>

text \<open>The instant of the last reply, or of the start of the stream.\<close>

definition last_reply :: "instant \<Rightarrow> (be_arm \<times> be_env) list \<Rightarrow> instant" where
  "last_reply start es =
     fold (\<lambda>(arm, env) t. case arm of ResponseArm _ \<Rightarrow> bee_at env Started | _ \<Rightarrow> t) es start"

lemma be_step_last_response:
  assumes "be_step cfg s (arm, env) = Ok s'"
  shows "last_response_at s' = (case arm of ResponseArm _ \<Rightarrow> bee_at env Started | _ \<Rightarrow> last_response_at s)"
proof -
  from assms obtain t where
    t: "run_be_arm cfg env (s\<lparr>be_buffer := be_buffer s @ bee_arrived env\<rparr>) arm = Ok t"
    and s': "last_response_at s' = last_response_at t"
    by (auto simp: be_step_def rust_simps)
  show ?thesis
    using t unfolding s'
    by (cases arm)
      (auto simp: run_be_arm_def response_arm_def be_heartbeat_arm_def aoi_arm_def poi_arm_def batches_arm_def
        auth_refresh_arm_def be_metrics_arm_def rust_simps Let_def
        split: result.splits option.splits list.splits prod.splits if_splits)
qed

lemma be_run_last_response:
  "run_loop (be_step cfg) s es = Ok s' \<Longrightarrow> last_response_at s' = last_reply (last_response_at s) es"
proof (induction rule: run_loop_induct)
  case (Nil s)
  then show ?case by (simp add: last_reply_def)
next
  case (Cons s e t es s')
  obtain arm env where e: "e = (arm, env)" by (cases e)
  from Cons.IH be_step_last_response [OF Cons.hyps(1) [unfolded e]] show ?case
    by (simp add: last_reply_def e)
qed

section \<open>Attempts\<close>

text \<open>Authentication, both connections and the three streams succeed.\<close>

definition establish ::
  "('c, 's, 'a) be_config \<Rightarrow> ('c, 's, 'a) be_session \<Rightarrow> ('a auth_tokens, block_engine_error) result" where
  "establish cfg ses =
     and_then (connect_session cfg ses) (\<lambda>tokens.
       and_then (open_streams (be_cl cfg) ses (shared_access_token tokens)) (\<lambda>_. Ok tokens))"

lemma auth_and_connect_stores:
  "fst (auth_and_connect cfg ses) = (if is_ok (establish cfg ses) then [True] else [])"
  by (simp add: auth_and_connect_def start_event_loop_def establish_def is_ok_def split: result.split)

end
