(* ===== verification/Block_Engine_Theorems.thy ===== *)
theory Block_Engine_Theorems
  imports Block_Engine_Props Witness_Data
begin

text \<open>
  The properties of the connection to the block engine: what the filter lets through, what the stream
  carries, the liveness watchdog, the refresh of the tokens, and the connection flag.
\<close>

section \<open>The filter\<close>

definition demo_interest :: "alist_cache interest" where
  "demo_interest = \<lparr>lookups = 0, accounts_of_interest = [(3, 100), (2, 110), (1, 10)], programs_of_interest = []\<rparr>"

definition demo_bep :: block_engine_packets where
  "demo_bep = \<lparr>bep_batch = [[demo_packet [1], demo_packet [2]], [demo_packet [3]]], bep_stamp = 77, bep_expiration = 5\<rparr>"

text \<open>
  C6: \<open>filter_packets\<close> forwards, in their order, the packets a block engine asked for and no others. Between
  two instants \<open>t0\<close> and \<open>t1\<close> that bound the clock readings of one call, every non-discarded packet that
  deserializes, names no OFAC address and (unless everything is forwarded) touches an account or program
  whose cache entry has not expired at \<open>t1\<close> is part of the result, and every packet of the result is such a
  packet for the entries not expired at \<open>t0\<close>; where no entry expires in between the result is exact. The
  message carries the stamp and the expiry of the batch, and there is none when no packet is left.
\<close>

theorem filter_packets_exact:
  fixes s :: "'c interest"
  assumes "timed_cache ops stamps lifespan" "clock_within t0 t1 clock"
  defines "A \<equiv> \<lambda>t. live_keys stamps lifespan t (accounts_of_interest s)"
    and "P \<equiv> \<lambda>t. live_keys stamps lifespan t (programs_of_interest s)"
  shows "\<exists>out. snd (filter_packets k ops clock cache ofac fwd_all batches s) =
      (if out = [] then None
       else Some \<lparr>epb_header = Some \<lparr>header_ts = Some (bep_stamp batches)\<rparr>,
                  epb_batch = Some \<lparr>batch_packets = out\<rparr>, epb_expiry_ms = bep_expiration batches\<rparr>) \<and>
    subseq (wanted_packets k cache ofac fwd_all (A t1) (P t1) (bep_batch batches)) out \<and>
    subseq out (wanted_packets k cache ofac fwd_all (A t0) (P t0) (bep_batch batches)) \<and>
    (A t0 = A t1 \<and> P t0 = P t1 \<longrightarrow> out = wanted_packets k cache ofac fwd_all (A t0) (P t0) (bep_batch batches))"
proof -
  note within = timed_cache.lookups_between_instants [OF assms(1,2), of "A t1" "A t0" "P t1" "P t0"]
  have start: "timed_cache.interest_within stamps lifespan t0 t1 (A t1) (A t0) (P t1) (P t0) s"
    unfolding A_def P_def by (rule timed_cache.interest_within_start [OF assms(1)])
  show ?thesis
    by (rule filter_packets_between [OF within start, of k cache ofac fwd_all batches],
        rule exI, intro conjI impI, simp, assumption, assumption)
      (metis subseq_order.antisym)
qed

text \<open>Packet 1 touches an expired entry, packet 2 an OFAC address, packet 3 a live entry.\<close>

theorem filter_packets_exact_witness:
  "\<exists>out. snd (filter_packets demo_sdk (alist_cache_ops 50) (\<lambda>_. 120) (\<lambda>_. None) {2} False demo_bep demo_interest) =
      (if out = [] then None
       else Some \<lparr>epb_header = Some \<lparr>header_ts = Some 77\<rparr>,
                  epb_batch = Some \<lparr>batch_packets = out\<rparr>, epb_expiry_ms = 5\<rparr>) \<and> length out = 1"
proof -
  have c: "clock_within 120 120 (\<lambda>_. 120)" by (simp add: clock_within_def)
  have live: "live_keys map_of 50 120 (accounts_of_interest demo_interest) = {3, 2}"
    by (auto simp: live_keys_def demo_interest_def elapsed_def split: if_splits)
  have w: "length (wanted_packets demo_sdk (\<lambda>_. None) {2} False {3, 2}
      (live_keys map_of 50 120 (programs_of_interest demo_interest)) (bep_batch demo_bep)) = 1"
    by (simp add: wanted_packets_def wanted_def tx_wanted_def touches_def touches_static_def demo_bep_def demo_defs
        named_accounts_def loaded_accounts_def packet_to_proto_packet_def map_filter_simps live_keys_def demo_interest_def)
  have t: "timed_cache (alist_cache_ops 50) map_of 50" by (rule alist_cache.timed_cache_axioms)
  show ?thesis
    using filter_packets_exact [OF t c, where s = demo_interest and k = demo_sdk
        and cache = "\<lambda>_. None" and ofac = "{2}" and fwd_all = False and batches = demo_bep]
    unfolding live using w by (auto simp: demo_bep_def)
qed

section \<open>The stream\<close>

text \<open>
  C3: the messages a block engine receives over a whole connection. After any run of the event loop that
  has not failed, everything put on the packet stream since it was opened is a heartbeat or a batch
  justified by the events so far: a non-empty selection, in order, of the packets of one batch that
  arrived from the forwarder after the old ones were drained, none discarded, none naming an OFAC
  address, each naming an account or program the block engine asked for unless it sent the wildcard.
  The heartbeats are numbered 0, 1, 2, ... without a gap (modulo the width of the counter).
\<close>

theorem be_stream_justified:
  assumes "timed_cache (be_cache_ops cfg) stamps lifespan" "mpsc_sender (be_sender_ops cfg) accepted"
    "handle_packet_stream cfg str es = Ok s" "stamps (str_cache str) = Map.empty"
  shows "\<exists>us. accepted (be_sender s) = accepted (str_sender str) @ us \<and>
    (\<forall>u\<in>set us. update_justified (be_sdk cfg) (be_ofac cfg) es u) \<and>
    beats us = map word_of_nat [0..<length (beats us)]"
proof -
  note conn = be_connection.intro [OF assms(1,2)]
  from be_connection.handle_packet_stream_ok [OF conn assms(3,4)] obtain us where
    "accepted (be_sender s) = accepted (str_sender str) @ us"
    "be_connection.sent_ok cfg es us (be_heartbeat_count s)" by blast
  then show ?thesis by (auto simp: be_connection.sent_ok_def [OF conn])
qed

definition demo_be_token :: "string \<Rightarrow> int \<Rightarrow> auth_token" where
  "demo_be_token v t = \<lparr>tok_value = v, expires_at_utc = Some \<lparr>ts_seconds = t, ts_nanos = 0\<rparr>\<rparr>"

definition demo_keypair :: keypair where
  "demo_keypair = \<lparr>kp_pubkey = 4, kp_pubkey_bytes = replicate 32 4, kp_sign = (\<lambda>_. replicate 64 1)\<rparr>"

definition demo_client :: be_client where
  "demo_client = \<lparr>be_keypair = demo_keypair, role_relayer = 0,
     system_time_of = (\<lambda>t. if 0 \<le> ts_seconds t then Some (from_secs (nat (ts_seconds t))) else None),
     metadata_parse = Some\<rparr>"

text \<open>A server that answers every call; a refreshed access token carries no expiration.\<close>

definition demo_auth_ops :: "unit auth_client_ops" where
  "demo_auth_ops = \<lparr>rpc_generate_auth_challenge = (\<lambda>_ _ a. (Ok ''c'', a)),
     rpc_generate_auth_tokens = (\<lambda>_ _ _ a. (Ok (Some (demo_be_token ''a'' 3600), Some (demo_be_token ''r'' 7200)), a)),
     rpc_refresh_access_token = (\<lambda>_ a. (Ok (Some \<lparr>tok_value = ''b'', expires_at_utc = None\<rparr>), a))\<rparr>"

abbreviation demo_be_config :: "(alist_cache, packet_batch_update chan, unit) be_config" where
  "demo_be_config \<equiv> alist_be_config (from_secs 300) demo_sdk demo_auth_ops demo_client {2}"

definition demo_stream :: "(alist_cache, packet_batch_update chan, unit) be_stream" where
  "demo_stream = \<lparr>str_sender = chan_new 10, str_cache = [],
     str_tokens = \<lparr>shared_access_token = demo_be_token ''a'' 3600, be_refresh_token = demo_be_token ''r'' 7200, auth_conn = ()\<rparr>,
     str_buffered = [demo_bep], str_draining = [[demo_bep]], str_started = 0\<rparr>"

definition demo_be_env :: "instant \<Rightarrow> block_engine_packets list \<Rightarrow> be_env" where
  "demo_be_env t arrived = \<lparr>bee_at = (\<lambda>_. t), bee_clock = (\<lambda>_. t), bee_wall_access = t, bee_wall_refresh = t,
     bee_lookup = (\<lambda>_. None), bee_arrived = arrived\<rparr>"

definition demo_be_events :: "(be_arm \<times> be_env) list" where
  "demo_be_events = [(BeHeartbeatArm, demo_be_env 1 []), (AoiArm (Ok (Some [''aaa''])), demo_be_env 2 [demo_bep]),
     (BatchesArm, demo_be_env 3 []), (BeHeartbeatArm, demo_be_env 4 [])]"

lemmas be_eval = handle_packet_stream_def be_step_def run_be_arm_def be_init_def be_heartbeat_arm_def
  check_and_send_heartbeat_def aoi_arm_def handle_aoi_def interest_update_def batches_arm_def filter_packets_def
  filter_packet_def is_forwardable_def is_aoi_in_static_keys_def is_aoi_in_lookup_table_def or_st_def aoi_get_def
  poi_get_def be_forward_packets_def unwrap_def alist_be_config_def alist_cache_ops_def demo_stream_def
  demo_be_events_def demo_be_env_def demo_bep_def map_filter_simps elapsed_def from_secs_def Let_def
  enumerate_eq_zip upt_conv_Cons

text \<open>
  A heartbeat, an update naming account 3, a batch of which only packet 3 is forwarded, a heartbeat.
\<close>

lemma demo_stream_runs:
  "case handle_packet_stream demo_be_config demo_stream demo_be_events of
     Ok s \<Rightarrow> length (ch_log (be_sender s)) = 3 \<and> be_buffer s = []
   | _ \<Rightarrow> False"
  by (simp add: be_eval demo_defs relayer_eval chan_capacity_def)

theorem be_stream_justified_witness:
  "\<exists>s. handle_packet_stream demo_be_config demo_stream demo_be_events = Ok s \<and> length (ch_log (be_sender s)) = 3 \<and>
    (\<exists>us. ch_log (be_sender s) = ch_log (chan_new 10) @ us \<and>
      (\<forall>u\<in>set us. update_justified demo_sdk {2} demo_be_events u) \<and>
      beats us = map word_of_nat [0..<length (beats us)])"
proof -
  from demo_stream_runs obtain s where
    s: "handle_packet_stream demo_be_config demo_stream demo_be_events = Ok s" "length (ch_log (be_sender s)) = 3"
    by (auto split: result.splits)
  have "timed_cache (be_cache_ops demo_be_config) map_of (from_secs 300)"
    "mpsc_sender (be_sender_ops demo_be_config) ch_log" "map_of (str_cache demo_stream) = Map.empty"
    by (simp_all add: alist_be_config_def alist_cache.timed_cache_axioms bounded_chan.mpsc_sender_axioms demo_stream_def)
  from be_stream_justified [OF this(1,2) s(1) this(3)] s show ?thesis
    by (auto simp: alist_be_config_def demo_stream_def)
qed

section \<open>The watchdog\<close>

text \<open>
  C21: the response watchdog. At every metrics tick of a running stream the connection is given up, with the
  error that makes the handler reconnect, exactly if more than thirty seconds have passed since the block
  engine's last reply (or since the stream was opened, if it never replied); otherwise the tick succeeds,
  drops the expired cache entries, reports the statistics and starts new ones.
\<close>

theorem be_watchdog:
  assumes "handle_packet_stream cfg str es = Ok s"
  shows "(from_secs 30 < elapsed (bee_at env WatchdogChecked) (last_reply (str_started str) es) \<longrightarrow>
      handle_packet_stream cfg str (es @ [(BeMetricsArm rx, env)]) =
        Err (BlockEngineFailure ''no response from block engine in 30s, reconnecting'')) \<and>
    (elapsed (bee_at env WatchdogChecked) (last_reply (str_started str) es) \<le> from_secs 30 \<longrightarrow>
      (\<exists>s' report. handle_packet_stream cfg str (es @ [(BeMetricsArm rx, env)]) = Ok s' \<and>
         accounts_of_interest (be_interest s') =
           cache_flush (be_cache_ops cfg) (bee_at env AccountsFlushed) (accounts_of_interest (be_interest s)) \<and>
         programs_of_interest (be_interest s') =
           cache_flush (be_cache_ops cfg) (bee_at env ProgramsFlushed) (programs_of_interest (be_interest s)) \<and>
         be_reports s' = be_reports s @ [report] \<and> heartbeat_count report = heartbeat_count (be_stats s) \<and>
         packet_forward_count report = packet_forward_count (be_stats s) \<and>
         heartbeat_count (be_stats s') = 0 \<and> packet_forward_count (be_stats s') = 0))"
proof -
  have run: "handle_packet_stream cfg str (es @ [e]) = be_step cfg s e" for e
    using assms by (cases "be_step cfg s e") (simp_all add: handle_packet_stream_def run_loop_append)
  have last: "last_response_at s = last_reply (str_started str) es"
    using be_run_last_response [OF assms [unfolded handle_packet_stream_def]] by (simp add: be_init_def)
  show ?thesis
    unfolding run last [symmetric]
    by (auto simp: be_step_def run_be_arm_def be_metrics_arm_def Let_def BLOCK_ENGINE_RESPONSE_TIMEOUT_def
        block_engine_stats_defs block_engine_stats_default_def)
qed

text \<open>A reply after 5 s keeps the connection up at 34 s; without it, it is given up.\<close>

theorem be_watchdog_witness:
  "handle_packet_stream demo_be_config demo_stream [(BeMetricsArm 0, demo_be_env (from_secs 34) [])] =
     Err (BlockEngineFailure ''no response from block engine in 30s, reconnecting'') \<and>
   is_ok (handle_packet_stream demo_be_config demo_stream
     ([(ResponseArm (Ok (Some ())), demo_be_env (from_secs 5) [])] @ [(BeMetricsArm 0, demo_be_env (from_secs 34) [])]))"
proof -
  have start: "handle_packet_stream demo_be_config demo_stream [] = Ok (be_init demo_stream)"
    by (simp add: handle_packet_stream_def)
  obtain s where s: "handle_packet_stream demo_be_config demo_stream
      [(ResponseArm (Ok (Some ())), demo_be_env (from_secs 5) [])] = Ok s"
    by (simp add: handle_packet_stream_def be_step_def run_be_arm_def response_arm_def)
  have "from_secs 30 < elapsed (bee_at (demo_be_env (from_secs 34) []) WatchdogChecked)
      (last_reply (str_started demo_stream) [])"
    "elapsed (bee_at (demo_be_env (from_secs 34) []) WatchdogChecked) (last_reply (str_started demo_stream)
      [(ResponseArm (Ok (Some ())), demo_be_env (from_secs 5) [])]) \<le> from_secs 30"
    by (simp_all add: last_reply_def demo_be_env_def demo_stream_def elapsed_def from_secs_def)
  with be_watchdog [OF start, of "demo_be_env (from_secs 34) []" 0] be_watchdog [OF s, of "demo_be_env (from_secs 34) []" 0]
  show ?thesis by (auto simp: is_ok_def)
qed

section \<open>Tokens\<close>

text \<open>
  C34: the decision of \<open>maybe_refresh_auth\<close> when both tokens have a usable expiration. If the refresh token
  expires in less than five minutes (or has expired), the handshake is run again and both tokens are
  replaced; otherwise, if the access token does, only it is replaced, by the one the server returns for the
  refresh token; otherwise nothing happens and both tokens are valid for five minutes. A failed call or a
  missing token is an error, and the tokens are kept.
\<close>

theorem maybe_refresh_auth_contract:
  assumes "token_expiration cl (shared_access_token s) = Ok ta" "token_expiration cl (be_refresh_token s) = Ok tr"
    "maybe_refresh_auth k cl ops now now' s = (r, s')"
  shows "(tr < now' + from_secs 300 \<longrightarrow>
      (case be_auth k cl ops (auth_conn s) of
         (Ok (acc, ref), a) \<Rightarrow> r = Ok True \<and> shared_access_token s' = acc \<and> be_refresh_token s' = ref
       | (Err e, a) \<Rightarrow> r = Err e \<and> shared_access_token s' = shared_access_token s \<and> be_refresh_token s' = be_refresh_token s
       | (Panic, a) \<Rightarrow> r = Panic)) \<and>
    (now' + from_secs 300 \<le> tr \<and> ta < now + from_secs 300 \<longrightarrow>
      be_refresh_token s' = be_refresh_token s \<and>
      (case fst (rpc_refresh_access_token ops (tok_value (be_refresh_token s)) (auth_conn s)) of
         Ok (Some acc) \<Rightarrow> r = Ok True \<and> shared_access_token s' = acc
       | Ok None \<Rightarrow> r = Err (AuthServiceFailure ''missing access token'') \<and> shared_access_token s' = shared_access_token s
       | Err e \<Rightarrow> r = Err (AuthServiceFailure e) \<and> shared_access_token s' = shared_access_token s
       | Panic \<Rightarrow> r = Panic)) \<and>
    (now' + from_secs 300 \<le> tr \<and> now + from_secs 300 \<le> ta \<longleftrightarrow> r = Ok False) \<and> (r = Ok False \<longrightarrow> s' = s)"
proof -
  have eq: "(r, s') = refresh_tokens k cl ops (tr < now' + from_secs 300) (ta < now + from_secs 300) s"
    using maybe_refresh_auth_usable [OF assms(1,2), of k ops now now'] assms(3) by simp
  consider (auth) "tr < now' + from_secs 300" | (access) "now' + from_secs 300 \<le> tr" "ta < now + from_secs 300"
    | (none) "now' + from_secs 300 \<le> tr" "now + from_secs 300 \<le> ta" by linarith
  then show ?thesis
  proof cases
    case auth
    with eq show ?thesis by (auto simp: refresh_tokens_def split: prod.splits result.splits)
  next
    case access
    with eq show ?thesis by (auto simp: refresh_tokens_def split: prod.splits result.splits option.splits)
  next
    case none
    with eq show ?thesis by (simp add: refresh_tokens_def)
  qed
qed

definition demo_be_tokens :: "unit auth_tokens" where
  "demo_be_tokens = \<lparr>shared_access_token = demo_be_token ''a'' 3600, be_refresh_token = demo_be_token ''r'' 7200, auth_conn = ()\<rparr>"

lemma demo_be_token_expiration:
  "token_expiration demo_client (shared_access_token demo_be_tokens) = Ok (from_secs 3600)"
  "token_expiration demo_client (be_refresh_token demo_be_tokens) = Ok (from_secs 7200)"
  by (simp_all add: token_expiration_def demo_be_tokens_def demo_be_token_def demo_client_def unwrap_def)

theorem maybe_refresh_auth_contract_witness:
  "fst (maybe_refresh_auth demo_sdk demo_client demo_auth_ops (from_secs 3300) (from_secs 3300) demo_be_tokens) = Ok False \<and>
   fst (maybe_refresh_auth demo_sdk demo_client demo_auth_ops (from_secs 3301) (from_secs 3301) demo_be_tokens) = Ok True \<and>
   tok_value (be_refresh_token (snd (maybe_refresh_auth demo_sdk demo_client demo_auth_ops (from_secs 3301)
     (from_secs 3301) demo_be_tokens))) = ''r''"
proof -
  note c = maybe_refresh_auth_contract [OF demo_be_token_expiration, of demo_sdk demo_auth_ops _ _,
      OF prod.collapse [symmetric]]
  show ?thesis
    using c [of "from_secs 3300" "from_secs 3300"] c [of "from_secs 3301" "from_secs 3301"]
    by (simp add: from_secs_def demo_auth_ops_def demo_be_tokens_def demo_be_token_def)
qed

text \<open>
  A refreshed access token is not checked for an expiration. When only the access token is expiring and
  the server answers with a token that has none, \<open>maybe_refresh_auth\<close> reports success and stores it, and the
  next check of the same tokens, whenever it happens, panics, although the source relies on the field
  having been checked "when establishing connection".
\<close>

lemma refreshed_token_panics:
  assumes "token_expiration cl (shared_access_token s) = Ok ta" "token_expiration cl (be_refresh_token s) = Ok tr"
    "now' + from_secs 300 \<le> tr" "ta < now + from_secs 300"
    "rpc_refresh_access_token ops (tok_value (be_refresh_token s)) (auth_conn s) = (Ok (Some tok), a)"
    "expires_at_utc tok = None"
  shows "\<exists>s'. maybe_refresh_auth k cl ops now now' s = (Ok True, s') \<and>
      (\<forall>t t'. fst (maybe_refresh_auth k cl ops t t' s') = Panic)"
proof (intro exI conjI allI)
  show "maybe_refresh_auth k cl ops now now' s = (Ok True, s\<lparr>shared_access_token := tok, auth_conn := a\<rparr>)"
    using assms by (simp add: maybe_refresh_auth_usable [OF assms(1,2)] refresh_tokens_def)
  show "fst (maybe_refresh_auth k cl ops t t' (s\<lparr>shared_access_token := tok, auth_conn := a\<rparr>)) = Panic" for t t'
    using assms(6) by (simp add: maybe_refresh_auth_def token_expiration_def unwrap_def)
qed

section \<open>The connection flag\<close>

text \<open>
  C22: the flag \<open>is_connected_to_block_engine\<close> and the retries of the handler thread. While the thread lives,
  each attempt raises the flag at most once, exactly if authentication, connection and the three
  subscriptions succeeded, and lowers it when the attempt is over, whatever its outcome; after each failed
  attempt, and no other, the thread sleeps two seconds, and it goes on with the next attempt. Only a panic
  ends the thread early, and then the flag keeps the value it had.
\<close>

theorem be_handler_flag:
  assumes "be_handler cfg sessions = (stores, slept, final)"
  defines "up \<equiv> \<lambda>ses. if is_ok (establish cfg ses) then [True] else []"
    and "alive \<equiv> takeWhile (\<lambda>ses. snd (auth_and_connect cfg ses) \<noteq> Panic) sessions"
  shows "stores = concat (map (\<lambda>ses. up ses @ [False]) alive) @
      (case drop (length alive) sessions of [] \<Rightarrow> [] | ses # _ \<Rightarrow> up ses) \<and>
    slept = replicate (length (filter (\<lambda>ses. \<not> is_ok (snd (auth_and_connect cfg ses))) alive)) (from_secs 2) \<and>
    (final = Ok () \<longleftrightarrow> alive = sessions) \<and> (final = Panic \<longleftrightarrow> alive \<noteq> sessions)"
  using assms(1) unfolding alive_def
proof (induction sessions arbitrary: stores slept final)
  case Nil
  then show ?case by auto
next
  case (Cons ses rest)
  obtain st r where st: "auth_and_connect cfg ses = (st, r)" by (cases "auth_and_connect cfg ses")
  have up: "st = up ses" using auth_and_connect_stores [of cfg ses] by (simp add: st up_def)
  obtain st' sl' f' where rest: "be_handler cfg rest = (st', sl', f')" by (cases "be_handler cfg rest")
  show ?case
  proof (cases "r = Panic")
    case True
    with Cons.prems show ?thesis by (simp add: st up)
  next
    case False
    with Cons.prems have eq: "stores = st @ False # st'"
      "slept = (case r of Err _ \<Rightarrow> [from_secs 2] | _ \<Rightarrow> []) @ sl'" "final = f'"
      by (auto simp: st rest split: result.splits)
    show ?thesis
      using Cons.IH [OF rest] False
      by (cases r) (auto simp: eq st up is_ok_def)
  qed
qed

definition demo_endpoint :: "(unit, string) result \<Rightarrow> endpoint" where
  "demo_endpoint r = \<lparr>ep_url = ''http://localhost'', ep_valid = True, ep_tls_ok = True, ep_connect = r\<rparr>"

definition demo_session ::
  "(unit, string) result \<Rightarrow> (be_arm \<times> be_env) list \<Rightarrow> (alist_cache, packet_batch_update chan, unit) be_session" where
  "demo_session engine events =
     \<lparr>ses_auth = demo_endpoint (Ok ()), ses_engine = demo_endpoint engine, ses_log_info = True,
      ses_now_access = 0, ses_now_refresh = 0, ses_subscribe_aoi = Ok (), ses_subscribe_poi = Ok (),
      ses_start_stream = Ok (), ses_conn = (), ses_sender = chan_new 10, ses_cache = [], ses_buffered = [],
      ses_draining = [], ses_started = 0, ses_events = events\<rparr>"

definition demo_sessions :: "(alist_cache, packet_batch_update chan, unit) be_session list" where
  "demo_sessions = [demo_session (Err ''refused'') [], demo_session (Ok ()) [(AoiArm (Ok None), demo_be_env 5 [])],
     demo_session (Ok ()) []]"

lemmas connect_eval = auth_and_connect_def connect_session_def start_event_loop_def connect_endpoint_def be_auth_def rpc_then_def
  log_expirations_def token_expiration_def open_streams_def client_call_def client_interceptor_call_def
  duration_since_def unwrap_def demo_session_def demo_endpoint_def demo_auth_ops_def demo_be_token_def demo_client_def
  alist_be_config_def handle_packet_stream_def be_step_def run_be_arm_def aoi_arm_def handle_aoi_def

text \<open>The engine refuses once; then a stream that breaks; then one that lasts until the exit.\<close>

lemma demo_attempts:
  "auth_and_connect demo_be_config (demo_session (Err ''refused'') []) = ([], Err (BlockEngineFailure ''refused''))"
  "auth_and_connect demo_be_config (demo_session (Ok ()) [(AoiArm (Ok None), demo_be_env 5 [])]) =
     ([True], Err (BlockEngineFailure ''aoi updates disconnected''))"
  "auth_and_connect demo_be_config (demo_session (Ok ()) []) = ([True], Ok ())"
  by (simp_all add: connect_eval)

text \<open>
  A token that has expired by the local clock when the session starts ends the handler thread: the log line unwraps
  the remaining lifetime. The panic hook then ends the process.
\<close>

lemma expired_token_ends_handler:
  assumes "connect_endpoint AuthServiceFailure (ses_auth ses) = Ok ()" "ses_log_info ses"
    and "fst (be_auth (be_sdk cfg) (be_cl cfg) (be_auth_ops cfg) (ses_conn ses)) = Ok (access, refresh)"
    and "token_expiration (be_cl cfg) access = Ok t" "t < ses_now_access ses" "token_expiration (be_cl cfg) refresh = Ok t'"
  shows "be_handler cfg (ses # rest) = ([], [], Panic)"
proof -
  obtain conn where "be_auth (be_sdk cfg) (be_cl cfg) (be_auth_ops cfg) (ses_conn ses) = (Ok (access, refresh), conn)"
    using assms(3) by (metis prod.collapse)
  with assms(1,2,4-6) have "connect_session cfg ses = Panic"
    by (simp add: connect_session_def log_expirations_def duration_since_def unwrap_def)
  then show ?thesis by (simp add: auth_and_connect_def)
qed

lemma expired_token_ends_handler_example:
  "be_handler demo_be_config ((demo_session (Ok ()) [])\<lparr>ses_now_access := from_secs 3601\<rparr> # rest) = ([], [], Panic)"
  by (simp add: connect_eval from_secs_def)

theorem be_handler_flag_witness:
  "be_handler demo_be_config demo_sessions =
     ([False, True, False, True, False], [from_secs 2, from_secs 2], Ok ()) \<and>
   takeWhile (\<lambda>ses. snd (auth_and_connect demo_be_config ses) \<noteq> Panic) demo_sessions = demo_sessions"
proof -
  have run: "be_handler demo_be_config demo_sessions =
     ([False, True, False, True, False], [from_secs 2, from_secs 2], Ok ())"
    by (simp add: demo_sessions_def demo_attempts)
  with be_handler_flag [OF run] show ?thesis by simp
qed

end
