(* ===== verification/Startup.thy ===== *)
theory Startup
  imports Relayer_Core Forwarder Schedule_Cache
begin

text \<open>
  The program's entry point (\<open>transaction-relayer/src/main.rs\<close>): the command line, the sockets, the checks
  and the configuration handed to each component, who may authenticate, and the thread that keeps the
  cache of address lookup tables. Everything that can fail at startup panics.
\<close>

section \<open>The command line\<close>

record args =
  arg_tpu_port :: u16
  arg_tpu_fwd_port :: u16
  arg_tpu_quic_port :: u16
  arg_num_tpu_quic_servers :: u16
  arg_tpu_quic_fwd_port :: u16
  arg_num_tpu_fwd_quic_servers :: u16
  arg_grpc_bind_ip :: ip_addr
  arg_grpc_bind_port :: u16
  arg_rpc_servers :: "string list"
  arg_websocket_servers :: "string list"
  arg_entrypoint_address :: string
  arg_public_ip :: "ip_addr option"
  arg_packet_delay_ms :: u32
  arg_block_engine_url :: "string option"
  arg_block_engine_auth_service_url :: "string option"
  arg_keypair_path :: string
  arg_allowed_validators :: "pubkey list option"
  arg_signing_key_pem_path :: string
  arg_verifying_key_pem_path :: string
  arg_access_token_ttl_secs :: u64
  arg_refresh_token_ttl_secs :: u64
  arg_challenge_ttl_secs :: u64
  arg_challenge_expiration_sleep_interval_secs :: u64
  arg_missing_slot_unhealthy_secs :: u64
  arg_cluster :: "string option"
  arg_region :: "string option"
  arg_aoi_cache_ttl_secs :: u64
  arg_lookup_table_refresh_secs :: u64
  arg_enable_lookup_table_refresh :: bool
  arg_ofac_addresses :: "pubkey list option"
  arg_webserver_bind_addr :: "ip_addr \<times> u16"
  arg_max_unstaked_quic_connections :: u64
  arg_max_staked_quic_connections :: u64
  arg_validator_packet_batch_size :: nat
  arg_disable_mempool :: bool
  arg_forward_all :: bool
  arg_staked_nodes_overrides :: "string option"
  arg_slot_lookahead :: u64
  arg_heartbeat_tick_time :: u64

text \<open>The declared defaults; the three paths have none.\<close>

definition args_default :: "string \<Rightarrow> string \<Rightarrow> string \<Rightarrow> args" where
  "args_default keypair_path signing_key_pem_path verifying_key_pem_path =
     \<lparr>arg_tpu_port = 0, arg_tpu_fwd_port = 0, arg_tpu_quic_port = 11228, arg_num_tpu_quic_servers = 1,
      arg_tpu_quic_fwd_port = 11229, arg_num_tpu_fwd_quic_servers = 1, arg_grpc_bind_ip = V4 0,
      arg_grpc_bind_port = 11226, arg_rpc_servers = [''http://127.0.0.1:8899''],
      arg_websocket_servers = [''ws://127.0.0.1:8900''],
      arg_entrypoint_address = ''entrypoint.mainnet-beta.solana.com:8001'', arg_public_ip = None,
      arg_packet_delay_ms = 50, arg_block_engine_url = None, arg_block_engine_auth_service_url = None,
      arg_keypair_path = keypair_path, arg_allowed_validators = None,
      arg_signing_key_pem_path = signing_key_pem_path, arg_verifying_key_pem_path = verifying_key_pem_path,
      arg_access_token_ttl_secs = 1800, arg_refresh_token_ttl_secs = 180000, arg_challenge_ttl_secs = 1800,
      arg_challenge_expiration_sleep_interval_secs = 180, arg_missing_slot_unhealthy_secs = 10,
      arg_cluster = None, arg_region = None, arg_aoi_cache_ttl_secs = 300, arg_lookup_table_refresh_secs = 600,
      arg_enable_lookup_table_refresh = False, arg_ofac_addresses = None,
      arg_webserver_bind_addr = (V4 0x7F000001, 11227), arg_max_unstaked_quic_connections = 500,
      arg_max_staked_quic_connections = 2000, arg_validator_packet_batch_size = 4, arg_disable_mempool = False,
      arg_forward_all = False, arg_staked_nodes_overrides = None, arg_slot_lookahead = 5,
      arg_heartbeat_tick_time = 100\<rparr>"

section \<open>Sockets\<close>

text \<open>\<open>a..b\<close> on ports.\<close>

definition u16_range :: "u16 \<Rightarrow> u16 \<Rightarrow> u16 list" where
  "u16_range a b = map word_of_nat [unat a..<unat b]"

text \<open>
  \<open>bind (from, to)\<close> is \<open>multi_bind_in_range_with_config\<close> on \<open>0.0.0.0\<close> for one socket: the port and the
  sockets, or a failure.
\<close>

fun bind_sockets ::
  "(u16 \<times> u16 \<Rightarrow> (u16 \<times> 'sock list) option) \<Rightarrow> u16 \<Rightarrow> u16 list \<Rightarrow> (u16 list \<times> 'sock list, unit) result" where
  "bind_sockets bind start [] = Ok ([], [])"
| "bind_sockets bind start (i # is) =
     and_then (unwrap (bind (start + i, start + 1 + i))) (\<lambda>(port, socks).
     and_then (if socks = [] then Panic else Ok (last socks)) (\<lambda>sock.
     and_then (bind_sockets bind start is) (\<lambda>(ports, socks').
       Ok (port # ports, sock # socks'))))"

record 'sock tpu_sockets =
  transactions_quic_sockets :: "'sock list"
  transactions_forwards_quic_sockets :: "'sock list"

definition u16_MAX :: u16 where
  "u16_MAX = 65535"

definition get_sockets ::
  "(u16 \<times> u16 \<Rightarrow> (u16 \<times> 'sock list) option) \<Rightarrow> args \<Rightarrow> ('sock tpu_sockets, unit) result" where
  "get_sockets bind a =
     (if \<not> arg_num_tpu_quic_servers a < u16_MAX \<or> \<not> arg_num_tpu_fwd_quic_servers a < u16_MAX then Panic
      else
        and_then (unwrap (checked_add (arg_tpu_quic_port a) (arg_num_tpu_quic_servers a))) (\<lambda>tpu_end.
        and_then (unwrap (checked_add (arg_tpu_quic_fwd_port a) (arg_num_tpu_fwd_quic_servers a))) (\<lambda>fwd_end.
          let tpu_ports = u16_range (arg_tpu_quic_port a) tpu_end;
              tpu_fwd_ports = u16_range (arg_tpu_quic_fwd_port a) fwd_end
          in if list_ex (\<lambda>p. arg_tpu_quic_fwd_port a \<le> p \<and> p < fwd_end) tpu_ports then Panic
             else
               and_then (bind_sockets bind (arg_tpu_quic_port a) (u16_range 0 (arg_num_tpu_quic_servers a)))
                 (\<lambda>(tpu_p, tpu_quic_sockets).
               and_then (bind_sockets bind (arg_tpu_quic_fwd_port a) (u16_range 0 (arg_num_tpu_fwd_quic_servers a)))
                 (\<lambda>(tpu_fwd_p, tpu_fwd_quic_sockets).
                  if tpu_ports \<noteq> tpu_p \<or> tpu_fwd_ports \<noteq> tpu_fwd_p then Panic
                  else Ok \<lparr>transactions_quic_sockets = tpu_quic_sockets,
                           transactions_forwards_quic_sockets = tpu_fwd_quic_sockets\<rparr>)))))"

section \<open>Who may authenticate\<close>

datatype validator_store = LeaderSchedule schedule | UserDefined "pubkey set"

definition is_authorized :: "validator_store \<Rightarrow> pubkey \<Rightarrow> bool" where
  "is_authorized store pubkey =
     (case store of
        LeaderSchedule cache \<Rightarrow> is_scheduled_validator cache pubkey
      | UserDefined pubkeys \<Rightarrow> pubkey \<in> pubkeys)"

definition validator_store_of :: "args \<Rightarrow> schedule \<Rightarrow> validator_store" where
  "validator_store_of a leader_cache =
     (case arg_allowed_validators a of
        Some pubkeys \<Rightarrow> UserDefined (set pubkeys)
      | None \<Rightarrow> LeaderSchedule leader_cache)"

section \<open>Files\<close>

text \<open>
  The files of the host and the crates that parse them: \<open>read_keypair_file\<close> with the public key of what it reads, the
  host name if it is there and valid text, the contents of a file, \<open>serde_yaml\<close> on the stake overrides, and OpenSSL
  on the PEM keys.
\<close>

record startup_files =
  fl_read_keypair_file :: "string \<Rightarrow> pubkey option"
  fl_hostname :: "string option"
  fl_read :: "string \<Rightarrow> bytes option"
  fl_overrides_from_reader :: "bytes \<Rightarrow> (pubkey \<rightharpoonup> u64) option"
  fl_private_key_from_pem :: "bytes \<Rightarrow> bytes option"
  fl_public_key_from_pem :: "bytes \<Rightarrow> bytes option"

definition staked_nodes_overrides :: "startup_files \<Rightarrow> args \<Rightarrow> (pubkey \<rightharpoonup> u64, unit) result" where
  "staked_nodes_overrides files a =
     (case arg_staked_nodes_overrides a of
        None \<Rightarrow> Ok Map.empty
      | Some p \<Rightarrow> and_then (unwrap (fl_read files p)) (\<lambda>file. unwrap (fl_overrides_from_reader files file)))"

text \<open>The signing key and the verifying key of the tokens.\<close>

definition token_keys :: "startup_files \<Rightarrow> args \<Rightarrow> (bytes \<times> bytes, unit) result" where
  "token_keys files a =
     and_then (unwrap (fl_read files (arg_signing_key_pem_path a))) (\<lambda>priv_key.
     and_then (unwrap (fl_private_key_from_pem files priv_key)) (\<lambda>signing_key.
     and_then (unwrap (fl_read files (arg_verifying_key_pem_path a))) (\<lambda>key.
     and_then (unwrap (fl_public_key_from_pem files key)) (\<lambda>verifying_key.
       Ok (signing_key, verifying_key)))))"

section \<open>The lookup table cache\<close>

text \<open>
  \<open>accounts\<close> is the answer to \<open>get_program_accounts\<close>, \<open>table_of\<close> is \<open>AddressLookupTable::deserialize\<close>. The cache is a
  concurrent map: the forwarding threads read it while a refresh writes it, so a refresh is the list of its writes. The
  first loop inserts the tables that deserialize and collects their keys; \<open>retain\<close> then visits the entries in the order
  of the map's iteration, which is \<open>order\<close>, and removes those whose key was not collected.
\<close>

datatype cache_write = InsertTable pubkey lookup_table_account | RemoveTable pubkey

fun apply_write :: "lookup_cache \<Rightarrow> cache_write \<Rightarrow> lookup_cache" where
  "apply_write cache (InsertTable pubkey table) = cache(pubkey \<mapsto> table)"
| "apply_write cache (RemoveTable pubkey) = cache(pubkey := None)"

fun insert_tables ::
  "(bytes \<Rightarrow> pubkey list option) \<Rightarrow> (pubkey \<times> bytes) list \<Rightarrow> pubkey set \<Rightarrow> pubkey set \<times> cache_write list" where
  "insert_tables table_of [] new_pubkeys = (new_pubkeys, [])"
| "insert_tables table_of ((pubkey, data) # accounts) new_pubkeys =
     (case table_of data of
        None \<Rightarrow> insert_tables table_of accounts new_pubkeys
      | Some addrs \<Rightarrow>
          (case insert_tables table_of accounts (insert pubkey new_pubkeys) of
             (keys, ws) \<Rightarrow> (keys, InsertTable pubkey \<lparr>table_key = pubkey, addresses = addrs\<rparr> # ws)))"

definition retain_tables :: "pubkey set \<Rightarrow> pubkey list \<Rightarrow> cache_write list" where
  "retain_tables new_pubkeys order = map RemoveTable (filter (\<lambda>pubkey. pubkey \<notin> new_pubkeys) order)"

text \<open>The caches that a reader can see while the writes happen, from the first to the last.\<close>

fun cache_views :: "lookup_cache \<Rightarrow> cache_write list \<Rightarrow> lookup_cache list" where
  "cache_views cache [] = [cache]"
| "cache_views cache (w # ws) = cache # cache_views (apply_write cache w) ws"

definition refresh_address_lookup_table ::
  "(bytes \<Rightarrow> pubkey list option) \<Rightarrow> pubkey list \<Rightarrow> ((pubkey \<times> bytes) list, string) result \<Rightarrow> lookup_cache
     \<Rightarrow> (lookup_cache list, string) result" where
  "refresh_address_lookup_table table_of order answer cache =
     and_then answer (\<lambda>accounts.
       case insert_tables table_of accounts {} of
         (new_pubkeys, ws) \<Rightarrow> Ok (cache_views cache (ws @ retain_tables new_pubkeys order)))"

text \<open>
  The refresher thread: the cache and the instant of the last refresh. An iteration waits for a tick and
  reads the clock at the check and after a refresh.
\<close>

record refresher =
  rf_cache :: lookup_cache
  rf_last :: instant

record refresh_env =
  re_now :: instant
  re_done :: instant
  re_answer :: "((pubkey \<times> bytes) list, string) result"
  re_order :: "pubkey list"

definition try_refresh ::
  "(bytes \<Rightarrow> pubkey list option) \<Rightarrow> refresh_env \<Rightarrow> lookup_cache \<Rightarrow> (lookup_cache, unit) result" where
  "try_refresh table_of env cache =
     (case refresh_address_lookup_table table_of (re_order env) (re_answer env) cache of
        Ok views \<Rightarrow> Ok (last views) | Err _ \<Rightarrow> Ok cache | Panic \<Rightarrow> Panic)"

definition refresher_start ::
  "(bytes \<Rightarrow> pubkey list option) \<Rightarrow> refresh_env \<Rightarrow> (refresher, unit) result" where
  "refresher_start table_of env =
     and_then (try_refresh table_of env Map.empty) (\<lambda>cache.
       Ok \<lparr>rf_cache = cache, rf_last = re_done env\<rparr>)"

definition refresher_step ::
  "(bytes \<Rightarrow> pubkey list option) \<Rightarrow> duration \<Rightarrow> refresher \<Rightarrow> refresh_env \<Rightarrow> (refresher, unit) result" where
  "refresher_step table_of refresh_duration s env =
     (if elapsed (re_now env) (rf_last s) < refresh_duration then Ok s
      else
        and_then (try_refresh table_of env (rf_cache s)) (\<lambda>cache.
          Ok \<lparr>rf_cache = cache, rf_last = re_done env\<rparr>))"

section \<open>Starting\<close>

definition is_loopback :: "ip_addr \<Rightarrow> bool" where
  "is_loopback ip = (case ip of V4 a \<Rightarrow> drop_bit 24 a = 127 | V6 a \<Rightarrow> a = 1)"

text \<open>\<open>lookup\<close> is what the entrypoint reports as our address.\<close>

definition resolve_public_ip :: "args \<Rightarrow> ip_addr option \<Rightarrow> (ip_addr, unit) result" where
  "resolve_public_ip a lookup = (case arg_public_ip a of Some ip \<Rightarrow> Ok ip | None \<Rightarrow> unwrap lookup)"

definition block_engine_config_of :: "args \<Rightarrow> (string \<times> string) option" where
  "block_engine_config_of a =
     (if \<not> arg_disable_mempool a then
        (case arg_block_engine_url a of
           Some url \<Rightarrow>
             Some (url, case arg_block_engine_auth_service_url a of Some auth \<Rightarrow> auth | None \<Rightarrow> url)
         | None \<Rightarrow> None)
      else None)"

definition ofac_addresses_of :: "args \<Rightarrow> pubkey set" where
  "ofac_addresses_of a = (case arg_ofac_addresses a of Some xs \<Rightarrow> set xs | None \<Rightarrow> {})"

text \<open>
  What the components are created with; \<open>'sock\<close> are the bound sockets. Of the keypair the public key is kept, which is
  the identity that the relayer logs and reports together with the host name.
\<close>

record 'sock relayer_setup =
  su_servers :: "(string \<times> string) list"
  su_refresher :: "duration option"
  su_sockets :: "'sock tpu_sockets"
  su_forwarder :: forwarder_config
  su_block_engine :: "(string \<times> string) option"
  su_block_engine_ofac :: "pubkey set"
  su_aoi_ttl :: u64
  su_health_threshold :: duration
  su_relayer :: relayer_impl
  su_forwarding :: forward_config
  su_slot_lookahead :: u64
  su_store :: validator_store
  su_ttls :: "duration \<times> duration \<times> duration"
  su_identity :: "string \<times> pubkey"
  su_overrides :: "pubkey \<rightharpoonup> u64"
  su_quic_limits :: "u64 \<times> u64"
  su_token_keys :: "bytes \<times> bytes"
  su_sweep_interval :: duration
  su_heartbeat_tick_time :: u64
  su_web_addr :: "ip_addr \<times> u16"
  su_grpc_addr :: "ip_addr \<times> u16"

definition startup ::
  "(u16 \<times> u16 \<Rightarrow> (u16 \<times> 'sock list) option) \<Rightarrow> ('sock \<Rightarrow> u16 option) \<Rightarrow> ip_addr option \<Rightarrow> startup_files
     \<Rightarrow> schedule \<Rightarrow> args
     \<Rightarrow> ('sock relayer_setup, unit) result" where
  "startup bind local_port lookup files leader_cache a =
     and_then (resolve_public_ip a lookup) (\<lambda>ip.
       if \<not> is_ipv4 ip \<or> is_loopback ip \<or> \<not> is_ipv4 (arg_grpc_bind_ip a) then Panic
       else
         and_then (get_sockets bind a) (\<lambda>sockets.
           if list_ex (\<lambda>s. local_port s = None)
                (transactions_quic_sockets sockets @ transactions_forwards_quic_sockets sockets) then Panic
           else
             and_then (unwrap (fl_read_keypair_file files (arg_keypair_path a))) (\<lambda>keypair.
             and_then (unwrap (fl_hostname files)) (\<lambda>host.
             if length (arg_rpc_servers a) \<noteq> length (arg_websocket_servers a) then Panic
             else
             and_then (staked_nodes_overrides files a) (\<lambda>overrides.
             and_then (token_keys files a) (\<lambda>keys.
             Ok \<lparr>su_servers = zip (arg_rpc_servers a) (arg_websocket_servers a),
                 su_refresher =
                   (if arg_enable_lookup_table_refresh a
                    then Some (from_secs (unat (arg_lookup_table_refresh_secs a))) else None),
                 su_sockets = sockets,
                 su_forwarder = \<lparr>packet_delay_ms = arg_packet_delay_ms a, disable_mempool = arg_disable_mempool a\<rparr>,
                 su_block_engine = block_engine_config_of a,
                 su_block_engine_ofac = ofac_addresses_of a,
                 su_aoi_ttl = arg_aoi_cache_ttl_secs a,
                 su_health_threshold = from_secs (unat (arg_missing_slot_unhealthy_secs a)),
                 su_relayer = relayer_impl_new ip
                   (map (\<lambda>s. the (local_port s)) (transactions_quic_sockets sockets))
                   (map (\<lambda>s. the (local_port s)) (transactions_forwards_quic_sockets sockets)),
                 su_forwarding = \<lparr>ofac_addresses = ofac_addresses_of a,
                   validator_packet_batch_size = arg_validator_packet_batch_size a,
                   forward_all = arg_forward_all a\<rparr>,
                 su_slot_lookahead = arg_slot_lookahead a,
                 su_store = validator_store_of a leader_cache,
                 su_ttls = (from_secs (unat (arg_access_token_ttl_secs a)),
                   from_secs (unat (arg_refresh_token_ttl_secs a)), from_secs (unat (arg_challenge_ttl_secs a))),
                 su_identity = (host, keypair),
                 su_overrides = overrides,
                 su_quic_limits = (arg_max_unstaked_quic_connections a, arg_max_staked_quic_connections a),
                 su_token_keys = keys,
                 su_sweep_interval = from_secs (unat (arg_challenge_expiration_sleep_interval_secs a)),
                 su_heartbeat_tick_time = arg_heartbeat_tick_time a,
                 su_web_addr = arg_webserver_bind_addr a,
                 su_grpc_addr = (arg_grpc_bind_ip a, arg_grpc_bind_port a)\<rparr>))))))"

lemma startup_loads:
  assumes "startup bind local_port lookup files sched a = Ok su"
  shows "fl_hostname files = Some (fst (su_identity su))"
    "fl_read_keypair_file files (arg_keypair_path a) = Some (snd (su_identity su))"
    "staked_nodes_overrides files a = Ok (su_overrides su)" "token_keys files a = Ok (su_token_keys su)"
  using assms by (auto simp: startup_def rust_simps split: if_splits)

end
