(* ===== verification/Fetch_Stage.thy ===== *)
theory Fetch_Stage
  imports Packets Channels
begin

text \<open>
  The thread that moves packets from the TPU forward port to the TPU queue
  (\<open>core/src/fetch_stage.rs\<close>). The queue of forwarded batches is part of the state; what arrives is an
  input of each iteration.
\<close>

section \<open>Blocking sends\<close>

text \<open>
  The TPU queue is a bounded \<open>crossbeam\<close> channel. Its \<open>send\<close> waits while the queue is full and fails only if every
  receiver is gone, which is \<open>None\<close>; a sender that returns stands for the channel at that time, after whatever its
  receivers have taken in the meantime. \<open>accepted\<close> is the history of the messages the channel took.
\<close>

type_synonym ('s, 'm) blocking_send = "'s \<Rightarrow> 'm \<Rightarrow> 's option"

locale blocking_sender =
  fixes send :: "('s, 'm) blocking_send"
    and accepted :: "'s \<Rightarrow> 'm list"
  assumes send_ok: "send s m = Some s' \<Longrightarrow> accepted s' = accepted s @ [m]"

text \<open>On the bounded channel: a send on a full channel returns once the receiver has taken a message.\<close>

definition chan_send :: "('m chan, 'm) blocking_send" where
  "chan_send c m =
     (if ch_closed c then None
      else Some (c\<lparr>ch_queue := (if ch_bound c \<le> length (ch_queue c) then tl (ch_queue c) else ch_queue c) @ [m],
                   ch_log := ch_log c @ [m]\<rparr>))"

interpretation crossbeam_chan: blocking_sender chan_send ch_log
  by unfold_locales (auto simp: chan_send_def split: if_splits)

section \<open>One call of \<open>handle_forwarded_packets\<close>\<close>

datatype fetch_stage_error = FetchSend | FetchRecvTimeout | FetchRecv

definition mark_forwarded :: "packet \<Rightarrow> packet" where
  "mark_forwarded p = p\<lparr>meta := (meta p)\<lparr>meta_flags := (meta_flags (meta p))\<lparr>forwarded := True\<rparr>\<rparr>\<rparr>"

text \<open>
  The \<open>try_recv\<close> loop after \<open>num_packets\<close> packets: the batches taken, marked, and what stays in the queue.
\<close>

fun take_forwarded :: "nat \<Rightarrow> packet_batch list \<Rightarrow> packet_batch list \<times> packet_batch list" where
  "take_forwarded num_packets [] = ([], [])"
| "take_forwarded num_packets (packet_batch # queue) =
     (if num_packets + length packet_batch > 1024 then ([map mark_forwarded packet_batch], queue)
      else case take_forwarded (num_packets + length packet_batch) queue of
             (taken, left) \<Rightarrow> (map mark_forwarded packet_batch # taken, left))"

fun send_packet_batches :: "('s, 'm) blocking_send \<Rightarrow> 's \<Rightarrow> 'm list \<Rightarrow> ('s, fetch_stage_error) result" where
  "send_packet_batches send s [] = Ok s"
| "send_packet_batches send s (b # bs) =
     (case send s b of
        Some s' \<Rightarrow> send_packet_batches send s' bs
      | None \<Rightarrow> Err FetchSend)"

definition handle_forwarded_packets ::
  "('s, packet_batch) blocking_send \<Rightarrow> packet_batch list \<Rightarrow> 's
     \<Rightarrow> (packet_batch list \<times> 's, fetch_stage_error) result" where
  "handle_forwarded_packets send queue sender =
     (case queue of
        [] \<Rightarrow> Err FetchRecv
      | packet_batch # rest \<Rightarrow>
          (case take_forwarded (length packet_batch) rest of
             (taken, left) \<Rightarrow>
               and_then (send_packet_batches send sender (map mark_forwarded packet_batch # taken)) (\<lambda>sender'.
                 Ok (left, sender'))))"

section \<open>The thread\<close>

text \<open>\<open>fetch_reports\<close> lists the pairs of queue lengths handed to the metrics client.\<close>

record 's fetch_loop =
  fetch_queue :: "packet_batch list"
  fetch_sender :: 's
  fetch_start :: instant
  tpu_forwards_receiver_max_len :: nat
  tpu_sender_max_len :: nat
  fetch_reports :: "(nat \<times> nat) list"

text \<open>
  An iteration reads the clock twice and the lengths of the channels; \<open>fe_arrived\<close> are the batches that
  arrive before or while the iteration takes from the queue.
\<close>

record fetch_env =
  fe_arrived :: "packet_batch list"
  fe_now :: instant
  fe_restart :: instant
  fe_sender_len :: nat

definition fetch_metrics :: "fetch_env \<Rightarrow> 's fetch_loop \<Rightarrow> 's fetch_loop" where
  "fetch_metrics env s =
     (let s' = (if elapsed (fe_now env) (fetch_start s) \<ge> from_secs 1 then
                  s\<lparr>fetch_reports := fetch_reports s @ [(tpu_sender_max_len s, tpu_forwards_receiver_max_len s)],
                    fetch_start := fe_restart env, tpu_forwards_receiver_max_len := 0, tpu_sender_max_len := 0\<rparr>
                else s)
      in s'\<lparr>tpu_forwards_receiver_max_len := max (tpu_forwards_receiver_max_len s') (length (fetch_queue s')),
            tpu_sender_max_len := max (tpu_sender_max_len s') (fe_sender_len env)\<rparr>)"

definition fetch_step ::
  "('s, packet_batch) blocking_send \<Rightarrow> 's fetch_loop \<Rightarrow> fetch_env \<Rightarrow> ('s fetch_loop, fetch_stage_error) result" where
  "fetch_step send s env =
     (let queue = fetch_queue s @ fe_arrived env
      in (case handle_forwarded_packets send queue (fetch_sender s) of
            Ok (left, sender) \<Rightarrow> Ok (fetch_metrics env (s\<lparr>fetch_queue := left, fetch_sender := sender\<rparr>))
          | Err FetchRecvTimeout \<Rightarrow> Ok (fetch_metrics env (s\<lparr>fetch_queue := queue\<rparr>))
          | Err _ \<Rightarrow> Panic
          | Panic \<Rightarrow> Panic))"

section \<open>What a call takes and sends\<close>

lemma take_forwarded_split:
  "take_forwarded n q = (taken, left) \<Longrightarrow> \<exists>bs. q = bs @ left \<and> taken = map (map mark_forwarded) bs"
proof (induction n q arbitrary: taken left rule: take_forwarded.induct)
  case (1 n)
  then show ?case by simp
next
  case (2 n b q)
  show ?case
  proof (cases "n + length b > 1024")
    case True
    with "2.prems" show ?thesis by (intro exI [of _ "[b]"]) auto
  next
    case False
    obtain t l where tl: "take_forwarded (n + length b) q = (t, l)" by (cases "take_forwarded (n + length b) q")
    from "2.IH" [OF False tl] obtain bs where "q = bs @ l" "t = map (map mark_forwarded) bs" by blast
    with "2.prems" False tl show ?thesis by (intro exI [of _ "b # bs"]) auto
  qed
qed

text \<open>All but the last batch taken stay within the bound, and the loop stops early only above it.\<close>

lemma take_forwarded_bound:
  "take_forwarded n q = (taken, left) \<Longrightarrow>
    (n \<le> 1024 \<longrightarrow> n + sum_list (map length (butlast taken)) \<le> 1024) \<and>
    (left \<noteq> [] \<longrightarrow> 1024 < n + sum_list (map length taken))"
proof (induction n q arbitrary: taken left rule: take_forwarded.induct)
  case (1 n)
  then show ?case by auto
next
  case (2 n b q)
  show ?case
  proof (cases "n + length b > 1024")
    case True
    with "2.prems" show ?thesis by auto
  next
    case False
    obtain t l where tl: "take_forwarded (n + length b) q = (t, l)" by (cases "take_forwarded (n + length b) q")
    with "2.prems" False have eq: "taken = map mark_forwarded b # t" "left = l" by auto
    from "2.IH" [OF False tl] False show ?thesis by (cases "t = []") (auto simp: eq)
  qed
qed

context blocking_sender
begin

lemma send_batches_ok: "send_packet_batches send s bs = Ok s' \<Longrightarrow> accepted s' = accepted s @ bs"
proof (induction bs arbitrary: s)
  case Nil
  then show ?case by simp
next
  case (Cons b bs)
  obtain t where t: "send s b = Some t" "send_packet_batches send t bs = Ok s'"
    using Cons.prems by (auto split: option.splits)
  from Cons.IH [OF t(2)] send_ok [OF t(1)] show ?case by simp
qed

end

text \<open>A call moves a non-empty prefix of the queue, marked, to the TPU queue.\<close>

lemma handle_forwarded_packets_ok:
  assumes "blocking_sender send accepted" "handle_forwarded_packets send q s = Ok (left, s')"
  obtains bs where "q = bs @ left" "bs \<noteq> []" "accepted s' = accepted s @ map (map mark_forwarded) bs"
    "length (hd bs) \<le> 1024 \<Longrightarrow> sum_list (map length (butlast bs)) \<le> 1024"
    "left \<noteq> [] \<Longrightarrow> 1024 < sum_list (map length bs)"
proof -
  from assms(2) obtain b rest where q: "q = b # rest"
    by (auto simp: handle_forwarded_packets_def split: list.splits)
  obtain taken l where t: "take_forwarded (length b) rest = (taken, l)" by (cases "take_forwarded (length b) rest")
  with assms(2) have l: "l = left" and snd: "send_packet_batches send s (map mark_forwarded b # taken) = Ok s'"
    by (auto simp: handle_forwarded_packets_def q rust_simps)
  from take_forwarded_split [OF t] obtain bs where bs: "rest = bs @ l" "taken = map (map mark_forwarded) bs" by blast
  have len: "map length (map (map mark_forwarded) xs) = map length xs" for xs :: "packet_batch list" by simp
  from take_forwarded_bound [OF t]
  have bound: "length b \<le> 1024 \<longrightarrow> length b + sum_list (map length (butlast bs)) \<le> 1024"
    "left \<noteq> [] \<longrightarrow> 1024 < length b + sum_list (map length bs)"
    by (simp_all add: bs(2) l len map_butlast [symmetric] del: map_map)
  show ?thesis
  proof (rule that [of "b # bs"])
    show "q = (b # bs) @ left" using q bs l by simp
    show "accepted s' = accepted s @ map (map mark_forwarded) (b # bs)"
      using blocking_sender.send_batches_ok [OF assms(1) snd] bs(2) by simp
    show "sum_list (map length (butlast (b # bs))) \<le> 1024" if "length (hd (b # bs)) \<le> 1024"
      using bound(1) that by simp
    show "1024 < sum_list (map length (b # bs))" if "left \<noteq> []" using bound(2) that by simp
  qed simp
qed

text \<open>The receive blocks, so it never times out.\<close>

lemma send_batches_cases: "send_packet_batches send s bs = Err FetchSend \<or> (\<exists>s'. send_packet_batches send s bs = Ok s')"
  by (induction bs arbitrary: s) (auto split: option.split)

lemma handle_forwarded_packets_no_timeout: "handle_forwarded_packets send q s \<noteq> Err FetchRecvTimeout"
proof (cases q)
  case Nil
  then show ?thesis by (simp add: handle_forwarded_packets_def)
next
  case (Cons b rest)
  obtain taken left where t: "take_forwarded (length b) rest = (taken, left)"
    by (cases "take_forwarded (length b) rest")
  show ?thesis
    using send_batches_cases [of send s "map mark_forwarded b # taken"]
    by (auto simp: handle_forwarded_packets_def Cons t simp del: send_packet_batches.simps)
qed

lemma fetch_step_moves:
  assumes "blocking_sender send accepted" "fetch_step send s env = Ok s'"
  obtains bs where "fetch_queue s @ fe_arrived env = bs @ fetch_queue s'" "bs \<noteq> []"
    "accepted (fetch_sender s') = accepted (fetch_sender s) @ map (map mark_forwarded) bs"
    "length (hd bs) \<le> 1024 \<Longrightarrow> sum_list (map length (butlast bs)) \<le> 1024"
proof -
  have keep: "fetch_queue (fetch_metrics env t) = fetch_queue t" "fetch_sender (fetch_metrics env t) = fetch_sender t"
    for t :: "'a fetch_loop"
    by (simp_all add: fetch_metrics_def Let_def)
  from assms(2) have "handle_forwarded_packets send (fetch_queue s @ fe_arrived env) (fetch_sender s)
      = Ok (fetch_queue s', fetch_sender s')"
    using handle_forwarded_packets_no_timeout [of send "fetch_queue s @ fe_arrived env" "fetch_sender s"]
    by (auto simp: fetch_step_def Let_def keep split: result.splits fetch_stage_error.splits)
  from handle_forwarded_packets_ok [OF assms(1) this] that show ?thesis by blast
qed

section \<open>Refinement\<close>

text \<open>
  Seen from outside, the stage is a queue: batches go in at the end, a step moves some from the front to
  the TPU queue.
\<close>

inductive queue_step :: "'m list \<times> 'm list \<Rightarrow> 'm list \<Rightarrow> 'm list \<times> 'm list \<Rightarrow> bool" where
  move: "waiting @ arrived = moved @ waiting' \<Longrightarrow> moved \<noteq> [] \<Longrightarrow>
    queue_step (waiting, delivered) arrived (waiting', delivered @ moved)"

inductive_cases queue_stepE: "queue_step (w, d) a (w', d')"

definition fetch_abs :: "('s \<Rightarrow> packet_batch list) \<Rightarrow> 's fetch_loop \<Rightarrow> packet_batch list \<times> packet_batch list" where
  "fetch_abs accepted s = (map (map mark_forwarded) (fetch_queue s), accepted (fetch_sender s))"

lemma fetch_step_refines:
  assumes "blocking_sender send accepted" "fetch_step send s env = Ok s'"
  shows "queue_step (fetch_abs accepted s) (map (map mark_forwarded) (fe_arrived env)) (fetch_abs accepted s')"
proof -
  from fetch_step_moves [OF assms] obtain bs where bs: "fetch_queue s @ fe_arrived env = bs @ fetch_queue s'" "bs \<noteq> []"
    "accepted (fetch_sender s') = accepted (fetch_sender s) @ map (map mark_forwarded) bs" by blast
  from arg_cong [OF bs(1), of "map (map mark_forwarded)"] bs(2) show ?thesis
    by (simp add: fetch_abs_def bs(3) queue_step.move)
qed

lemma queue_step_fifo:
  "queue_step (w, d) a (w', d') \<Longrightarrow> d' @ w' = d @ w @ a"
  by (auto elim: queue_stepE)

inductive queue_run :: "'m list \<times> 'm list \<Rightarrow> 'm list list \<Rightarrow> 'm list \<times> 'm list \<Rightarrow> bool" where
  nil: "queue_run q [] q"
| step: "queue_step q a q' \<Longrightarrow> queue_run q' as q'' \<Longrightarrow> queue_run q (a # as) q''"

lemma queue_run_fifo:
  "queue_run q as q' \<Longrightarrow> snd q' @ fst q' = snd q @ fst q @ concat as \<and> length (snd q) + length as \<le> length (snd q')"
proof (induction rule: queue_run.induct)
  case (nil q)
  then show ?case by simp
next
  case (step q a q' as q'')
  obtain w d w' d' where q: "q = (w, d)" "q' = (w', d')" by (cases q, cases q')
  from step.hyps(1) have "d' @ w' = d @ w @ a" "Suc (length d) \<le> length d'"
    by (auto simp: q Suc_le_eq elim!: queue_stepE)
  with step.IH show ?case by (auto simp: q)
qed

lemma fetch_run_refines:
  assumes "blocking_sender send accepted"
  shows "run_loop (fetch_step send) s envs = Ok s' \<Longrightarrow>
    queue_run (fetch_abs accepted s) (map (map (map mark_forwarded) \<circ> fe_arrived) envs) (fetch_abs accepted s')"
proof (induction rule: run_loop_induct)
  case (Nil s)
  show ?case by (simp add: queue_run.nil)
next
  case (Cons s e t es s')
  from queue_run.step [OF fetch_step_refines [OF assms Cons.hyps(1)] Cons.IH] show ?case by simp
qed

end
