(* ===== verification/Staked_Nodes.thy ===== *)
theory Staked_Nodes
  imports Packets
begin

text \<open>
  The updater of the stake table that the QUIC servers use
  (\<open>core/src/staked_nodes_updater_service.rs\<close>). The RPC answer and the clock are inputs;
  \<open>StakedNodes::new\<close> is a parameter.
\<close>

definition PK_TO_STAKE_REFRESH_DURATION :: duration where
  "PK_TO_STAKE_REFRESH_DURATION = from_secs 5"

record vote_account =
  node_pubkey :: string
  activated_stake :: u64

record vote_accounts =
  current_accounts :: "vote_account list"
  delinquent_accounts :: "vote_account list"

text \<open>Collecting pairs into a map: a later pair replaces an earlier one with the same key.\<close>

definition stake_pairs :: "sdk \<Rightarrow> vote_accounts \<Rightarrow> (pubkey \<times> u64) list" where
  "stake_pairs k v =
     List.map_filter
       (\<lambda>a. case pubkey_from_str k (node_pubkey a) of None \<Rightarrow> None | Some pk \<Rightarrow> Some (pk, activated_stake a))
       (current_accounts v @ delinquent_accounts v)"

definition collect_map :: "('k \<times> 'v) list \<Rightarrow> 'k \<rightharpoonup> 'v" where
  "collect_map xs = fold (\<lambda>(k, v) m. m(k \<mapsto> v)) xs Map.empty"

text \<open>
  An iteration reads the clock at the check and at the end of a refresh, and the answer of the RPC server.
\<close>

record stake_env =
  se_now :: instant
  se_refreshed :: instant
  se_answer :: "(vote_accounts, string) result"

text \<open>The stake map, the instant of the last refresh, whether there was one, and the time slept.\<close>

definition try_refresh_pk_to_stake ::
  "sdk \<Rightarrow> stake_env \<Rightarrow> instant \<Rightarrow> (pubkey \<rightharpoonup> u64)
     \<Rightarrow> (bool \<times> instant \<times> (pubkey \<rightharpoonup> u64) \<times> duration list, string) result" where
  "try_refresh_pk_to_stake k env last_stakes stake_map =
     (if elapsed (se_now env) last_stakes > PK_TO_STAKE_REFRESH_DURATION then
        and_then (se_answer env) (\<lambda>v.
          Ok (True, se_refreshed env, collect_map (stake_pairs k v), []))
      else Ok (False, last_stakes, stake_map, [from_secs 1]))"

text \<open>The thread: \<open>shared_staked_nodes\<close> is read by the QUIC servers.\<close>

record 'n stake_loop =
  last_stakes :: instant
  shared_staked_nodes :: 'n
  stake_sleeps :: "duration list"

definition staked_nodes_step ::
  "sdk \<Rightarrow> ((pubkey \<rightharpoonup> u64) \<Rightarrow> (pubkey \<rightharpoonup> u64) \<Rightarrow> 'n) \<Rightarrow> (pubkey \<rightharpoonup> u64) \<Rightarrow> 'n stake_loop \<Rightarrow> stake_env
     \<Rightarrow> ('n stake_loop, unit) result" where
  "staked_nodes_step k staked_nodes_new overrides s env =
     (case try_refresh_pk_to_stake k env (last_stakes s) Map.empty of
        Ok (True, refreshed, stake_map, slept) \<Rightarrow>
          Ok (s\<lparr>last_stakes := refreshed, shared_staked_nodes := staked_nodes_new stake_map overrides,
                stake_sleeps := stake_sleeps s @ slept\<rparr>)
      | Ok (False, refreshed, stake_map, slept) \<Rightarrow> Ok (s\<lparr>last_stakes := refreshed, stake_sleeps := stake_sleeps s @ slept\<rparr>)
      | Err _ \<Rightarrow> Ok (s\<lparr>stake_sleeps := stake_sleeps s @ [PK_TO_STAKE_REFRESH_DURATION]\<rparr>)
      | Panic \<Rightarrow> Panic)"

section \<open>The stake of a node\<close>

lemma collect_map_last: "collect_map xs = map_of (rev xs)"
proof (induction xs rule: rev_induct)
  case Nil
  then show ?case by (simp add: collect_map_def)
next
  case (snoc x xs)
  then show ?case by (cases x) (simp add: collect_map_def)
qed

lemma map_filter_append: "List.map_filter f (xs @ ys) = List.map_filter f xs @ List.map_filter f ys"
  by (simp add: List.map_filter_def)

text \<open>The last account in the answer whose node parses to the key decides.\<close>

definition accounts_of :: "sdk \<Rightarrow> pubkey \<Rightarrow> vote_account list \<Rightarrow> vote_account list" where
  "accounts_of k pk as = filter (\<lambda>a. pubkey_from_str k (node_pubkey a) = Some pk) as"

lemma stake_of_node:
  "collect_map (stake_pairs k v) pk =
    (let as = accounts_of k pk (current_accounts v @ delinquent_accounts v)
     in if as = [] then None else Some (activated_stake (last as)))"
proof -
  let ?f = "\<lambda>a. case pubkey_from_str k (node_pubkey a) of None \<Rightarrow> None | Some pk \<Rightarrow> Some (pk, activated_stake a)"
  have "map_of (rev (List.map_filter ?f as)) pk =
    (if accounts_of k pk as = [] then None else Some (activated_stake (last (accounts_of k pk as))))" for as
  proof (induction as rule: rev_induct)
    case Nil
    then show ?case by (simp add: map_filter_simps accounts_of_def)
  next
    case (snoc a as)
    then show ?case by (auto simp: map_filter_append map_filter_simps accounts_of_def split: option.splits)
  qed
  then show ?thesis by (simp add: collect_map_last stake_pairs_def Let_def)
qed

end
