(* ===== verification/Startup_Theorems.thy ===== *)
theory Startup_Theorems
  imports Startup Fetch_Stage Staked_Nodes Relayer_Theorems
begin

text \<open>
  The properties of the entry point and of the threads that feed the pipeline: the ports, the lookup
  table cache, the fetch stage and the stake table.
\<close>

section \<open>Ports\<close>

lemma u16_range_nth:
  "length (u16_range a b) = unat b - unat a"
  "i < unat b - unat a \<Longrightarrow> u16_range a b ! i = word_of_nat (unat a + i)"
  by (simp_all add: u16_range_def)

lemma unat_u16: "n < 2 ^ 16 \<Longrightarrow> unat (word_of_nat n :: u16) = n"
  by (simp add: unsigned_of_nat take_bit_nat_eq_self)

lemma set_u16_range: "p \<in> set (u16_range a b) \<longleftrightarrow> unat a \<le> unat p \<and> unat p < unat b"
proof
  assume "p \<in> set (u16_range a b)"
  then obtain n where n: "unat a \<le> n" "n < unat b" "p = word_of_nat n" by (auto simp: u16_range_def)
  moreover have "n < 2 ^ 16" using n(2) unsigned_less [of b, where 'a = nat] by simp
  ultimately show "unat a \<le> unat p \<and> unat p < unat b" by (simp only: unat_u16)
next
  assume "unat a \<le> unat p \<and> unat p < unat b"
  then have "unat p \<in> {unat a..<unat b}" by simp
  from imageI [OF this, of "word_of_nat :: nat \<Rightarrow> u16"] show "p \<in> set (u16_range a b)"
    by (simp add: u16_range_def)
qed

text \<open>A bound socket reports the port it was bound to.\<close>

definition reports_port :: "(u16 \<times> u16 \<Rightarrow> (u16 \<times> 'sock list) option) \<Rightarrow> ('sock \<Rightarrow> u16 option) \<Rightarrow> bool" where
  "reports_port bind local_port \<longleftrightarrow>
     (\<forall>r p ss. bind r = Some (p, ss) \<longrightarrow> (\<forall>s\<in>set ss. local_port s = Some p))"

lemma bind_sockets_local:
  assumes "reports_port bind local_port"
  shows "bind_sockets bind start is = Ok (ports, socks) \<Longrightarrow> map local_port socks = map Some ports"
proof (induction "is" arbitrary: ports socks)
  case Nil
  then show ?case by simp
next
  case (Cons i "is")
  then obtain p ss ports' socks' where b: "bind (start + i, start + 1 + i) = Some (p, ss)" "ss \<noteq> []"
    "bind_sockets bind start is = Ok (ports', socks')" "ports = p # ports'" "socks = last ss # socks'"
    by (auto simp: rust_simps split: if_splits)
  with assms have "local_port (last ss) = Some p" by (simp add: reports_port_def)
  with Cons.IH [OF b(3)] show ?case by (simp add: b)
qed

lemma get_sockets_ok:
  assumes "get_sockets bind a = Ok s"
  defines "p \<equiv> unat (arg_tpu_quic_port a)" and "n \<equiv> unat (arg_num_tpu_quic_servers a)"
    and "q \<equiv> unat (arg_tpu_quic_fwd_port a)" and "m \<equiv> unat (arg_num_tpu_fwd_quic_servers a)"
  shows "p + n < 2 ^ 16" "q + m < 2 ^ 16" "{p..<p + n} \<inter> {q..<q + m} = {}"
    "\<exists>ps. bind_sockets bind (arg_tpu_quic_port a) ps = Ok (map word_of_nat [p..<p + n], transactions_quic_sockets s)"
    "\<exists>ps. bind_sockets bind (arg_tpu_quic_fwd_port a) ps =
       Ok (map word_of_nat [q..<q + m], transactions_forwards_quic_sockets s)"
proof -
  from assms(1) obtain e f where
    e: "checked_add (arg_tpu_quic_port a) (arg_num_tpu_quic_servers a) = Some e"
    and f: "checked_add (arg_tpu_quic_fwd_port a) (arg_num_tpu_fwd_quic_servers a) = Some f"
    and disj: "\<not> list_ex (\<lambda>p. arg_tpu_quic_fwd_port a \<le> p \<and> p < f) (u16_range (arg_tpu_quic_port a) e)"
    and b: "bind_sockets bind (arg_tpu_quic_port a) (u16_range 0 (arg_num_tpu_quic_servers a)) =
        Ok (u16_range (arg_tpu_quic_port a) e, transactions_quic_sockets s)"
      "bind_sockets bind (arg_tpu_quic_fwd_port a) (u16_range 0 (arg_num_tpu_fwd_quic_servers a)) =
        Ok (u16_range (arg_tpu_quic_fwd_port a) f, transactions_forwards_quic_sockets s)"
    by (auto simp: get_sockets_def rust_simps Let_def split: if_splits)
  have ef: "unat e = p + n" "unat f = q + m"
    using e f by (simp_all add: checked_add_eq_Some p_def n_def q_def m_def)
  show lt: "p + n < 2 ^ 16" "q + m < 2 ^ 16"
    using unsigned_less [of e, where 'a = nat] unsigned_less [of f, where 'a = nat] by (simp_all add: ef)
  show "\<exists>ps. bind_sockets bind (arg_tpu_quic_port a) ps = Ok (map word_of_nat [p..<p + n], transactions_quic_sockets s)"
    using b(1) by (auto simp: u16_range_def ef p_def)
  show "\<exists>ps. bind_sockets bind (arg_tpu_quic_fwd_port a) ps =
      Ok (map word_of_nat [q..<q + m], transactions_forwards_quic_sockets s)"
    using b(2) by (auto simp: u16_range_def ef q_def)
  show "{p..<p + n} \<inter> {q..<q + m} = {}"
  proof (rule ccontr)
    assume "{p..<p + n} \<inter> {q..<q + m} \<noteq> {}"
    then obtain x where "x \<in> {p..<p + n} \<inter> {q..<q + m}" by blast
    then have x: "p \<le> x" "x < p + n" "q \<le> x" "x < q + m" by simp_all
    with lt(1) have ux: "unat (word_of_nat x :: u16) = x" by (intro unat_u16) simp
    with x have "(word_of_nat x :: u16) \<in> set (u16_range (arg_tpu_quic_port a) e)"
      by (simp add: set_u16_range ef p_def)
    moreover have "arg_tpu_quic_fwd_port a \<le> word_of_nat x \<and> word_of_nat x < f"
      using x ux by (simp add: word_le_nat_alt word_less_nat_alt ef q_def)
    ultimately show False using disj by (auto simp: list_ex_iff)
  qed
qed

text \<open>Calls walk around the ranges.\<close>

lemma announced_ports:
  assumes "tpu_quic_ports r = map word_of_nat [p..<p + n]" "tpu_fwd_quic_ports r = map word_of_nat [q..<q + m]"
    and "seq r = 0" "p + n < 2 ^ 16" "q + m < 2 ^ 16"
    and "i < calls" "calls < 2 ^ 64" "0 < n" "0 < m" "6 \<le> p" "6 \<le> q"
  shows "\<exists>a t f. tpu_calls k calls r ! i = Ok a \<and> tpu a = Some t \<and> tpu_forward a = Some f \<and>
    socket_ip t = ip_to_string (ip_text k) (public_ip r) \<and> socket_ip f = ip_to_string (ip_text k) (public_ip r) \<and>
    unat (socket_port t) = p + i mod n - 6 \<and> unat (socket_port f) = q + i mod m - 6"
proof -
  have port: "unat (map word_of_nat [b..<b + l] ! (i mod l) :: u16) = b + i mod l"
    if "0 < l" "b + l < 2 ^ 16" for b l
  proof -
    from that(1) have "i mod l < l" by simp
    with that show ?thesis by (simp add: unat_u16 del: of_nat_add)
  qed
  have six: "6 \<le> x" if "x \<in> set (map word_of_nat [b..<b + l] :: u16 list)" "b + l < 2 ^ 16" "6 \<le> b" for b l x
  proof -
    from that(1) obtain y where y: "b \<le> y" "y < b + l" "x = word_of_nat y" by auto
    with that(2) have "unat x = y" by (simp add: unat_u16)
    with that(3) y(1) show ?thesis by (simp add: word_le_nat_alt)
  qed
  have h: "tpu_quic_ports r \<noteq> []" "tpu_fwd_quic_ports r \<noteq> []" "unat (seq r) + calls < 2 ^ 64"
    "\<forall>x\<in>set (tpu_quic_ports r) \<union> set (tpu_fwd_quic_ports r). 6 \<le> x"
    using assms(3,7-9) six [OF _ assms(4,10)] six [OF _ assms(5,11)] by (auto simp: assms(1,2) simp del: set_map)
  from get_tpu_configs_round_robin [OF h, of k, THEN conjunct2, rule_format, OF assms(6)]
  show ?thesis
    using port [OF assms(8,4)] port [OF assms(9,5)] by (simp add: assms(1-3))
qed

text \<open>
  C37: the ports of a relayer that has started, and what it announces. If sockets report the port they were bound to,
  the relayer listens on exactly the configured range of TPU ports and the configured range of TPU forward ports, in
  order; neither range wraps around, the two do not overlap, and the public address is an IPv4 address other than the
  loopback. Successive calls of \<open>get_tpu_configs\<close> announce this address and walk around both ranges in turn, each
  port lowered by 6, from which a client derives the QUIC port. A call panics exactly if one of the ranges is empty,
  which startup does not rule out.
\<close>

theorem startup_ports:
  assumes "startup bind local_port lookup files sched a = Ok su"
    and "reports_port bind local_port"
  defines "p \<equiv> unat (arg_tpu_quic_port a)" and "n \<equiv> unat (arg_num_tpu_quic_servers a)"
    and "q \<equiv> unat (arg_tpu_quic_fwd_port a)" and "m \<equiv> unat (arg_num_tpu_fwd_quic_servers a)"
  shows "tpu_quic_ports (su_relayer su) = map word_of_nat [p..<p + n] \<and>
    tpu_fwd_quic_ports (su_relayer su) = map word_of_nat [q..<q + m] \<and>
    p + n < 2 ^ 16 \<and> q + m < 2 ^ 16 \<and> {p..<p + n} \<inter> {q..<q + m} = {} \<and>
    is_ipv4 (public_ip (su_relayer su)) \<and> \<not> is_loopback (public_ip (su_relayer su)) \<and>
    (snd (get_tpu_configs k (su_relayer su)) = Panic \<longleftrightarrow> n = 0 \<or> m = 0) \<and>
    (\<forall>calls i. i < calls \<and> calls < 2 ^ 64 \<and> 0 < n \<and> 0 < m \<and> 6 \<le> p \<and> 6 \<le> q \<longrightarrow>
       (\<exists>r t f. tpu_calls k calls (su_relayer su) ! i = Ok r \<and> tpu r = Some t \<and> tpu_forward r = Some f \<and>
          socket_ip t = ip_to_string (ip_text k) (public_ip (su_relayer su)) \<and>
          socket_ip f = ip_to_string (ip_text k) (public_ip (su_relayer su)) \<and>
          unat (socket_port t) = p + i mod n - 6 \<and> unat (socket_port f) = q + i mod m - 6))"
proof -
  from assms(1) obtain ip socks where
    ip: "is_ipv4 ip" "\<not> is_loopback ip" and socks: "get_sockets bind a = Ok socks"
    and su: "su_relayer su = relayer_impl_new ip
        (map (\<lambda>s. the (local_port s)) (transactions_quic_sockets socks))
        (map (\<lambda>s. the (local_port s)) (transactions_forwards_quic_sockets socks))"
    by (auto simp: startup_def rust_simps split: if_splits)
  note ok = get_sockets_ok [OF socks, folded p_def n_def q_def m_def]
  have port: "map (\<lambda>s. the (local_port s)) xs = ports" if "map local_port xs = map Some ports" for xs ports
    using arg_cong [OF that, of "map the"] by (simp add: comp_def)
  from ok(4,5) obtain ps qs where
    "bind_sockets bind (arg_tpu_quic_port a) ps = Ok (map word_of_nat [p..<p + n], transactions_quic_sockets socks)"
    "bind_sockets bind (arg_tpu_quic_fwd_port a) qs =
       Ok (map word_of_nat [q..<q + m], transactions_forwards_quic_sockets socks)" by blast
  with bind_sockets_local [OF assms(2)]
  have "map local_port (transactions_quic_sockets socks) = map Some (map word_of_nat [p..<p + n])"
    "map local_port (transactions_forwards_quic_sockets socks) = map Some (map word_of_nat [q..<q + m])" by blast+
  from port [OF this(1)] port [OF this(2)]
  have "su_relayer su = relayer_impl_new ip (map word_of_nat [p..<p + n]) (map word_of_nat [q..<q + m])"
    by (simp add: su)
  then have r: "tpu_quic_ports (su_relayer su) = map word_of_nat [p..<p + n]"
    "tpu_fwd_quic_ports (su_relayer su) = map word_of_nat [q..<q + m]" "public_ip (su_relayer su) = ip" "seq (su_relayer su) = 0"
    by (simp_all add: relayer_impl_new_def)
  have "\<exists>r t f. tpu_calls k calls (su_relayer su) ! i = Ok r \<and> tpu r = Some t \<and> tpu_forward r = Some f \<and>
      socket_ip t = ip_to_string (ip_text k) (public_ip (su_relayer su)) \<and>
      socket_ip f = ip_to_string (ip_text k) (public_ip (su_relayer su)) \<and>
      unat (socket_port t) = p + i mod n - 6 \<and> unat (socket_port f) = q + i mod m - 6"
    if i: "i < calls" "calls < 2 ^ 64" "0 < n" "0 < m" "6 \<le> p" "6 \<le> q" for calls i
    using announced_ports [OF r(1,2,4) ok(1,2) i] by blast
  then show ?thesis
    using ok(1-3) ip r by (auto simp: get_tpu_configs_def pick_port_def)
qed

text \<open>The demo host binds every port; a socket is its port.\<close>

definition demo_bind :: "u16 \<times> u16 \<Rightarrow> (u16 \<times> u16 list) option" where
  "demo_bind r = Some (fst r, [fst r])"

definition demo_files :: startup_files where
  "demo_files = \<lparr>fl_read_keypair_file = (\<lambda>_. Some 1), fl_hostname = Some ''relayer'', fl_read = (\<lambda>_. Some []),
     fl_overrides_from_reader = (\<lambda>_. None), fl_private_key_from_pem = Some, fl_public_key_from_pem = Some\<rparr>"

lemma demo_startup_runs:
  "case startup demo_bind Some (Some (V4 0x0A000001)) demo_files [] (args_default ''k'' ''s'' ''v'') of Ok su \<Rightarrow> True | _ \<Rightarrow> False"
  by (simp add: startup_def staked_nodes_overrides_def token_keys_def demo_files_def resolve_public_ip_def args_default_def unwrap_def is_ipv4_def is_loopback_def
      get_sockets_def u16_MAX_def checked_add_def u16_range_def demo_bind_def Let_def drop_bit_eq_div)

theorem startup_ports_witness:
  "\<exists>su r t. startup demo_bind Some (Some (V4 0x0A000001)) demo_files [] (args_default ''k'' ''s'' ''v'') = Ok su \<and>
     tpu_quic_ports (su_relayer su) = [11228] \<and> tpu_fwd_quic_ports (su_relayer su) = [11229] \<and>
     tpu_calls demo_sdk 3 (su_relayer su) ! 2 = Ok r \<and> tpu r = Some t \<and> unat (socket_port t) = 11222"
proof -
  from demo_startup_runs obtain su where
    su: "startup demo_bind Some (Some (V4 0x0A000001)) demo_files [] (args_default ''k'' ''s'' ''v'') = Ok su"
    by (auto split: result.splits)
  have "reports_port demo_bind Some"
    by (auto simp: reports_port_def demo_bind_def)
  note ports = startup_ports [OF su this, where k = demo_sdk]
  have "\<exists>r t. tpu_calls demo_sdk 3 (su_relayer su) ! 2 = Ok r \<and> tpu r = Some t \<and> unat (socket_port t) = 11222"
    using ports [THEN conjunct2, THEN conjunct2, THEN conjunct2, THEN conjunct2, THEN conjunct2, THEN conjunct2,
      THEN conjunct2, THEN conjunct2, rule_format, of 2 3] by (auto simp: args_default_def)
  with ports su show ?thesis by (auto simp: args_default_def)
qed

section \<open>The lookup table cache\<close>

text \<open>The last account with the key that deserializes decides.\<close>

definition loaded_tables ::
  "(bytes \<Rightarrow> pubkey list option) \<Rightarrow> (pubkey \<times> bytes) list \<Rightarrow> lookup_cache" where
  "loaded_tables table_of accounts pk =
     map_option (\<lambda>addrs. \<lparr>table_key = pk, addresses = addrs\<rparr>)
       (map_of (rev (List.map_filter (\<lambda>(p, d). map_option (Pair p) (table_of d)) accounts)) pk)"

lemma loaded_tables_Cons:
  "loaded_tables table_of ((pk, d) # accounts) =
     (case table_of d of
        None \<Rightarrow> loaded_tables table_of accounts
      | Some addrs \<Rightarrow> [pk \<mapsto> \<lparr>table_key = pk, addresses = addrs\<rparr>] ++ loaded_tables table_of accounts)"
  by (rule ext) (simp add: loaded_tables_def map_filter_simps map_add_def split: option.split)

lemma insert_tables_eq:
  assumes "insert_tables table_of accounts ks = (ks', ws)"
  shows "ks' = ks \<union> dom (loaded_tables table_of accounts)"
    and "foldl apply_write cache ws = cache ++ loaded_tables table_of accounts"
    and "\<And>w. w \<in> set ws \<Longrightarrow> \<exists>pk d addrs. (pk, d) \<in> set accounts \<and> table_of d = Some addrs \<and>
      w = InsertTable pk \<lparr>table_key = pk, addresses = addrs\<rparr>"
proof -
  have "ks' = ks \<union> dom (loaded_tables table_of accounts) \<and>
      foldl apply_write cache ws = cache ++ loaded_tables table_of accounts \<and>
      (\<forall>w\<in>set ws. \<exists>pk d addrs. (pk, d) \<in> set accounts \<and> table_of d = Some addrs \<and>
         w = InsertTable pk \<lparr>table_key = pk, addresses = addrs\<rparr>)"
    using assms
  proof (induction accounts arbitrary: ks cache ws)
    case Nil
    then show ?case by (simp add: loaded_tables_def map_filter_simps map_add_def dom_def fun_eq_iff)
  next
    case (Cons acc accounts)
    obtain pk d where acc: "acc = (pk, d)" by (cases acc)
    show ?case
    proof (cases "table_of d")
      case None
      with Cons.IH [of ks ws cache] Cons.prems show ?thesis by (simp add: acc loaded_tables_Cons) blast
    next
      case (Some addrs)
      let ?t = "\<lparr>table_key = pk, addresses = addrs\<rparr>"
      from Cons.prems Some obtain ws0 where ws0: "insert_tables table_of accounts (insert pk ks) = (ks', ws0)"
        "ws = InsertTable pk ?t # ws0" by (auto simp: acc split: prod.splits)
      note IH = Cons.IH [OF ws0(1), of "cache(pk \<mapsto> ?t)"]
      have l: "loaded_tables table_of (acc # accounts) = [pk \<mapsto> ?t] ++ loaded_tables table_of accounts"
        by (simp add: acc loaded_tables_Cons Some)
      have "foldl apply_write cache ws = cache ++ loaded_tables table_of (acc # accounts)"
      proof -
        have "foldl apply_write cache ws = cache(pk \<mapsto> ?t) ++ loaded_tables table_of accounts"
          unfolding ws0(2) foldl_Cons apply_write.simps by (rule IH [THEN conjunct2, THEN conjunct1])
        then show ?thesis unfolding l by (simp add: fun_eq_iff map_add_def split: option.split)
      qed
      moreover have "ks' = ks \<union> dom (loaded_tables table_of (acc # accounts))"
        using IH unfolding l by auto
      moreover have "\<exists>pk d addrs. (pk, d) \<in> set (acc # accounts) \<and> table_of d = Some addrs \<and>
          w = InsertTable pk \<lparr>table_key = pk, addresses = addrs\<rparr>" if "w \<in> set ws" for w
        using IH that Some unfolding ws0(2) acc by (metis list.set_intros set_ConsD)
      ultimately show ?thesis by blast
    qed
  qed
  then show "ks' = ks \<union> dom (loaded_tables table_of accounts)"
    and "foldl apply_write cache ws = cache ++ loaded_tables table_of accounts"
    and "\<And>w. w \<in> set ws \<Longrightarrow> \<exists>pk d addrs. (pk, d) \<in> set accounts \<and> table_of d = Some addrs \<and>
      w = InsertTable pk \<lparr>table_key = pk, addresses = addrs\<rparr>" by blast+
qed

lemma foldl_remove: "foldl apply_write cache (map RemoveTable ks) = cache |` (- set ks)"
  by (induction ks arbitrary: cache) (auto simp: fun_eq_iff restrict_map_def)

lemma cache_views_last: "last (cache_views cache ws) = foldl apply_write cache ws" "cache_views cache ws \<noteq> []"
proof -
  have ne: "cache_views c ws \<noteq> []" for c ws by (cases ws) simp_all
  show "cache_views cache ws \<noteq> []" by (rule ne)
  show "last (cache_views cache ws) = foldl apply_write cache ws"
    by (induction ws arbitrary: cache) (simp_all add: ne)
qed

text \<open>A property that every write preserves holds in every view.\<close>

lemma cache_views_inv:
  assumes "P cache" "\<And>c w. P c \<Longrightarrow> w \<in> set ws \<Longrightarrow> P (apply_write c w)" "c \<in> set (cache_views cache ws)"
  shows "P c"
  using assms
proof (induction ws arbitrary: cache)
  case (Cons w ws)
  from Cons.prems(3) consider "c = cache" | "c \<in> set (cache_views (apply_write cache w) ws)" by auto
  then show ?case
  proof cases
    case 2
    show ?thesis by (rule Cons.IH [OF _ _ 2]) (use Cons.prems(1,2) in auto)
  qed (use Cons.prems in simp)
qed simp

lemma refresh_final:
  assumes "dom cache \<union> dom (loaded_tables table_of accounts) \<subseteq> set order"
    and "insert_tables table_of accounts {} = (ks, ws)"
  shows "last (cache_views cache (ws @ retain_tables ks order)) = loaded_tables table_of accounts"
proof -
  let ?m = "loaded_tables table_of accounts"
  note ws = insert_tables_eq(1,2) [OF assms(2)]
  have "last (cache_views cache (ws @ retain_tables ks order)) = (cache ++ ?m) |` (- set (filter (\<lambda>pk. pk \<notin> ks) order))"
    by (simp only: cache_views_last foldl_append ws(2) retain_tables_def foldl_remove)
  also have "\<dots> = ?m"
  proof
    fix pk
    show "((cache ++ ?m) |` (- set (filter (\<lambda>pk. pk \<notin> ks) order))) pk = ?m pk"
      using assms(1) by (cases "?m pk"; cases "cache pk") (auto simp: restrict_map_def map_add_def ws(1))
  qed
  finally show ?thesis .
qed

lemma refresh_views:
  assumes "insert_tables table_of accounts {} = (ks, ws)" "c \<in> set (cache_views cache (ws @ retain_tables ks order))"
  shows "dom cache \<inter> dom (loaded_tables table_of accounts) \<subseteq> dom c"
    and "c pk = Some t \<Longrightarrow> cache pk = Some t \<or>
      (\<exists>d addrs. (pk, d) \<in> set accounts \<and> table_of d = Some addrs \<and> t = \<lparr>table_key = pk, addresses = addrs\<rparr>)"
proof -
  let ?P = "\<lambda>c. dom cache \<inter> dom (loaded_tables table_of accounts) \<subseteq> dom c \<and> (\<forall>pk t. c pk = Some t \<longrightarrow> cache pk = Some t \<or>
      (\<exists>d addrs. (pk, d) \<in> set accounts \<and> table_of d = Some addrs \<and> t = \<lparr>table_key = pk, addresses = addrs\<rparr>))"
  note ins = insert_tables_eq(1,3) [OF assms(1)]
  have "?P (apply_write c w)" if P: "?P c" and w: "w \<in> set (ws @ retain_tables ks order)" for c w
  proof (cases "w \<in> set ws")
    case True
    from ins(2) [OF this] obtain pk d addrs where "(pk, d) \<in> set accounts" "table_of d = Some addrs"
      "w = InsertTable pk \<lparr>table_key = pk, addresses = addrs\<rparr>" by blast
    with P show ?thesis by auto
  next
    case False
    with w obtain pk where "w = RemoveTable pk" "pk \<notin> ks" by (auto simp: retain_tables_def)
    with P ins(1) show ?thesis by auto
  qed
  from cache_views_inv [where P = ?P, OF _ this assms(2)] have "?P c" by auto
  then show "dom cache \<inter> dom (loaded_tables table_of accounts) \<subseteq> dom c"
    and "c pk = Some t \<Longrightarrow> cache pk = Some t \<or>
      (\<exists>d addrs. (pk, d) \<in> set accounts \<and> table_of d = Some addrs \<and> t = \<lparr>table_key = pk, addresses = addrs\<rparr>)"
    by blast+
qed

text \<open>
  C38: a refresh of the lookup table cache, if \<open>retain\<close> visits every entry. When the RPC answers, the cache ends as
  exactly the tables that deserialize (the last account wins if a key occurs twice), so every closed table is gone.
  The threads that read the cache during the refresh, at any point between its writes, find every table that was
  cached before and is still on chain, and whatever table they find is the one from before or one of the answer.
  When the call fails nothing is written. The refresher does this when the refresh interval has passed since the
  last attempt, and otherwise nothing.
\<close>

theorem lookup_refresh_exact:
  assumes "\<And>as. re_answer env = Ok as \<Longrightarrow> dom (rf_cache s) \<union> dom (loaded_tables table_of as) \<subseteq> set (re_order env)"
  shows "refresher_step table_of d s env =
      (if elapsed (re_now env) (rf_last s) < d then Ok s
       else case re_answer env of
           Ok as \<Rightarrow> Ok \<lparr>rf_cache = loaded_tables table_of as, rf_last = re_done env\<rparr>
         | Err _ \<Rightarrow> Ok (s\<lparr>rf_last := re_done env\<rparr>)
         | Panic \<Rightarrow> Panic) \<and>
    (case re_answer env of
       Ok as \<Rightarrow>
         \<exists>views. refresh_address_lookup_table table_of (re_order env) (re_answer env) (rf_cache s) = Ok views \<and>
           last views = loaded_tables table_of as \<and>
           (\<forall>c\<in>set views. dom (rf_cache s) \<inter> dom (loaded_tables table_of as) \<subseteq> dom c \<and>
              (\<forall>pk t. c pk = Some t \<longrightarrow> rf_cache s pk = Some t \<or>
                 (\<exists>data addrs. (pk, data) \<in> set as \<and> table_of data = Some addrs \<and> t = \<lparr>table_key = pk, addresses = addrs\<rparr>)))
     | Err e \<Rightarrow> refresh_address_lookup_table table_of (re_order env) (re_answer env) (rf_cache s) = Err e
     | Panic \<Rightarrow> True)"
proof (cases "re_answer env")
  case (Ok as)
  obtain ks ws where ws: "insert_tables table_of as {} = (ks, ws)" by (cases "insert_tables table_of as {}")
  let ?views = "cache_views (rf_cache s) (ws @ retain_tables ks (re_order env))"
  have views: "refresh_address_lookup_table table_of (re_order env) (re_answer env) (rf_cache s) = Ok ?views"
    by (simp add: refresh_address_lookup_table_def Ok ws)
  moreover have final: "last ?views = loaded_tables table_of as" by (rule refresh_final [OF assms [OF Ok] ws])
  moreover have "refresher_step table_of d s env = (if elapsed (re_now env) (rf_last s) < d then Ok s
      else Ok \<lparr>rf_cache = loaded_tables table_of as, rf_last = re_done env\<rparr>)"
    by (simp add: refresher_step_def try_refresh_def views final)
  ultimately show ?thesis using refresh_views [OF ws] by (simp add: Ok)
qed (simp_all add: refresher_step_def try_refresh_def refresh_address_lookup_table_def)

text \<open>A table of 32-byte addresses is cached, another one is closed and a third one is new.\<close>

definition demo_table_of :: "bytes \<Rightarrow> pubkey list option" where
  "demo_table_of data = (if data = [] then None else Some [3])"

definition demo_refresh :: refresh_env where
  "demo_refresh = \<lparr>re_now = from_secs 700, re_done = from_secs 701, re_answer = Ok [(1, [1]), (4, []), (3, [1])],
     re_order = [2, 1, 3]\<rparr>"

definition demo_refresher :: refresher where
  "demo_refresher = \<lparr>rf_cache = [1 \<mapsto> \<lparr>table_key = 1, addresses = []\<rparr>, 2 \<mapsto> \<lparr>table_key = 2, addresses = []\<rparr>], rf_last = 0\<rparr>"

theorem lookup_refresh_exact_witness:
  "refresher_step demo_table_of (from_secs 600) demo_refresher demo_refresh =
     Ok \<lparr>rf_cache = loaded_tables demo_table_of [(1, [1]), (4, []), (3, [1])], rf_last = from_secs 701\<rparr> \<and>
   loaded_tables demo_table_of [(1, [1]), (4, []), (3, [1])] 2 = None"
proof -
  have l: "loaded_tables demo_table_of [(1, [1]), (4, []), (3, [1])] =
      [1 \<mapsto> \<lparr>table_key = 1, addresses = [3]\<rparr>, 3 \<mapsto> \<lparr>table_key = 3, addresses = [3]\<rparr>]"
    by (rule ext) (simp add: loaded_tables_def map_filter_simps demo_table_of_def)
  have "dom (rf_cache demo_refresher) \<union> dom (loaded_tables demo_table_of as) \<subseteq> set (re_order demo_refresh)"
    if "re_answer demo_refresh = Ok as" for as
    using that l by (auto simp: demo_refresh_def demo_refresher_def split: if_splits)
  from lookup_refresh_exact [where d = "from_secs 600", OF this]
  show ?thesis by (simp add: demo_refresh_def demo_refresher_def l elapsed_def from_secs_def)
qed

section \<open>The fetch stage\<close>

text \<open>
  C16: the fetch stage is a queue. Every run of its thread is a run of the abstract queue whose steps move a
  non-empty prefix of the waiting batches to the TPU queue: no forwarded batch is lost, duplicated or
  reordered, the only change to a packet is that it is marked as forwarded, and every iteration delivers
  at least one batch.
\<close>

theorem fetch_stage_refines_queue:
  assumes "blocking_sender send accepted" "run_loop (fetch_step send) s envs = Ok s'"
  shows "queue_run (fetch_abs accepted s) (map (map (map mark_forwarded) \<circ> fe_arrived) envs) (fetch_abs accepted s') \<and>
    accepted (fetch_sender s') @ map (map mark_forwarded) (fetch_queue s') =
      accepted (fetch_sender s) @ map (map mark_forwarded) (fetch_queue s @ concat (map fe_arrived envs)) \<and>
    length (accepted (fetch_sender s)) + length envs \<le> length (accepted (fetch_sender s'))"
proof -
  note run = fetch_run_refines [OF assms]
  have "concat (map (map (map mark_forwarded) \<circ> fe_arrived) envs) =
    map (map mark_forwarded) (concat (map fe_arrived envs))"
    by (simp add: map_concat)
  with run queue_run_fifo [OF run] show ?thesis by (simp add: fetch_abs_def)
qed

definition demo_fetch :: "packet_batch chan fetch_loop" where
  "demo_fetch = \<lparr>fetch_queue = [[demo_packet [1]]], fetch_sender = chan_new 10, fetch_start = 0,
     tpu_forwards_receiver_max_len = 0, tpu_sender_max_len = 0, fetch_reports = []\<rparr>"

definition demo_fetch_envs :: "fetch_env list" where
  "demo_fetch_envs = [\<lparr>fe_arrived = [[demo_packet [2]]], fe_now = 1, fe_restart = 1, fe_sender_len = 2\<rparr>,
     \<lparr>fe_arrived = [[demo_packet [3]]], fe_now = 2, fe_restart = 2, fe_sender_len = 1\<rparr>]"

lemma demo_fetch_runs:
  "case run_loop (fetch_step chan_send) demo_fetch demo_fetch_envs of
     Ok s \<Rightarrow> fetch_queue s = [] \<and> length (ch_log (fetch_sender s)) = 3 | _ \<Rightarrow> False"
  by (simp add: demo_fetch_def demo_fetch_envs_def fetch_step_def handle_forwarded_packets_def fetch_metrics_def
      chan_send_def chan_new_def elapsed_def from_secs_def Let_def)

theorem fetch_stage_refines_queue_witness:
  "\<exists>s'. run_loop (fetch_step chan_send) demo_fetch demo_fetch_envs = Ok s' \<and> fetch_queue s' = [] \<and>
     ch_log (fetch_sender s') = map (map mark_forwarded) [[demo_packet [1]], [demo_packet [2]], [demo_packet [3]]]"
proof -
  from demo_fetch_runs obtain s' where
    s': "run_loop (fetch_step chan_send) demo_fetch demo_fetch_envs = Ok s'" "fetch_queue s' = []"
    by (auto split: result.splits)
  from fetch_stage_refines_queue [OF crossbeam_chan.blocking_sender_axioms s'(1)] s' show ?thesis
    by (simp add: demo_fetch_def demo_fetch_envs_def chan_new_def)
qed

section \<open>Stakes\<close>

text \<open>
  The stake table over a run of its updater. It is the initial one, or the one of some successful
  answer during the run: every node key that parses has the stake of its last vote account in the answer,
  current ones before delinquent ones, and no other key has a stake. The age of the table is counted from
  that refresh. The thread never spins: every iteration without a successful refresh sleeps.
\<close>

lemma staked_nodes_run:
  assumes "run_loop (staked_nodes_step k staked_nodes_new overrides) s es = Ok s'"
  shows "(shared_staked_nodes s' = shared_staked_nodes s \<and> last_stakes s' = last_stakes s \<or>
      (\<exists>env\<in>set es. \<exists>v. se_answer env = Ok v \<and> last_stakes s' = se_refreshed env \<and>
         shared_staked_nodes s' = staked_nodes_new
           (\<lambda>pk. let as = accounts_of k pk (current_accounts v @ delinquent_accounts v)
                 in if as = [] then None else Some (activated_stake (last as))) overrides)) \<and>
    length es \<le> length (stake_sleeps s') - length (stake_sleeps s) + length (filter (\<lambda>env. is_ok (se_answer env)) es) \<and>
    length (stake_sleeps s) \<le> length (stake_sleeps s')"
  using assms
proof (induction rule: run_loop_induct)
  case (Nil s)
  show ?case by simp
next
  case (Cons s e t es s')
  have stakes: "collect_map (stake_pairs k v) = (\<lambda>pk. let as = accounts_of k pk (current_accounts v @ delinquent_accounts v)
      in if as = [] then None else Some (activated_stake (last as)))" for v
    by (rule ext) (rule stake_of_node)
  from Cons.hyps(1) consider
      (refreshed) v where "se_answer e = Ok v" "last_stakes t = se_refreshed e" "stake_sleeps t = stake_sleeps s"
        "shared_staked_nodes t = staked_nodes_new (collect_map (stake_pairs k v)) overrides"
    | (slept) d where "stake_sleeps t = stake_sleeps s @ [d]" "last_stakes t = last_stakes s"
        "shared_staked_nodes t = shared_staked_nodes s"
    by (cases "se_answer e") (auto simp: staked_nodes_step_def try_refresh_pk_to_stake_def split: if_splits)
  then show ?case
  proof cases
    case refreshed
    with Cons.IH show ?thesis by (auto simp: stakes is_ok_def)
  next
    case slept
    with Cons.IH show ?thesis by auto
  qed
qed

definition demo_votes :: vote_accounts where
  "demo_votes = \<lparr>current_accounts = [\<lparr>node_pubkey = ''aaa'', activated_stake = 10\<rparr>, \<lparr>node_pubkey = ''*'', activated_stake = 1\<rparr>],
     delinquent_accounts = [\<lparr>node_pubkey = ''bbb'', activated_stake = 20\<rparr>]\<rparr>"

definition demo_stake_envs :: "stake_env list" where
  "demo_stake_envs = [\<lparr>se_now = from_secs 5, se_refreshed = from_secs 5, se_answer = Ok demo_votes\<rparr>,
     \<lparr>se_now = from_secs 6, se_refreshed = from_secs 7, se_answer = Ok demo_votes\<rparr>]"

text \<open>The first check is too early; keys \<open>aaa\<close> and \<open>bbb\<close> are the same node.\<close>

lemma staked_nodes_run_example:
  "case run_loop (staked_nodes_step demo_sdk (\<lambda>m _. m) Map.empty)
      \<lparr>last_stakes = 0, shared_staked_nodes = Map.empty, stake_sleeps = []\<rparr> demo_stake_envs of
     Ok s' \<Rightarrow> last_stakes s' = from_secs 7 \<and> shared_staked_nodes s' 3 = Some 20 \<and> shared_staked_nodes s' 1 = None
   | _ \<Rightarrow> False"
proof -
  obtain s' where
    s': "run_loop (staked_nodes_step demo_sdk (\<lambda>m _. m) Map.empty)
      \<lparr>last_stakes = 0, shared_staked_nodes = Map.empty, stake_sleeps = []\<rparr> demo_stake_envs = Ok s'"
    and l: "last_stakes s' = from_secs 7"
    by (simp add: demo_stake_envs_def staked_nodes_step_def try_refresh_pk_to_stake_def elapsed_def from_secs_def
        PK_TO_STAKE_REFRESH_DURATION_def)
  from staked_nodes_run [OF s'] l have "shared_staked_nodes s' =
    (\<lambda>pk. let as = accounts_of demo_sdk pk (current_accounts demo_votes @ delinquent_accounts demo_votes)
                 in if as = [] then None else Some (activated_stake (last as)))"
    by (auto simp: demo_stake_envs_def from_secs_def)
  with s' l show ?thesis by (simp add: accounts_of_def demo_votes_def demo_sdk_def)
qed

end
