(* ===== verification/Web_Status.thy ===== *)
theory Web_Status
  imports Relayer_Core
begin

text \<open>
  The diagnostic endpoints of \<open>web/src/lib.rs\<close>: the handlers and the router with its limits. The state is what the
  handlers read through their shared handles. Matching a request to a route, enforcing the limits and the HTTP
  server itself belong to the axum and tower crates.
\<close>

record 's relayer_state =
  slot_health :: health_state
  is_connected_to_block_engine :: bool
  relayer_handle :: "'s packet_subscriptions"

definition relayer_state_new :: "health_state \<Rightarrow> bool \<Rightarrow> 's packet_subscriptions \<Rightarrow> 's relayer_state" where
  "relayer_state_new health connected handle =
     \<lparr>slot_health = health, is_connected_to_block_engine = connected, relayer_handle = handle\<rparr>"

record relayer_status =
  st_slots_healthy :: bool
  st_is_connected_to_block_engine :: bool
  st_validators_connected :: "string list"

definition get_health :: "'s relayer_state \<Rightarrow> string" where
  "get_health state =
     (let slots_healthy = (slot_health state = Healthy);
          connected = is_connected_to_block_engine state
      in if slots_healthy \<and> connected then ''ok'' else ''unhealthy'')"

definition get_status :: "sdk \<Rightarrow> 's relayer_state \<Rightarrow> relayer_status" where
  "get_status k state =
     \<lparr>st_slots_healthy = (slot_health state = Healthy),
      st_is_connected_to_block_engine = is_connected_to_block_engine state,
      st_validators_connected = map (pubkey_to_string k) (connected_validators (relayer_handle state))\<rparr>"

definition homepage :: "'s relayer_state \<Rightarrow> string" where
  "homepage state = ''jito relayer''"

section \<open>The router\<close>

datatype web_body = TextBody string | JsonBody relayer_status

text \<open>
  The routes, all for \<open>GET\<close>, each with the answer of its handler; the number of requests that may wait; the number
  of requests per period that are let through; the answer to an error of these two layers.
\<close>

record relayer_router =
  web_routes :: "(string \<times> web_body) list"
  web_buffer :: nat
  web_rate_limit :: "u64 \<times> duration"
  web_on_error :: "string \<Rightarrow> nat \<times> string"

definition MAX_BUFFERED_REQUESTS :: nat where
  "MAX_BUFFERED_REQUESTS = 10"

definition REQUESTS_PER_SECOND :: u64 where
  "REQUESTS_PER_SECOND = 5"

definition build_relayer_router :: "sdk \<Rightarrow> 's relayer_state \<Rightarrow> nat \<Rightarrow> u64 \<Rightarrow> relayer_router" where
  "build_relayer_router k state max_buffered_request requests_per_second =
     \<lparr>web_routes =
        [(''/'', TextBody (homepage state)), (''/health'', TextBody (get_health state)),
         (''/status'', JsonBody (get_status k state))],
      web_buffer = max_buffered_request,
      web_rate_limit = (requests_per_second, from_secs 1),
      web_on_error = (\<lambda>err. (500, ''Unhandled error: '' @ err))\<rparr>"

text \<open>
  With the limits of \<open>main\<close>: three routes with different paths; \<open>/status\<close> and \<open>/health\<close> agree on the health of the
  relayer.
\<close>

lemma relayer_router_routes:
  fixes k state
  defines "r \<equiv> build_relayer_router k state MAX_BUFFERED_REQUESTS REQUESTS_PER_SECOND"
  shows "distinct (map fst (web_routes r))"
    "map_of (web_routes r) ''/health'' = Some (TextBody ''ok'') \<longleftrightarrow>
       (\<exists>st. map_of (web_routes r) ''/status'' = Some (JsonBody st) \<and>
          st_slots_healthy st \<and> st_is_connected_to_block_engine st)"
    "web_rate_limit r = (5, 1000000000)" "web_buffer r = 10"
  by (simp_all add: r_def build_relayer_router_def get_health_def get_status_def from_secs_def
      REQUESTS_PER_SECOND_def MAX_BUFFERED_REQUESTS_def Let_def)

end
