(* ===== verification/Packet_Blaster.thy ===== *)
theory Packet_Blaster
  imports Std_Text
begin

text \<open>
  The load generator of \<open>packet_blaster/src/main.rs\<close>: the source address of each thread, the three ways of
  sending, and the loop of a thread. Connections are outside: the outcomes of the sends are inputs.
\<close>

section \<open>Source addresses\<close>

definition TXN_BATCH_SIZE :: nat where
  "TXN_BATCH_SIZE = 10"

text \<open>The lower three bytes of the offset are the last three bytes of the address.\<close>

definition local_socket_addr :: "u16 \<Rightarrow> u64 \<Rightarrow> bool \<Rightarrow> ip_addr \<times> u16" where
  "local_socket_addr ip_port_offset thread_id spam_from_localhost =
     (let offset = (ucast ip_port_offset + ucast thread_id :: u32);
          port = 1024 + ucast offset
      in if spam_from_localhost then (V4 (0x7F000000 + take_bit 24 offset), port) else (V4 0, port))"

section \<open>Sending\<close>

text \<open>\<open>SlowLoris\<close> has the chunk size, the streams per connection and the sleep interval. Connections are left out.\<close>

datatype tpu_sender =
    Quinn
  | SlowLoris nat nat duration
  | Quic

text \<open>
  What becomes of one attempt: no stream, a failure while writing or finishing, or delivery. With the QUIC
  client the one attempt is the whole batch.
\<close>

datatype stream_outcome = OpenFailed | StreamFailed | Sent

text \<open>
  \<open>outcome j\<close> is the outcome of attempt \<open>j\<close>; a result is true where the source has \<open>Ok(())\<close>. A slow loris sends
  every transaction on each of \<open>num_streams\<close> streams, and once a stream is open \<open>chunks\<close> panics on a chunk size
  of zero. The QUIC client reports one result for the whole batch.
\<close>

definition sender_send :: "tpu_sender \<Rightarrow> (nat \<Rightarrow> stream_outcome) \<Rightarrow> bytes list \<Rightarrow> (bool list, unit) result" where
  "sender_send sender outcome txns =
     (case sender of
        Quinn \<Rightarrow> Ok (map (\<lambda>j. outcome j = Sent) [0..<length txns])
      | SlowLoris chunk_size num_streams _ \<Rightarrow>
          let attempts = [0..<length (List.product txns [0..<num_streams])]
          in if chunk_size = 0 \<and> list_ex (\<lambda>j. outcome j \<noteq> OpenFailed) attempts then Panic
             else Ok (map (\<lambda>j. outcome j = Sent) attempts)
      | Quic \<Rightarrow> Ok [outcome 0 = Sent])"

section \<open>The loop of a thread\<close>

text \<open>\<open>sent_lamports\<close> lists the amounts of the transactions handed to the sender.\<close>

record blaster =
  last_blockhash_refresh :: instant
  latest_blockhash :: nat
  curr_success_count :: u64
  curr_fail_count :: u64
  cumm_success_count :: u64
  cumm_fail_count :: u64
  sent_lamports :: "u64 list"

text \<open>
  An iteration reads the clock, the answer to the blockhash request (if it makes one) and the outcomes.
\<close>

record blaster_env =
  bl_now :: instant
  bl_blockhash :: "nat option"
  bl_outcome :: "nat \<Rightarrow> stream_outcome"

definition blaster_start :: "instant \<Rightarrow> nat \<Rightarrow> blaster" where
  "blaster_start now blockhash =
     \<lparr>last_blockhash_refresh = now, latest_blockhash = blockhash, curr_success_count = 0, curr_fail_count = 0,
      cumm_success_count = 0, cumm_fail_count = 0, sent_lamports = []\<rparr>"

definition blaster_refresh :: "blaster_env \<Rightarrow> blaster \<Rightarrow> (blaster, unit) result" where
  "blaster_refresh env s =
     (if elapsed (bl_now env) (last_blockhash_refresh s) > from_secs 5 then
        and_then (unwrap (bl_blockhash env)) (\<lambda>blockhash.
          Ok (s\<lparr>cumm_success_count := cumm_success_count s + curr_success_count s,
                cumm_fail_count := cumm_fail_count s + curr_fail_count s,
                last_blockhash_refresh := bl_now env, curr_success_count := 0, curr_fail_count := 0,
                latest_blockhash := blockhash\<rparr>))
      else Ok s)"

definition txn_count :: "blaster \<Rightarrow> u64" where
  "txn_count s = cumm_success_count s + cumm_fail_count s + curr_success_count s + curr_fail_count s"

text \<open>\<open>serialize_transfer\<close> builds, signs and serializes the transfer of an amount to oneself.\<close>

definition blaster_step ::
  "(u64 \<Rightarrow> nat \<Rightarrow> bytes option) \<Rightarrow> tpu_sender \<Rightarrow> blaster \<Rightarrow> blaster_env \<Rightarrow> (blaster, unit) result" where
  "blaster_step serialize_transfer sender s env =
     and_then (blaster_refresh env s) (\<lambda>s1.
       let lamports = map (\<lambda>i. txn_count s1 + word_of_nat i) [0..<TXN_BATCH_SIZE];
           sent = filter (\<lambda>l. serialize_transfer l (latest_blockhash s1) \<noteq> None) lamports;
           serialized = List.map_filter (\<lambda>l. serialize_transfer l (latest_blockhash s1)) lamports
       in and_then (sender_send sender (bl_outcome env) serialized) (\<lambda>results.
            Ok (s1\<lparr>curr_success_count := curr_success_count s1 + word_of_nat (length (filter (\<lambda>b. b) results)),
                   curr_fail_count := curr_fail_count s1 + word_of_nat (length (filter (\<lambda>b. \<not> b) results)),
                   sent_lamports := sent_lamports s1 @ sent\<rparr>)))"

section \<open>Airdrops\<close>

text \<open>
  The loop of \<open>request_and_confirm_airdrop\<close>: each poll is the time since the requests and the answer to the
  status query, one flag per signature. \<open>None\<close> is a loop that is still polling.
\<close>

datatype 'e airdrop_error = RequestError 'e | SignatureError

fun airdrop_poll :: "(duration \<times> (bool list, 'e) result) list \<Rightarrow> (unit, 'e airdrop_error) result option" where
  "airdrop_poll [] = None"
| "airdrop_poll ((waited, answer) # polls) =
     (if waited < from_secs 20 then
        (case answer of
           Ok statuses \<Rightarrow> if list_all (\<lambda>s. s) statuses then Some (Err SignatureError) else airdrop_poll polls
         | Err e \<Rightarrow> Some (Err (RequestError e))
         | Panic \<Rightarrow> Some Panic)
      else Some (Ok ()))"

fun request_all :: "('pubkey \<Rightarrow> (unit, 'e) result) \<Rightarrow> 'pubkey list \<Rightarrow> (unit, 'e) result" where
  "request_all request_airdrop [] = Ok ()"
| "request_all request_airdrop (k # ks) = and_then (request_airdrop k) (\<lambda>_. request_all request_airdrop ks)"

definition request_and_confirm_airdrop ::
  "('pubkey \<Rightarrow> (unit, 'e) result) \<Rightarrow> 'pubkey list \<Rightarrow> (duration \<times> (bool list, 'e) result) list \<Rightarrow>
   (unit, 'e airdrop_error) result option" where
  "request_and_confirm_airdrop request_airdrop pubkeys polls =
     (case request_all request_airdrop pubkeys of
        Ok _ \<Rightarrow> airdrop_poll polls
      | Err e \<Rightarrow> Some (Err (RequestError e))
      | Panic \<Rightarrow> Some Panic)"

text \<open>
  Success is a timeout: the function answers \<open>Ok\<close> exactly when a poll comes at twenty seconds or later and
  every earlier one was answered with a signature still unknown.
\<close>

lemma airdrop_poll_Ok:
  "airdrop_poll polls = Some (Ok ()) \<longleftrightarrow>
   (\<exists>early late rest. polls = early @ late # rest \<and> from_secs 20 \<le> fst late \<and>
      (\<forall>(t, answer)\<in>set early. t < from_secs 20 \<and> (\<exists>ss. answer = Ok ss \<and> False \<in> set ss)))"
    (is "_ \<longleftrightarrow> ?R polls")
proof (induction polls)
  case (Cons p polls)
  obtain t answer where p: "p = (t, answer)" by (cases p)
  have late: "?R (p # polls)" if "from_secs 20 \<le> t"
    using that by (intro exI [of _ "[]"] exI [of _ p] exI [of _ polls]) (simp add: p)
  have early: "?R (p # polls) \<longleftrightarrow> (\<exists>ss. answer = Ok ss \<and> False \<in> set ss) \<and> ?R polls" if "t < from_secs 20"
  proof
    assume "?R (p # polls)"
    then obtain early late rest where *: "p # polls = early @ late # rest" "from_secs 20 \<le> fst late"
      "\<forall>(t, answer)\<in>set early. t < from_secs 20 \<and> (\<exists>ss. answer = Ok ss \<and> False \<in> set ss)" by blast
    from *(1,2) that obtain early' where "early = p # early'" by (cases early) (auto simp: p)
    with * have "\<exists>ss. answer = Ok ss \<and> False \<in> set ss" "polls = early' @ late # rest"
      "\<forall>(t, answer)\<in>set early'. t < from_secs 20 \<and> (\<exists>ss. answer = Ok ss \<and> False \<in> set ss)"
      by (simp_all add: p)
    with *(2) show "(\<exists>ss. answer = Ok ss \<and> False \<in> set ss) \<and> ?R polls" by blast
  next
    assume *: "(\<exists>ss. answer = Ok ss \<and> False \<in> set ss) \<and> ?R polls"
    then obtain early late rest where "polls = early @ late # rest" "from_secs 20 \<le> fst late"
      "\<forall>(t, answer)\<in>set early. t < from_secs 20 \<and> (\<exists>ss. answer = Ok ss \<and> False \<in> set ss)" by blast
    with * that show "?R (p # polls)"
      by (intro exI [of _ "p # early"] exI [of _ late] exI [of _ rest]) (simp add: p)
  qed
  show ?case
  proof (cases "t < from_secs 20")
    case True
    have "list_all (\<lambda>s. s) ss \<longleftrightarrow> False \<notin> set ss" for ss by (induction ss) auto
    then show ?thesis unfolding early [OF True] using True Cons.IH by (cases answer) (simp_all add: p)
  next
    case False
    then show ?thesis using late by (simp add: p)
  qed
qed simp

lemma airdrop_confirmed_is_error:
  "t < from_secs 20 \<Longrightarrow> list_all (\<lambda>s. s) ss \<Longrightarrow> airdrop_poll ((t, Ok ss) # polls) = Some (Err SignatureError)"
  by simp

section \<open>The amounts\<close>

text \<open>The number of results a batch of ten transactions yields.\<close>

definition results_per_batch :: "tpu_sender \<Rightarrow> nat" where
  "results_per_batch sender =
     (case sender of Quinn \<Rightarrow> TXN_BATCH_SIZE | SlowLoris _ n _ \<Rightarrow> TXN_BATCH_SIZE * n | Quic \<Rightarrow> 1)"

lemma sender_send_length:
  "sender_send sender outcome txns = Ok rs \<Longrightarrow> length txns = TXN_BATCH_SIZE \<Longrightarrow> length rs = results_per_batch sender"
  by (cases sender) (auto simp: sender_send_def results_per_batch_def Let_def split: if_splits)

lemma txn_count_refresh: "blaster_refresh env s = Ok s' \<Longrightarrow> txn_count s' = txn_count s \<and> sent_lamports s' = sent_lamports s"
  by (auto simp: blaster_refresh_def txn_count_def rust_simps algebra_simps split: if_splits)

lemma map_filter_all_Some:
  assumes "\<And>x. f x \<noteq> None"
  shows "length (List.map_filter f xs) = length xs" "filter (\<lambda>x. f x \<noteq> None) xs = xs"
  using assms by (auto simp: List.map_filter_def)

lemma blaster_step_amounts:
  assumes "blaster_step ser sender s env = Ok s'" "\<And>l b. ser l b \<noteq> None"
  shows "txn_count s' = txn_count s + word_of_nat (results_per_batch sender)"
    "sent_lamports s' = sent_lamports s @ map (\<lambda>i. txn_count s + word_of_nat i) [0..<TXN_BATCH_SIZE]"
proof -
  let ?ls = "\<lambda>t. map (\<lambda>i. txn_count t + word_of_nat i) [0..<TXN_BATCH_SIZE]"
  from assms(1) obtain t rs where t: "blaster_refresh env s = Ok t"
    and rs: "sender_send sender (bl_outcome env) (List.map_filter (\<lambda>l. ser l (latest_blockhash t)) (?ls t)) = Ok rs"
    and s': "s' = t\<lparr>curr_success_count := curr_success_count t + word_of_nat (length (filter (\<lambda>b. b) rs)),
        curr_fail_count := curr_fail_count t + word_of_nat (length (filter (\<lambda>b. \<not> b) rs)),
        sent_lamports := sent_lamports t @ filter (\<lambda>l. ser l (latest_blockhash t) \<noteq> None) (?ls t)\<rparr>"
    by (auto simp: blaster_step_def rust_simps Let_def)
  note all = map_filter_all_Some [of "\<lambda>l. ser l (latest_blockhash t)", OF assms(2)]
  have "length rs = results_per_batch sender"
    by (rule sender_send_length [OF rs]) (simp add: all)
  then have "length (filter (\<lambda>b. b) rs) + length (filter (\<lambda>b. \<not> b) rs) = results_per_batch sender"
    using sum_length_filter_compl [of "\<lambda>b. b" rs] by simp
  then have sum: "word_of_nat (length (filter (\<lambda>b. b) rs)) + word_of_nat (length (filter (\<lambda>b. \<not> b) rs)) =
    (word_of_nat (results_per_batch sender) :: u64)"
    by (metis of_nat_add)
  have "txn_count s' = txn_count t +
    (word_of_nat (length (filter (\<lambda>b. b) rs)) + word_of_nat (length (filter (\<lambda>b. \<not> b) rs)))"
    by (simp add: txn_count_def s' algebra_simps)
  with sum txn_count_refresh [OF t] show "txn_count s' = txn_count s + word_of_nat (results_per_batch sender)" by simp
  show "sent_lamports s' = sent_lamports s @ map (\<lambda>i. txn_count s + word_of_nat i) [0..<TXN_BATCH_SIZE]"
    using txn_count_refresh [OF t] by (simp add: s' all del: not_None_eq)
qed

text \<open>Batch \<open>j\<close> carries ten amounts from \<open>j\<close> times the number of results on.\<close>

lemma blaster_run_amounts:
  assumes "\<And>l b. ser l b \<noteq> None"
  shows "run_loop (blaster_step ser sender) s es = Ok s' \<Longrightarrow> txn_count s = word_of_nat (results_per_batch sender * n) \<Longrightarrow>
    sent_lamports s' = sent_lamports s @
      concat (map (\<lambda>j. map word_of_nat [results_per_batch sender * j..<results_per_batch sender * j + TXN_BATCH_SIZE])
        [n..<n + length es])"
proof (induction arbitrary: n rule: run_loop_induct)
  case (Nil s)
  then show ?case by simp
next
  case (Cons s e t es s')
  note step = blaster_step_amounts [OF Cons.hyps(1) assms]
  have "txn_count t = word_of_nat (results_per_batch sender * Suc n)"
    using step(1) Cons.prems by (simp add: algebra_simps)
  from Cons.IH [OF this] have rest: "sent_lamports s' = sent_lamports t @
      concat (map (\<lambda>j. map word_of_nat [results_per_batch sender * j..<results_per_batch sender * j + TXN_BATCH_SIZE])
        [Suc n..<Suc n + length es])" .
  have one: "map (\<lambda>i. txn_count s + word_of_nat i) [0..<TXN_BATCH_SIZE] =
    map word_of_nat [results_per_batch sender * n..<results_per_batch sender * n + TXN_BATCH_SIZE]"
    using Cons.prems by (auto intro!: nth_equalityI)
  have "[n..<n + length (e # es)] = n # [Suc n..<Suc n + length es]" by (subst upt_conv_Cons) simp_all
  then show ?case by (simp only: rest step(2) one append_assoc list.map concat.simps)
qed

end
