(* ===== verification/Packet_Blaster_Theorems.thy ===== *)
theory Packet_Blaster_Theorems
  imports Packet_Blaster
begin

text \<open>The properties of the load generator.\<close>

section \<open>Source addresses\<close>

text \<open>On the loopback network no two threads share an address, as long as offsets stay below \<open>2 ^ 24\<close>.\<close>

lemma local_socket_addr_distinct:
  assumes "unat off + unat t < 2 ^ 24" "unat off + unat t' < 2 ^ 24"
    "local_socket_addr off t True = local_socket_addr off t' True"
  shows "t = t'"
proof -
  have u: "unat (ucast off + ucast x :: u32) = unat off + unat x" if "unat off + unat x < 2 ^ 24" for x :: u64
  proof -
    have "unat (ucast off :: u32) = unat off" "unat (ucast x :: u32) = unat x"
      using that by (simp_all add: unsigned_ucast_eq take_bit_nat_eq_self)
    with that show ?thesis by (simp add: unat_word_ariths)
  qed
  have b: "take_bit 24 w = w" if "unat w < 2 ^ 24" for w :: u32
  proof (rule unsigned_word_eqI)
    show "unat (take_bit 24 w) = unat w" using that by (simp add: unsigned_take_bit_eq take_bit_nat_eq_self)
  qed
  have "take_bit 24 (ucast off + ucast t :: u32) = take_bit 24 (ucast off + ucast t')"
    using assms(3) by (simp add: local_socket_addr_def Let_def)
  then have "(ucast off + ucast t :: u32) = ucast off + ucast t'"
    using b u assms(1,2) by metis
  then have "unat off + unat t = unat off + unat t'" using u assms(1,2) by metis
  then show ?thesis by (intro unsigned_word_eqI) simp
qed

section \<open>Amounts\<close>

lemma concat_batches: "concat (map (\<lambda>j. [r * j..<r * j + r]) [0..<n]) = [0..<r * n]"
proof (induction n)
  case (Suc n)
  have "[0..<r * n + r] = [0..<r * n] @ [r * n..<r * n + r]" by (rule upt_add_eq_append) simp
  with Suc show ?case by (simp add: algebra_simps)
qed simp

text \<open>
  C35: which transfers a thread sends, if all of them serialize. Over Quinn the amounts are 0, 1, 2, ...: as long
  as the counter does not wrap, no two transactions are the same. Over the Solana QUIC client, which reports
  one result per batch of ten, every batch starts only one above the last: after \<open>n\<close> batches there are \<open>n + 9\<close>
  different amounts among the \<open>10 n\<close> transactions sent, so within one blockhash nine of every ten repeat an
  earlier transaction.
\<close>

theorem blaster_amounts:
  assumes "\<And>l b. serialize_transfer l b \<noteq> None"
    "run_loop (blaster_step serialize_transfer sender) (blaster_start now h) es = Ok s" "10 * length es < 2 ^ 64"
  shows "(sender = Quinn \<longrightarrow> sent_lamports s = map word_of_nat [0..<10 * length es] \<and> distinct (sent_lamports s)) \<and>
    (sender = Quic \<longrightarrow> length (sent_lamports s) = 10 * length es \<and>
       set (sent_lamports s) = word_of_nat ` (if es = [] then {} else {0..<length es + 9}))"
proof (intro conjI impI)
  have amounts: "sent_lamports s =
      concat (map (\<lambda>j. map word_of_nat [results_per_batch sender * j..<results_per_batch sender * j + TXN_BATCH_SIZE])
        [0..<length es])"
    using blaster_run_amounts [OF assms(1,2), of 0] by (simp add: blaster_start_def txn_count_def)
  show quinn: "sent_lamports s = map word_of_nat [0..<10 * length es]" if "sender = Quinn"
    using arg_cong [OF concat_batches [of 10 "length es"], of "map (word_of_nat :: nat \<Rightarrow> u64)"]
    by (simp add: amounts that results_per_batch_def TXN_BATCH_SIZE_def map_concat comp_def)
  have "inj_on (word_of_nat :: nat \<Rightarrow> u64) {0..<10 * length es}"
  proof (rule inj_onI)
    fix x y assume xy: "x \<in> {0..<10 * length es}" "y \<in> {0..<10 * length es}" "word_of_nat x = (word_of_nat y :: u64)"
    have u: "unat (word_of_nat z :: u64) = z" if "z < 2 ^ 64" for z
      using that by (simp add: unsigned_of_nat take_bit_nat_eq_self)
    from xy assms(3) have "x < 2 ^ 64" "y < 2 ^ 64" by simp_all
    then show "x = y" using arg_cong [OF xy(3), of unat] by (simp only: u)
  qed
  then show "distinct (sent_lamports s)" if "sender = Quinn"
    by (simp add: quinn [OF that] distinct_map)
  show "length (sent_lamports s) = 10 * length es" if "sender = Quic"
    by (simp add: amounts length_concat comp_def TXN_BATCH_SIZE_def sum_list_triv)
  show "set (sent_lamports s) = word_of_nat ` (if es = [] then {} else {0..<length es + 9})" if "sender = Quic"
  proof -
    have "(\<Union>j\<in>{0..<length es}. {j..<j + 10}) = (if es = [] then {} else {0..<length es + 9})"
    proof (cases "es = []")
      case False
      have "x \<in> (\<Union>j\<in>{0..<length es}. {j..<j + 10})" if "x < length es + 9" for x
      proof (rule UN_I [of "min x (length es - 1)"])
        from False have "0 < length es" by simp
        with that show "min x (length es - 1) \<in> {0..<length es}"
          "x \<in> {min x (length es - 1)..<min x (length es - 1) + 10}"
          unfolding atLeastLessThan_iff by linarith+
      qed
      with False show ?thesis by auto
    qed simp
    moreover have "set (sent_lamports s) = word_of_nat ` (\<Union>j\<in>{0..<length es}. {j..<j + 10})"
      by (auto simp: amounts that results_per_batch_def TXN_BATCH_SIZE_def)
    ultimately show ?thesis by simp
  qed
qed

theorem blaster_amounts_witness:
  "\<exists>s s'. run_loop (blaster_step (\<lambda>_ _. Some [1]) Quinn) (blaster_start 0 0) [\<lparr>bl_now = 1, bl_blockhash = None, bl_outcome = \<lambda>_. Sent\<rparr>] = Ok s \<and>
     sent_lamports s = map word_of_nat [0..<10] \<and>
   run_loop (blaster_step (\<lambda>_ _. Some [1]) Quic) (blaster_start 0 0)
     [\<lparr>bl_now = 1, bl_blockhash = None, bl_outcome = \<lambda>_. Sent\<rparr>, \<lparr>bl_now = 2, bl_blockhash = None, bl_outcome = \<lambda>_. Sent\<rparr>] = Ok s' \<and>
     length (sent_lamports s') = 20 \<and> set (sent_lamports s') = word_of_nat ` {0..<11}"
proof -
  let ?e = "\<lambda>t. \<lparr>bl_now = t, bl_blockhash = None, bl_outcome = \<lambda>_. Sent\<rparr>"
  obtain s where s: "run_loop (blaster_step (\<lambda>_ _. Some [1]) Quinn) (blaster_start 0 0) [?e 1] = Ok s"
    by (simp add: blaster_step_def blaster_refresh_def blaster_start_def sender_send_def elapsed_def Let_def from_secs_def)
  obtain s' where s': "run_loop (blaster_step (\<lambda>_ _. Some [1]) Quic) (blaster_start 0 0) [?e 1, ?e 2] = Ok s'"
    by (simp add: blaster_step_def blaster_refresh_def blaster_start_def sender_send_def elapsed_def Let_def from_secs_def)
  have ser: "(\<lambda>_ _. Some [1 :: 8 word]) l b \<noteq> None" for l :: u64 and b :: nat by simp
  have "sent_lamports s = map word_of_nat [0..<10]"
    using blaster_amounts [OF ser s] by simp
  moreover have "length (sent_lamports s') = 20" "set (sent_lamports s') = word_of_nat ` {0..<11}"
    using blaster_amounts [OF ser s'] by simp_all
  ultimately show ?thesis using s s' by blast
qed

end
