(* ===== verification/Packet_Blaster_Setup.thy ===== *)
theory Packet_Blaster_Setup
  imports Packet_Blaster_Theorems
begin

text \<open>
  The setup of the load generator (\<open>packet_blaster/src/main.rs\<close>): its arguments, the key files, the endpoint and the
  connection of each thread. The file system, the key parser, the TLS and the QUIC crates are arguments.
\<close>

section \<open>Arguments\<close>

text \<open>\<open>SlowLorisMode\<close>: \<open>spam_from_localhost\<close>, \<open>chunk_size\<close>, \<open>sleep_interval_ms\<close>, \<open>num_connections\<close>, \<open>num_streams_per_conn\<close>.\<close>

datatype blaster_mode =
    QuicMode
  | QuinnMode bool
  | SlowLorisMode bool nat u64 u64 u64

type_synonym socket_addr = "ip_addr \<times> u16"

record blaster_args =
  bl_rpc_addr :: string
  bl_keypair_path :: string
  bl_tpu_addr :: socket_addr
  bl_ip_port_offset :: u16
  bl_loop_sleep_micros :: "u64 option"
  bl_connection_mode :: blaster_mode

definition blaster_args_default :: "string \<Rightarrow> blaster_mode \<Rightarrow> blaster_args" where
  "blaster_args_default keypair_path mode =
     \<lparr>bl_rpc_addr = ''http://127.0.0.1:8899'', bl_keypair_path = keypair_path, bl_tpu_addr = (V4 0x7F000001, 8009),
      bl_ip_port_offset = 0, bl_loop_sleep_micros = None, bl_connection_mode = mode\<rparr>"

definition slow_loris_default :: "u64 \<Rightarrow> bool \<Rightarrow> blaster_mode" where
  "slow_loris_default max_unstaked_streams spam = SlowLorisMode spam 4 50 8 max_unstaked_streams"

section \<open>Key files\<close>

datatype io_error = IoError string | NotFound string

text \<open>\<open>read_dir\<close> yields an entry or an error for each file of a directory.\<close>

record 'kp key_files =
  is_dir :: "string \<Rightarrow> bool"
  read_dir :: "string \<Rightarrow> (string option list, io_error) result"
  fs_read :: "string \<Rightarrow> (bytes, io_error) result"
  read_keypair_file :: "string \<Rightarrow> 'kp option"
  keypair_from_bytes :: "bytes \<Rightarrow> ('kp, string) result"

definition read_keypairs :: "'kp key_files \<Rightarrow> string \<Rightarrow> ('kp list, io_error) result" where
  "read_keypairs fs path =
     (if is_dir fs path then
        and_then (read_dir fs path) (\<lambda>entries.
          Ok (List.map_filter (\<lambda>entry. Option.bind entry (read_keypair_file fs)) entries))
      else
        and_then (fs_read fs path) (\<lambda>content.
          case keypair_from_bytes fs content of
            Ok kp \<Rightarrow> Ok [kp] | Err e \<Rightarrow> Err (NotFound e) | Panic \<Rightarrow> Panic))"

section \<open>Endpoints and connections\<close>

text \<open>What \<open>create_endpoint\<close> configures.\<close>

record quinn_endpoint =
  qe_addr :: socket_addr
  qe_early_data :: bool
  qe_alpn_protocols :: "string list"
  qe_max_idle_timeout_ms :: u32
  qe_keep_alive_interval :: duration

text \<open>Constants and calls of the crates; \<open>None\<close> and \<open>False\<close> are errors.\<close>

record 'cert quic_crates =
  QUIC_MAX_TIMEOUT_MS :: u32
  QUIC_KEEP_ALIVE_MS :: u64
  ALPN_TPU_PROTOCOL_ID :: string
  new_self_signed_tls_certificate_chain :: "ip_addr \<Rightarrow> 'cert option"
  with_single_cert :: "'cert \<Rightarrow> bool"
  endpoint_client :: "socket_addr \<Rightarrow> bool"
  connect :: "quinn_endpoint \<Rightarrow> socket_addr \<Rightarrow> string \<Rightarrow> bool option"

text \<open>The verifier accepts every certificate.\<close>

definition verify_server_cert :: "'cert \<Rightarrow> bool" where
  "verify_server_cert end_entity = True"

definition create_endpoint :: "'cert quic_crates \<Rightarrow> socket_addr \<Rightarrow> (quinn_endpoint, unit) result" where
  "create_endpoint q send_addr =
     and_then (unwrap (new_self_signed_tls_certificate_chain q (fst send_addr))) (\<lambda>certs.
       if \<not> with_single_cert q certs then Panic
       else if \<not> endpoint_client q send_addr then Panic
       else Ok \<lparr>qe_addr = send_addr, qe_early_data = True, qe_alpn_protocols = [ALPN_TPU_PROTOCOL_ID q],
                qe_max_idle_timeout_ms = QUIC_MAX_TIMEOUT_MS q * 100,
                qe_keep_alive_interval = from_millis (unat (QUIC_KEEP_ALIVE_MS q))\<rparr>)"

text \<open>\<open>connect\<close> answers \<open>None\<close> if it cannot start, and otherwise whether the handshake succeeds.\<close>

definition setup_quinn_sender ::
  "'cert quic_crates \<Rightarrow> socket_addr \<Rightarrow> u16 \<Rightarrow> u64 \<Rightarrow> bool \<Rightarrow> (quinn_endpoint, unit) result" where
  "setup_quinn_sender q dest_addr ip_port_offset thread_id spam_from_localhost =
     and_then (create_endpoint q (local_socket_addr ip_port_offset thread_id spam_from_localhost)) (\<lambda>ep.
     and_then (unwrap (connect q ep dest_addr ''connect'')) (\<lambda>connected.
       if connected then Ok ep else Panic))"

text \<open>The sender of a thread, with the endpoint it sends from; the QUIC client makes its own on first use.\<close>

definition tpu_sender_new ::
  "'cert quic_crates \<Rightarrow> blaster_args \<Rightarrow> u64 \<Rightarrow> (tpu_sender \<times> quinn_endpoint option, unit) result" where
  "tpu_sender_new q args thread_id =
     (case bl_connection_mode args of
        QuinnMode spam \<Rightarrow>
          and_then (setup_quinn_sender q (bl_tpu_addr args) (bl_ip_port_offset args) thread_id spam) (\<lambda>ep.
            Ok (Quinn, Some ep))
      | SlowLorisMode spam chunk_size sleep_interval_ms num_connections num_streams_per_conn \<Rightarrow>
          and_then (setup_quinn_sender q (bl_tpu_addr args) (bl_ip_port_offset args) thread_id spam) (\<lambda>ep.
            Ok (SlowLoris chunk_size (unat num_streams_per_conn) (from_millis (unat sleep_interval_ms)), Some ep))
      | QuicMode \<Rightarrow> Ok (Quic, None))"

section \<open>Starting the threads\<close>

text \<open>
  \<open>main\<close>: one thread per key, numbered in order. A thread connects, asks for a blockhash (\<open>unwrap\<close>) and enters its
  loop. The result lists what each thread starts with; a panic of a thread reaches \<open>main\<close> at the joins.
\<close>

definition blaster_thread ::
  "'cert quic_crates \<Rightarrow> blaster_args \<Rightarrow> instant \<Rightarrow> nat option \<Rightarrow> nat \<Rightarrow> (tpu_sender \<times> quinn_endpoint option \<times> blaster, unit) result" where
  "blaster_thread q args now blockhash thread_id =
     and_then (tpu_sender_new q args (word_of_nat thread_id)) (\<lambda>(sender, ep).
     and_then (unwrap blockhash) (\<lambda>h. Ok (sender, ep, blaster_start now h)))"

definition announced_ports :: "blaster_args \<Rightarrow> 'kp list \<Rightarrow> u16 \<times> u16" where
  "announced_ports args keypairs =
     (let starting_port = 1024 + bl_ip_port_offset args
      in (starting_port, starting_port + word_of_nat (length keypairs)))"

definition blaster_main ::
  "'kp key_files \<Rightarrow> 'cert quic_crates \<Rightarrow> blaster_args \<Rightarrow> instant \<Rightarrow> nat option
     \<Rightarrow> (('kp \<times> (tpu_sender \<times> quinn_endpoint option \<times> blaster, unit) result) list, unit) result" where
  "blaster_main fs q args now blockhash =
     (case read_keypairs fs (bl_keypair_path args) of
        Ok keypairs \<Rightarrow> Ok (map (\<lambda>(thread_id, kp). (kp, blaster_thread q args now blockhash thread_id)) (enumerate 0 keypairs))
      | _ \<Rightarrow> Panic)"

section \<open>Lemmas\<close>

lemma create_endpoint_Ok:
  "create_endpoint q addr = Ok ep \<Longrightarrow> qe_addr ep = addr \<and> qe_early_data ep"
  by (auto simp: create_endpoint_def rust_simps split: if_splits)

lemma setup_quinn_sender_Ok:
  "setup_quinn_sender q dest off t spam = Ok ep \<Longrightarrow> qe_addr ep = local_socket_addr off t spam"
  by (auto simp: setup_quinn_sender_def rust_simps dest: create_endpoint_Ok split: if_splits)

lemma tpu_sender_new_addr:
  "tpu_sender_new q args t = Ok (sender, Some ep) \<Longrightarrow>
     \<exists>spam. qe_addr ep = local_socket_addr (bl_ip_port_offset args) t spam \<and>
       (bl_connection_mode args = QuinnMode True \<longrightarrow> spam)"
  by (auto simp: tpu_sender_new_def rust_simps dest!: setup_quinn_sender_Ok split: blaster_mode.splits)

text \<open>In a directory, files that are not keys are skipped; elsewhere the file must hold the bytes of one key.\<close>

lemma read_keypairs_dir:
  "is_dir fs path \<Longrightarrow> read_dir fs path = Ok (map Some files) \<Longrightarrow>
     read_keypairs fs path = Ok (List.map_filter (read_keypair_file fs) files)"
  by (simp add: read_keypairs_def List.map_filter_def filter_map comp_def)

text \<open>
  The option \<open>num_connections\<close> has no effect, and a chunk size of 0 is accepted here and panics only once a
  stream is open.
\<close>

lemma num_connections_unused:
  "tpu_sender_new q (args\<lparr>bl_connection_mode := SlowLorisMode spam c ms n s\<rparr>) t =
   tpu_sender_new q (args\<lparr>bl_connection_mode := SlowLorisMode spam c ms n' s\<rparr>) t"
  by (simp add: tpu_sender_new_def)

lemma zero_chunks_panic:
  assumes "0 < num_streams" "txns \<noteq> []" "outcome 0 = Sent"
  shows "sender_send (SlowLoris 0 num_streams d) outcome txns = Panic"
proof -
  have "0 < length (List.product txns [0..<num_streams])" using assms(1,2) by (simp add: length_product)
  then have "list_ex (\<lambda>j. outcome j \<noteq> OpenFailed) [0..<length (List.product txns [0..<num_streams])]"
    unfolding list_ex_iff using assms(3) by (intro bexI [of _ 0]) simp_all
  then show ?thesis by (simp add: sender_send_def)
qed

text \<open>
  With \<open>spam_from_localhost\<close> all threads of a run send from different loopback addresses, so a limit per address
  never applies to two of them together.
\<close>

lemma blaster_main_sources:
  assumes "blaster_main fs q args now h = Ok ts" "bl_connection_mode args = QuinnMode True"
    and "i < length ts" "j < length ts" "i \<noteq> j"
    and "snd (ts ! i) = Ok (si, Some ei, bi)" "snd (ts ! j) = Ok (sj, Some ej, bj)"
    and "unat (bl_ip_port_offset args) + length ts < 2 ^ 24"
  shows "qe_addr ei \<noteq> qe_addr ej"
proof
  assume eq: "qe_addr ei = qe_addr ej"
  from assms(1) obtain kps where ts: "ts = map (\<lambda>(t, kp). (kp, blaster_thread q args now h t)) (enumerate 0 kps)"
    by (auto simp: blaster_main_def split: result.splits)
  then have th: "snd (ts ! n) = blaster_thread q args now h n" if "n < length ts" for n
    using that by (simp add: nth_enumerate_eq)
  have addr: "qe_addr e = local_socket_addr (bl_ip_port_offset args) (word_of_nat n) True"
    if "n < length ts" "snd (ts ! n) = Ok (sd, Some e, b)" for n sd e b
  proof -
    from that th [OF that(1)] have "blaster_thread q args now h n = Ok (sd, Some e, b)" by simp
    then have "tpu_sender_new q args (word_of_nat n) = Ok (sd, Some e)" by (auto simp: blaster_thread_def rust_simps)
    from tpu_sender_new_addr [OF this] assms(2) show ?thesis by auto
  qed
  have small: "unat (word_of_nat n :: u64) = n" if "n < length ts" for n
    using that assms(8) by (simp add: unat_of_nat take_bit_nat_eq_self)
  have "(word_of_nat i :: u64) = word_of_nat j"
    using eq addr [OF assms(3,6)] addr [OF assms(4,7)] small assms(3,4,8)
    by (intro local_socket_addr_distinct [of "bl_ip_port_offset args"]) simp_all
  with small [OF assms(3)] small [OF assms(4)] assms(5) show False by simp
qed

end
