(* ===== verification/Tpu_Assembly.thy ===== *)
theory Tpu_Assembly
  imports Startup Fetch_Stage Staked_Nodes
begin

text \<open>
  The assembly of the transaction processing unit (\<open>core/src/tpu.rs\<close>): which QUIC servers are spawned, with
  which limits, and which queue each of them, the fetch stage and the signature verification hold. The
  servers and the verification are Solana's: \<open>spawn_server\<close>, its constants and its default parameters are
  arguments.
\<close>

section \<open>Servers\<close>

definition MAX_QUIC_CONNECTIONS_PER_IP :: u64 where
  "MAX_QUIC_CONNECTIONS_PER_IP = 8"

definition MAX_CONNECTIONS_PER_IPADDR_PER_MIN :: u64 where
  "MAX_CONNECTIONS_PER_IPADDR_PER_MIN = 64"

definition TPU_QUEUE_CAPACITY :: nat where
  "TPU_QUEUE_CAPACITY = 10000"

text \<open>\<open>qp_rest\<close> stands for the fields taken from \<open>QuicServerParams::default()\<close>.\<close>

record 'rest quic_server_params =
  qp_max_connections_per_peer :: u64
  qp_max_connections_per_ipaddr_per_min :: u64
  qp_max_staked_connections :: u64
  qp_max_unstaked_connections :: u64
  qp_max_streams_per_ms :: u64
  qp_rest :: 'rest

text \<open>The two bounded queues: \<open>tpu_sender\<close>/\<open>tpu_receiver\<close> and \<open>tpu_forwards_sender\<close>/\<open>tpu_forwards_receiver\<close>.\<close>

datatype tpu_queue = TpuQueue | TpuForwardsQueue

text \<open>A call of \<open>spawn_server\<close>: name, socket, the queue whose sender it gets, parameters.\<close>

record ('sock, 'rest) quic_server =
  qs_name :: string
  qs_sock :: 'sock
  qs_sender :: tpu_queue
  qs_params :: "'rest quic_server_params"

record ('sock, 'rest, 'thread) solana_quic =
  max_quic_connections_per_peer :: u64
  default_rest :: 'rest
  spawn_server :: "('sock, 'rest) quic_server \<Rightarrow> 'thread option"

definition tpu_server ::
  "('sock, 'rest, 'thread) solana_quic \<Rightarrow> u64 \<Rightarrow> u64 \<Rightarrow> 'sock \<Rightarrow> ('sock, 'rest) quic_server" where
  "tpu_server q max_unstaked max_staked sock =
     \<lparr>qs_name = ''quic_streamer_tpu'', qs_sock = sock, qs_sender = TpuQueue,
      qs_params =
        \<lparr>qp_max_connections_per_peer = max_quic_connections_per_peer q,
         qp_max_connections_per_ipaddr_per_min = MAX_CONNECTIONS_PER_IPADDR_PER_MIN,
         qp_max_staked_connections = max_staked, qp_max_unstaked_connections = max_unstaked,
         qp_max_streams_per_ms = 1000, qp_rest = default_rest q\<rparr>\<rparr>"

definition tpu_forwards_server ::
  "('sock, 'rest, 'thread) solana_quic \<Rightarrow> u64 \<Rightarrow> 'sock \<Rightarrow> ('sock, 'rest) quic_server" where
  "tpu_forwards_server q max_staked sock =
     \<lparr>qs_name = ''quic_streamer_tpu_forwards'', qs_sock = sock, qs_sender = TpuForwardsQueue,
      qs_params =
        \<lparr>qp_max_connections_per_peer = max_quic_connections_per_peer q,
         qp_max_connections_per_ipaddr_per_min = MAX_CONNECTIONS_PER_IPADDR_PER_MIN,
         qp_max_staked_connections = max_staked, qp_max_unstaked_connections = 0,
         qp_max_streams_per_ms = 1000, qp_rest = default_rest q\<rparr>\<rparr>"

text \<open>\<open>map(|sock| spawn_server(..).unwrap().thread).collect()\<close>.\<close>

fun spawn_servers ::
  "(('sock, 'rest) quic_server \<Rightarrow> 'thread option) \<Rightarrow> ('sock, 'rest) quic_server list \<Rightarrow> ('thread list, unit) result" where
  "spawn_servers spawn [] = Ok []"
| "spawn_servers spawn (srv # srvs) =
     and_then (unwrap (spawn srv)) (\<lambda>t. and_then (spawn_servers spawn srvs) (\<lambda>ts. Ok (t # ts)))"

section \<open>The unit\<close>

text \<open>
  What is running after \<open>Tpu::new\<close>: the servers, their threads in the order of \<open>thread_handles\<close>, the queue
  the fetch stage reads and the one it writes, the queue the signature verification reads, and the stake
  overrides of the updater.
\<close>

record ('sock, 'rest, 'thread) tpu_unit =
  unit_servers :: "('sock, 'rest) quic_server list"
  unit_thread_handles :: "'thread list"
  unit_fetch_from :: tpu_queue
  unit_fetch_to :: tpu_queue
  unit_sigverify_from :: tpu_queue
  unit_overrides :: "pubkey \<rightharpoonup> u64"

definition tpu_new ::
  "('sock, 'rest, 'thread) solana_quic \<Rightarrow> 'sock tpu_sockets \<Rightarrow> u64 \<Rightarrow> u64 \<Rightarrow> (pubkey \<rightharpoonup> u64)
     \<Rightarrow> (('sock, 'rest, 'thread) tpu_unit, unit) result" where
  "tpu_new q sockets max_unstaked max_staked overrides =
     (let tpu_servers = map (tpu_server q max_unstaked max_staked) (transactions_quic_sockets sockets);
          fwd_servers = map (tpu_forwards_server q max_staked) (transactions_forwards_quic_sockets sockets)
      in and_then (spawn_servers (spawn_server q) tpu_servers) (\<lambda>quic_tasks.
         and_then (spawn_servers (spawn_server q) fwd_servers) (\<lambda>fwd_tasks.
           Ok \<lparr>unit_servers = tpu_servers @ fwd_servers, unit_thread_handles = quic_tasks @ fwd_tasks,
               unit_fetch_from = TpuForwardsQueue, unit_fetch_to = TpuQueue, unit_sigverify_from = TpuQueue,
               unit_overrides = overrides\<rparr>)))"

text \<open>
  The senders of a queue that are alive when \<open>Tpu::new\<close> returns: each server has a clone, the fetch stage
  has \<open>tpu_sender\<close>, and the function's own \<open>tpu_forwards_sender\<close> is dropped.
\<close>

definition live_senders :: "('sock, 'rest, 'thread) tpu_unit \<Rightarrow> tpu_queue \<Rightarrow> nat" where
  "live_senders u c =
     length (filter (\<lambda>srv. qs_sender srv = c) (unit_servers u)) + (if unit_fetch_to u = c then 1 else 0)"

section \<open>Lemmas\<close>

lemma spawn_servers_Ok:
  "spawn_servers spawn srvs = Ok ts \<longleftrightarrow> map spawn srvs = map Some ts"
proof (induction srvs arbitrary: ts)
  case (Cons srv srvs)
  show ?case by (cases ts) (auto simp: rust_simps Cons.IH)
qed auto

lemma spawn_servers_Panic:
  "spawn_servers spawn srvs = Panic \<longleftrightarrow> (\<exists>srv\<in>set srvs. spawn srv = None)"
proof (induction srvs)
  case (Cons srv srvs)
  then show ?case
    by (cases "spawn srv"; cases "spawn_servers spawn srvs") (auto simp: unwrap_def)
qed simp

lemma spawn_servers_not_Err: "spawn_servers spawn srvs \<noteq> Err e"
proof (induction srvs)
  case (Cons srv srvs)
  then show ?case by (cases "spawn srv"; cases "spawn_servers spawn srvs") (auto simp: unwrap_def)
qed simp

lemma tpu_new_Ok:
  assumes "tpu_new q sockets max_unstaked max_staked overrides = Ok u"
  shows "unit_servers u = map (tpu_server q max_unstaked max_staked) (transactions_quic_sockets sockets)
      @ map (tpu_forwards_server q max_staked) (transactions_forwards_quic_sockets sockets)"
    "map (spawn_server q) (unit_servers u) = map Some (unit_thread_handles u)"
    "unit_fetch_from u = TpuForwardsQueue" "unit_fetch_to u = TpuQueue" "unit_sigverify_from u = TpuQueue"
  using assms by (auto simp: tpu_new_def Let_def rust_simps spawn_servers_Ok)

text \<open>
  The TPU queue always has a sender, the fetch stage; the forwards queue has one sender per forward socket,
  and hence none at all if there is no such socket.
\<close>

lemma tpu_new_live_senders:
  assumes "tpu_new q sockets max_unstaked max_staked overrides = Ok u"
  shows "live_senders u TpuQueue = Suc (length (transactions_quic_sockets sockets))"
    "live_senders u TpuForwardsQueue = length (transactions_forwards_quic_sockets sockets)"
  using tpu_new_Ok [OF assms]
  by (simp_all add: live_senders_def filter_map comp_def tpu_server_def tpu_forwards_server_def)

text \<open>Nobody without stake can connect to a server that feeds the forwards queue.\<close>

lemma forwards_servers_staked_only:
  assumes "tpu_new q sockets max_unstaked max_staked overrides = Ok u" "srv \<in> set (unit_servers u)"
  shows "qp_max_unstaked_connections (qs_params srv) = (if qs_sender srv = TpuForwardsQueue then 0 else max_unstaked)"
    "qp_max_staked_connections (qs_params srv) = max_staked"
  using tpu_new_Ok(1) [OF assms(1)] assms(2) by (auto simp: tpu_server_def tpu_forwards_server_def)

lemma tpu_new_total:
  "tpu_new q sockets max_unstaked max_staked overrides = Panic \<longleftrightarrow>
     (\<exists>sock\<in>set (transactions_quic_sockets sockets). spawn_server q (tpu_server q max_unstaked max_staked sock) = None) \<or>
     (\<exists>sock\<in>set (transactions_forwards_quic_sockets sockets). spawn_server q (tpu_forwards_server q max_staked sock) = None)"
    (is "_ \<longleftrightarrow> ?a \<or> ?b")
proof -
  let ?s = "spawn_servers (spawn_server q)"
  let ?xs = "map (tpu_server q max_unstaked max_staked) (transactions_quic_sockets sockets)"
  let ?ys = "map (tpu_forwards_server q max_staked) (transactions_forwards_quic_sockets sockets)"
  have "?a \<longleftrightarrow> ?s ?xs = Panic" "?b \<longleftrightarrow> ?s ?ys = Panic" by (simp_all add: spawn_servers_Panic)
  moreover have "tpu_new q sockets max_unstaked max_staked overrides = Panic \<longleftrightarrow> ?s ?xs = Panic \<or> ?s ?ys = Panic"
    using spawn_servers_not_Err [of "spawn_server q" ?xs] spawn_servers_not_Err [of "spawn_server q" ?ys]
    by (cases "?s ?xs"; cases "?s ?ys") (auto simp: tpu_new_def Let_def)
  ultimately show ?thesis by blast
qed

end
