(* ===== verification/Process.thy ===== *)
theory Process
  imports Tpu_Assembly Block_Engine Load_Balancer Auth_Service
begin

text \<open>
  The relayer as a process: which threads \<open>main\<close> starts, the channels between them, the exit flag, the panic
  hook of \<open>core/src/lib.rs\<close>, the shutdown on a signal and the final joins (\<open>transaction-relayer/src/main.rs\<close>).

  Every thread of the source is a loop that reads the exit flag, waits for something and acts on it. A state
  records where each thread is, how many messages each channel holds, and how far \<open>main\<close> has got; a step is one
  such move of one thread, so that all interleavings are covered. The contents of the messages are the
  business of the component theories: here only their number matters. The QUIC servers, the signature
  verification and the gRPC server are not part of the repository; of them the model says that they stop
  once they are told to (the servers read the flag between two batches, the verification stops when one of
  its channels is disconnected, the gRPC server returns some time after the signal).
\<close>

section \<open>Threads and channels\<close>

text \<open>
  What decides which threads there are and what can go wrong in them: the numbers of servers, the options, and
  facts about the inputs. \<open>pc_batches\<close>: the batch size for validators is not 0. \<open>pc_serve\<close>: the gRPC server can be set up.
  \<open>pc_requests\<close>: no request to it panics. \<open>pc_web\<close>: the address of the web server can be bound. \<open>pc_sweep\<close>: the interval of
  the expiration task is not 0. \<open>pc_peer\<close>: neither the URLs nor the answers of the block engine make its client panic.
  \<open>process_config_of\<close> derives them from the setup and from the surroundings of the process.
\<close>

record proc_config =
  pc_subscriptions :: nat
  pc_tpu :: nat
  pc_forwards :: nat
  pc_mempool :: bool
  pc_block_engine :: bool
  pc_lookup :: bool
  pc_batches :: bool
  pc_serve :: bool
  pc_requests :: bool
  pc_web :: bool
  pc_sweep :: bool
  pc_peer :: bool

text \<open>
  The last four run on the asynchronous runtime: \<open>GrpcT\<close> is \<open>main\<close> itself, which serves until the signal, \<open>HandlerT\<close> the
  handling of gRPC requests, \<open>WebT\<close> the web server and \<open>SweepT\<close> the task that expires challenges. A panic in a task runs
  the hook like any other. \<open>main\<close> waits for none of the tasks.
\<close>

datatype thread =
    SubscriptionT nat
  | HealthManagerT
  | RelayerLoopT
  | ForwarderT
  | FetchStageT
  | SigVerifyT
  | TpuQuicT nat
  | TpuForwardsQuicT nat
  | BlockEngineT
  | StakedNodesT
  | LeaderScheduleT
  | LookupRefresherT
  | WebT
  | SweepT
  | GrpcT
  | HandlerT

definition process_threads :: "proc_config \<Rightarrow> thread list" where
  "process_threads cfg =
     map SubscriptionT [0..<pc_subscriptions cfg]
     @ (if pc_lookup cfg then [LookupRefresherT] else [])
     @ [StakedNodesT] @ map TpuQuicT [0..<pc_tpu cfg] @ map TpuForwardsQuicT [0..<pc_forwards cfg]
     @ [FetchStageT, SigVerifyT, LeaderScheduleT, ForwarderT]
     @ (if pc_block_engine cfg then [BlockEngineT] else [])
     @ [HealthManagerT, RelayerLoopT, WebT, SweepT, GrpcT, HandlerT]"

text \<open>
  \<open>Head\<close>: about to read the exit flag. \<open>Body\<close>: in the loop body, waiting. \<open>Sending n\<close>: committed to sends, or, in the
  expiration task, about to create its interval. A thread that panics runs the hook, which never returns, so it keeps its ends of the channels.
\<close>

datatype phase = Head | Body | Sending nat | Stopped | Panicked

datatype channel =
    SlotCh
  | DownstreamSlotCh
  | ForwardsCh
  | TpuCh
  | VerifiedCh
  | DelayCh
  | SubscriptionCh
  | BlockEngineCh

fun chan_senders :: "proc_config \<Rightarrow> channel \<Rightarrow> thread list" where
  "chan_senders cfg SlotCh = map SubscriptionT [0..<pc_subscriptions cfg]"
| "chan_senders cfg DownstreamSlotCh = [HealthManagerT]"
| "chan_senders cfg ForwardsCh = map TpuForwardsQuicT [0..<pc_forwards cfg]"
| "chan_senders cfg TpuCh = map TpuQuicT [0..<pc_tpu cfg] @ [FetchStageT]"
| "chan_senders cfg VerifiedCh = [SigVerifyT]"
| "chan_senders cfg DelayCh = [ForwarderT]"
| "chan_senders cfg SubscriptionCh = [GrpcT]"
| "chan_senders cfg BlockEngineCh = [ForwarderT]"

fun chan_receiver :: "channel \<Rightarrow> thread" where
  "chan_receiver SlotCh = HealthManagerT"
| "chan_receiver DownstreamSlotCh = RelayerLoopT"
| "chan_receiver ForwardsCh = FetchStageT"
| "chan_receiver TpuCh = SigVerifyT"
| "chan_receiver VerifiedCh = ForwarderT"
| "chan_receiver DelayCh = RelayerLoopT"
| "chan_receiver SubscriptionCh = RelayerLoopT"
| "chan_receiver BlockEngineCh = BlockEngineT"

text \<open>The channel of verified batches is unbounded.\<close>

fun chan_capacity_of :: "channel \<Rightarrow> nat option" where
  "chan_capacity_of SlotCh = Some SLOT_QUEUE_CAPACITY"
| "chan_capacity_of DownstreamSlotCh = Some SLOT_QUEUE_CAPACITY"
| "chan_capacity_of ForwardsCh = Some TPU_QUEUE_CAPACITY"
| "chan_capacity_of TpuCh = Some TPU_QUEUE_CAPACITY"
| "chan_capacity_of VerifiedCh = None"
| "chan_capacity_of DelayCh = Some TPU_QUEUE_CAPACITY"
| "chan_capacity_of SubscriptionCh = Some SLOT_QUEUE_CAPACITY"
| "chan_capacity_of BlockEngineCh = Some (unat BLOCK_ENGINE_FORWARDER_QUEUE_CAPACITY)"

text \<open>
  \<open>buffered\<close> is the length of the forwarder's buffer; \<open>to_join\<close> the threads \<open>main\<close> has still to join, \<open>None\<close> while
  it serves.
\<close>

record proc =
  exit_set :: bool
  signalled :: bool
  phase_of :: "thread \<Rightarrow> phase"
  queued :: "channel \<Rightarrow> nat"
  buffered :: nat
  to_join :: "thread list option"
  exit_code :: "nat option"

definition process_start :: proc where
  "process_start =
     \<lparr>exit_set = False, signalled = False,
      phase_of = (\<lambda>t. if t = SigVerifyT \<or> t = WebT \<or> t = GrpcT \<or> t = HandlerT then Body
        else if t = SweepT then Sending 1 else Head),
      queued = (\<lambda>_. 0), buffered = 0, to_join = None, exit_code = None\<rparr>"

text \<open>
  A receiver sees its channel disconnected when it is empty and every sender is dropped; a sender fails when
  the receiver is dropped. Without a block engine \<open>BlockEngineRelayerHandler::new\<close> drops the receiver at once.
\<close>

definition disconnected :: "proc_config \<Rightarrow> proc \<Rightarrow> channel \<Rightarrow> bool" where
  "disconnected cfg s c \<longleftrightarrow> queued s c = 0 \<and> list_all (\<lambda>t. phase_of s t = Stopped) (chan_senders cfg c)"

definition receiver_gone :: "proc_config \<Rightarrow> proc \<Rightarrow> channel \<Rightarrow> bool" where
  "receiver_gone cfg s c \<longleftrightarrow>
     phase_of s (chan_receiver c) = Stopped \<or> (c = BlockEngineCh \<and> \<not> pc_block_engine cfg)"

definition has_room :: "proc \<Rightarrow> channel \<Rightarrow> bool" where
  "has_room s c = (case chan_capacity_of c of None \<Rightarrow> True | Some n \<Rightarrow> queued s c < n)"

definition push :: "channel \<Rightarrow> proc \<Rightarrow> proc" where
  "push c s = s\<lparr>queued := (queued s)(c := queued s c + 1)\<rparr>"

definition take_from :: "channel \<Rightarrow> nat \<Rightarrow> proc \<Rightarrow> proc" where
  "take_from c n s = s\<lparr>queued := (queued s)(c := queued s c - n)\<rparr>"

definition go_to :: "thread \<Rightarrow> phase \<Rightarrow> proc \<Rightarrow> proc" where
  "go_to t p s = s\<lparr>phase_of := (phase_of s)(t := p)\<rparr>"

section \<open>The panic hook\<close>

text \<open>
  \<open>graceful_panic\<close>: the hook stores the flag, waits and ends the process with code 1, whatever the other threads
  do meanwhile (\<open>hook_moves\<close>).
\<close>

definition panic_in :: "thread \<Rightarrow> proc \<Rightarrow> proc" where
  "panic_in t s = (go_to t Panicked s)\<lparr>exit_set := True\<rparr>"

definition hook_moves :: "proc_config \<Rightarrow> proc \<Rightarrow> proc list" where
  "hook_moves cfg s =
     (if list_ex (\<lambda>t. phase_of s t = Panicked) (process_threads cfg) then [s\<lparr>exit_code := Some 1\<rparr>] else [])"

section \<open>Moves of the threads\<close>

text \<open>\<open>while !exit.load(Ordering::Relaxed)\<close>.\<close>

definition head_moves :: "thread \<Rightarrow> proc \<Rightarrow> proc list" where
  "head_moves t s = (if phase_of s t = Head then [go_to t (if exit_set s then Stopped else Body) s] else [])"

text \<open>A blocking \<open>send\<close>: it waits for room, and fails only if the receiver is dropped.\<close>

definition send_moves :: "proc_config \<Rightarrow> channel \<Rightarrow> (proc \<Rightarrow> proc) \<Rightarrow> (proc \<Rightarrow> proc) \<Rightarrow> proc \<Rightarrow> proc list" where
  "send_moves cfg c sent failed s =
     (if receiver_gone cfg s c then [failed s] else if has_room s c then [sent (push c s)] else [])"

text \<open>A receive: a message if there is one, an error if the channel is disconnected.\<close>

definition recv_moves :: "proc_config \<Rightarrow> channel \<Rightarrow> (proc \<Rightarrow> proc list) \<Rightarrow> (proc \<Rightarrow> proc) \<Rightarrow> proc \<Rightarrow> proc list" where
  "recv_moves cfg c got failed s =
     (if 0 < queued s c then got (take_from c 1 s) else if disconnected cfg s c then [failed s] else [])"

text \<open>
  A subscription thread (\<open>rpc/src/load_balancer.rs\<close>). Whatever happens to the websocket, and also when the send
  fails, it comes back to a check of the flag.
\<close>

definition subscription_moves :: "proc_config \<Rightarrow> nat \<Rightarrow> proc \<Rightarrow> proc list" where
  "subscription_moves cfg i s =
     (let t = SubscriptionT i
      in case phase_of s t of
           Body \<Rightarrow> [go_to t Head s, go_to t (Sending 1) s]
         | Sending _ \<Rightarrow> send_moves cfg SlotCh (go_to t Head) (go_to t Head) s
         | _ \<Rightarrow> head_moves t s)"

text \<open>The health manager (\<open>relayer/src/health_manager.rs\<close>): a tick, or a slot that it passes on; both \<open>expect\<close>.\<close>

definition health_moves :: "proc_config \<Rightarrow> proc \<Rightarrow> proc list" where
  "health_moves cfg s =
     (let t = HealthManagerT
      in case phase_of s t of
           Body \<Rightarrow> go_to t Head s # recv_moves cfg SlotCh (\<lambda>s'. [go_to t (Sending 1) s']) (panic_in t) s
         | Sending _ \<Rightarrow> send_moves cfg DownstreamSlotCh (go_to t Head) (panic_in t) s
         | _ \<Rightarrow> head_moves t s)"

text \<open>
  The relayer's event loop (\<open>relayer/src/relayer.rs\<close>): a tick, or a message on one of three channels; a
  disconnected channel makes \<open>run_event_loop\<close> return an error, which ends the thread. Cutting a delayed batch into
  chunks of size 0 panics.
\<close>

definition relayer_moves :: "proc_config \<Rightarrow> proc \<Rightarrow> proc list" where
  "relayer_moves cfg s =
     (let t = RelayerLoopT
      in case phase_of s t of
           Body \<Rightarrow>
             go_to t Head s #
             recv_moves cfg DownstreamSlotCh (\<lambda>s'. [go_to t Head s']) (go_to t Stopped) s
             @ recv_moves cfg DelayCh (\<lambda>s'. [if pc_batches cfg then go_to t Head s' else panic_in t s']) (go_to t Stopped) s
             @ recv_moves cfg SubscriptionCh (\<lambda>s'. [go_to t Head s']) (go_to t Stopped) s
         | _ \<Rightarrow> head_moves t s)"

text \<open>
  The forwarder (\<open>transaction-relayer/src/forwarder.rs\<close>): it receives with a timeout, offers the batch to the
  block engine, then looks at the front of its buffer (\<open>Sending 0\<close>) and sends what is due (\<open>Sending 1\<close>).
\<close>

definition offer_moves :: "proc_config \<Rightarrow> proc \<Rightarrow> proc list" where
  "offer_moves cfg s =
     (let t = ForwarderT
      in if \<not> pc_mempool cfg then [go_to t (Sending 0) s]
         else if receiver_gone cfg s BlockEngineCh then [panic_in t s]
         else if has_room s BlockEngineCh then [go_to t (Sending 0) (push BlockEngineCh s)]
         else [go_to t (Sending 0) s])"

definition forwarder_moves :: "proc_config \<Rightarrow> proc \<Rightarrow> proc list" where
  "forwarder_moves cfg s =
     (let t = ForwarderT
      in case phase_of s t of
           Body \<Rightarrow>
             go_to t (Sending 0) s #
             recv_moves cfg VerifiedCh (\<lambda>s'. offer_moves cfg (s'\<lparr>buffered := buffered s' + 1\<rparr>)) (panic_in t) s
         | Sending n \<Rightarrow>
             if n = 0 then go_to t Head s # (if 0 < buffered s then [go_to t (Sending 1) s] else [])
             else send_moves cfg DelayCh (\<lambda>s'. go_to t (Sending 0) (s'\<lparr>buffered := buffered s' - 1\<rparr>)) (panic_in t) s
         | _ \<Rightarrow> head_moves t s)"

text \<open>
  The fetch stage (\<open>core/src/fetch_stage.rs\<close>): \<open>recv\<close> without a timeout, then a \<open>try_recv\<close>, and more of them as long as
  there are batches and not too many packets; all that were taken are sent on. How many are taken beyond the second
  depends on their packets, which are not part of the state.
\<close>

definition fetch_moves :: "proc_config \<Rightarrow> proc \<Rightarrow> proc list" where
  "fetch_moves cfg s =
     (let t = FetchStageT
      in case phase_of s t of
           Body \<Rightarrow>
             if 0 < queued s ForwardsCh
             then map (\<lambda>n. go_to t (Sending n) (take_from ForwardsCh n s)) [min 2 (queued s ForwardsCh)..<Suc (queued s ForwardsCh)]
             else if disconnected cfg s ForwardsCh then [panic_in t s] else []
         | Sending n \<Rightarrow>
             if n = 0 then [go_to t Head s]
             else send_moves cfg TpuCh (go_to t (Sending (n - 1))) (panic_in t) s
         | _ \<Rightarrow> head_moves t s)"

text \<open>Solana's signature verification: it has no flag and stops when a channel is disconnected.\<close>

definition sigverify_moves :: "proc_config \<Rightarrow> proc \<Rightarrow> proc list" where
  "sigverify_moves cfg s =
     (let t = SigVerifyT
      in case phase_of s t of
           Body \<Rightarrow>
             recv_moves cfg TpuCh
               (\<lambda>s'. s' # send_moves cfg VerifiedCh (\<lambda>s''. s'') (go_to t Stopped) s') (go_to t Stopped) s
         | _ \<Rightarrow> [])"

definition quic_moves :: "proc_config \<Rightarrow> thread \<Rightarrow> channel \<Rightarrow> proc \<Rightarrow> proc list" where
  "quic_moves cfg t c s =
     (case phase_of s t of
        Body \<Rightarrow> go_to t Head s # (if \<not> receiver_gone cfg s c \<and> has_room s c then [go_to t Head (push c s)] else [])
      | _ \<Rightarrow> head_moves t s)"

text \<open>
  The block engine handler: whatever happens to the connection, it comes back to a check of the flag, unless the
  URL or an answer makes it panic.
\<close>

definition block_engine_moves :: "proc_config \<Rightarrow> proc \<Rightarrow> proc list" where
  "block_engine_moves cfg s =
     (let t = BlockEngineT
      in case phase_of s t of
           Body \<Rightarrow>
             go_to t Head s #
             (if 0 < queued s BlockEngineCh then [go_to t Head (take_from BlockEngineCh 1 s)] else [])
             @ (if pc_peer cfg then [] else [panic_in t s])
         | _ \<Rightarrow> head_moves t s)"

text \<open>
  The threads that only poll: stakes, leader schedule, lookup tables. A poll that is due calls
  \<open>LoadBalancer::rpc_client\<close>, which panics if there is no server.
\<close>

definition poller_moves :: "proc_config \<Rightarrow> thread \<Rightarrow> proc \<Rightarrow> proc list" where
  "poller_moves cfg t s =
     (case phase_of s t of
        Body \<Rightarrow> go_to t Head s # (if pc_subscriptions cfg = 0 then [panic_in t s] else [])
      | _ \<Rightarrow> head_moves t s)"

text \<open>
  The web server (\<open>web/src/lib.rs\<close>): \<open>axum::Server::bind\<close> panics if the address cannot be bound; otherwise it serves until
  the process ends.
\<close>

definition web_moves :: "proc_config \<Rightarrow> proc \<Rightarrow> proc list" where
  "web_moves cfg s = (if phase_of s WebT = Body \<and> \<not> pc_web cfg then [panic_in WebT s] else [])"

text \<open>
  The expiration task (\<open>start_challenge_expiration_task\<close> of \<open>relayer/src/auth_service.rs\<close>): \<open>interval\<close> panics for a period of
  0; then it sweeps at every tick until the flag is set.
\<close>

definition sweep_moves :: "proc_config \<Rightarrow> proc \<Rightarrow> proc list" where
  "sweep_moves cfg s =
     (let t = SweepT
      in case phase_of s t of
           Sending _ \<Rightarrow> [if pc_sweep cfg then go_to t Head s else panic_in t s]
         | Body \<Rightarrow> [go_to t Head s]
         | _ \<Rightarrow> head_moves t s)"

section \<open>The main thread\<close>

text \<open>
  The threads that the \<open>join\<close> methods wait for, in order: \<open>Tpu\<close>, and the handler of the block engine, which may have no
  thread.
\<close>

definition tpu_join :: "proc_config \<Rightarrow> thread list" where
  "tpu_join cfg =
     [FetchStageT, StakedNodesT, SigVerifyT] @ map TpuQuicT [0..<pc_tpu cfg] @ map TpuForwardsQuicT [0..<pc_forwards cfg]"

definition block_engine_join :: "proc_config \<Rightarrow> thread list" where
  "block_engine_join cfg = (if pc_block_engine cfg then [BlockEngineT] else [])"

definition join_order :: "proc_config \<Rightarrow> thread list" where
  "join_order cfg =
     tpu_join cfg @ [HealthManagerT, LeaderScheduleT, ForwarderT]
     @ (if pc_lookup cfg then [LookupRefresherT] else []) @ block_engine_join cfg"

lemmas join_defs = join_order_def tpu_join_def block_engine_join_def

text \<open>\<open>shutdown_signal\<close>, which runs while the server serves, stores the flag and lets it stop.\<close>

definition signal_moves :: "proc_config \<Rightarrow> proc \<Rightarrow> proc list" where
  "signal_moves cfg s =
     (if phase_of s GrpcT = Body \<and> pc_serve cfg \<and> \<not> signalled s then [s\<lparr>signalled := True, exit_set := True\<rparr>] else [])"

text \<open>
  The gRPC server: setting it up panics if a lifetime of tokens cannot be converted, the address cannot be bound or the
  signal handlers cannot be installed; then a subscription from a validator, or, after the signal, the end of
  \<open>serve_with_shutdown\<close>, on which \<open>main\<close> stores the flag and starts to join.
\<close>

definition grpc_moves :: "proc_config \<Rightarrow> proc \<Rightarrow> proc list" where
  "grpc_moves cfg s =
     (case phase_of s GrpcT of
        Body \<Rightarrow>
          if \<not> pc_serve cfg then [panic_in GrpcT s]
          else
          (if \<not> receiver_gone cfg s SubscriptionCh \<and> has_room s SubscriptionCh then [push SubscriptionCh s] else [])
          @ (if signalled s
             then [(go_to GrpcT Stopped s)\<lparr>exit_set := True, to_join := Some (join_order cfg)\<rparr>] else [])
      | _ \<Rightarrow> [])"

text \<open>A request that makes its handler panic, while the server serves.\<close>

definition handler_moves :: "proc_config \<Rightarrow> proc \<Rightarrow> proc list" where
  "handler_moves cfg s =
     (if phase_of s HandlerT = Body \<and> phase_of s GrpcT = Body \<and> pc_serve cfg \<and> \<not> pc_requests cfg
      then [panic_in HandlerT s] else [])"

definition main_moves :: "proc \<Rightarrow> proc list" where
  "main_moves s =
     (case to_join s of
        None \<Rightarrow> []
      | Some [] \<Rightarrow> [s\<lparr>exit_code := Some 0\<rparr>]
      | Some (t # ts) \<Rightarrow> if phase_of s t = Stopped then [s\<lparr>to_join := Some ts\<rparr>] else [])"

section \<open>The process\<close>

fun thread_moves :: "proc_config \<Rightarrow> thread \<Rightarrow> proc \<Rightarrow> proc list" where
  "thread_moves cfg (SubscriptionT i) s = subscription_moves cfg i s"
| "thread_moves cfg HealthManagerT s = health_moves cfg s"
| "thread_moves cfg RelayerLoopT s = relayer_moves cfg s"
| "thread_moves cfg ForwarderT s = forwarder_moves cfg s"
| "thread_moves cfg FetchStageT s = fetch_moves cfg s"
| "thread_moves cfg SigVerifyT s = sigverify_moves cfg s"
| "thread_moves cfg (TpuQuicT i) s = quic_moves cfg (TpuQuicT i) TpuCh s"
| "thread_moves cfg (TpuForwardsQuicT i) s = quic_moves cfg (TpuForwardsQuicT i) ForwardsCh s"
| "thread_moves cfg BlockEngineT s = block_engine_moves cfg s"
| "thread_moves cfg StakedNodesT s = poller_moves cfg StakedNodesT s"
| "thread_moves cfg LeaderScheduleT s = poller_moves cfg LeaderScheduleT s"
| "thread_moves cfg LookupRefresherT s = poller_moves cfg LookupRefresherT s"
| "thread_moves cfg WebT s = web_moves cfg s"
| "thread_moves cfg SweepT s = sweep_moves cfg s"
| "thread_moves cfg GrpcT s = grpc_moves cfg s"
| "thread_moves cfg HandlerT s = handler_moves cfg s"

definition process_moves :: "proc_config \<Rightarrow> proc \<Rightarrow> proc list" where
  "process_moves cfg s =
     (if exit_code s \<noteq> None then []
      else hook_moves cfg s @ signal_moves cfg s @ main_moves s
           @ concat (map (\<lambda>t. thread_moves cfg t s) (process_threads cfg)))"

inductive process_reach :: "proc_config \<Rightarrow> proc \<Rightarrow> bool" for cfg where
  start: "process_reach cfg process_start"
| step: "process_reach cfg s \<Longrightarrow> s' \<in> set (process_moves cfg s) \<Longrightarrow> process_reach cfg s'"

section \<open>The surroundings\<close>

text \<open>
  A call to one of the gRPC services: the authorization header of the calls that pass the interceptor, or the request
  with what its handler reads (the size of the store and the pending challenges for \<open>generate_auth_challenge\<close>, the
  pending challenges for \<open>generate_auth_tokens\<close>, the two readings of the clock for \<open>refresh_access_token\<close>).
\<close>

datatype grpc_call =
    GetTpuConfigsCall auth_header
  | SubscribePacketsCall auth_header
  | AuthChallengeCall challenge_env challenge_request nat "ip_addr \<Rightarrow> auth_challenge option"
  | AuthTokensCall health_state tokens_request "ip_addr \<Rightarrow> auth_challenge option"
  | RefreshCall health_state naive_date_time naive_date_time string

text \<open>
  Whether the call panics, by its handler. \<open>subscribe_packets\<close> itself does not panic, so only its interceptor counts.
\<close>

fun call_panics :: "sdk \<Rightarrow> chrono \<Rightarrow> crypto \<Rightarrow> auth_config \<Rightarrow> relayer_impl \<Rightarrow> grpc_call \<Rightarrow> bool" where
  "call_panics k ch cr cfg r (GetTpuConfigsCall header) \<longleftrightarrow>
     and_then (auth_interceptor_call k ch cr Rs256 header) (\<lambda>_. snd (get_tpu_configs k r)) = Panic"
| "call_panics k ch cr cfg r (SubscribePacketsCall header) \<longleftrightarrow> auth_interceptor_call k ch cr Rs256 header = Panic"
| "call_panics k ch cr cfg r (AuthChallengeCall env req len pending) \<longleftrightarrow>
     challenge_decision k ch cfg env req len pending = Panic"
| "call_panics k ch cr cfg r (AuthTokensCall health req pending) \<longleftrightarrow>
     and_then (tokens_client k cr health req) (\<lambda>(ip, key, pk).
       and_then (pending_challenge (pending ip)) (tokens_decision k ch cr cfg req key pk)) = Panic"
| "call_panics k ch cr cfg r (RefreshCall health now now' token) \<longleftrightarrow>
     refresh_access_token k ch cr cfg health now now' token = Panic"

text \<open>
  What the process meets: the libraries, whether the operating system lets it bind its two addresses and install its
  signal handlers, the calls of its clients, and the sessions with the block engine.
\<close>

record ('c, 's, 'a) surroundings =
  sr_sdk :: sdk
  sr_chrono :: chrono
  sr_crypto :: crypto
  sr_from_std :: "duration \<Rightarrow> int option"
  sr_pubkey_bytes :: nat
  sr_signature_bytes :: nat
  sr_role_validator :: int
  sr_binds_web :: bool
  sr_binds_grpc :: bool
  sr_signal_handlers :: bool
  sr_calls :: "grpc_call list"
  sr_engine :: "('c, 's, 'a) be_config"
  sr_sessions :: "('c, 's, 'a) be_session list"

text \<open>The call of \<open>AuthServiceImpl::new\<close> in \<open>main\<close>.\<close>

definition main_auth_config :: "('c, 's, 'a) surroundings \<Rightarrow> 'sock relayer_setup \<Rightarrow> (auth_config, unit) result" where
  "main_auth_config sr su =
     auth_config_new (sr_from_std sr) (sr_pubkey_bytes sr) (sr_signature_bytes sr) (sr_role_validator sr) (su_ttls su)"

definition some_call_panics :: "('c, 's, 'a) surroundings \<Rightarrow> 'sock relayer_setup \<Rightarrow> bool" where
  "some_call_panics sr su \<longleftrightarrow>
     (case main_auth_config sr su of
        Ok cfg \<Rightarrow> list_ex (call_panics (sr_sdk sr) (sr_chrono sr) (sr_crypto sr) cfg (su_relayer su)) (sr_calls sr)
      | _ \<Rightarrow> False)"

definition block_engine_panics :: "('c, 's, 'a) surroundings \<Rightarrow> 'sock relayer_setup \<Rightarrow> bool" where
  "block_engine_panics sr su \<longleftrightarrow>
     snd (snd (be_handler_new (su_block_engine su) (sr_engine sr) (sr_sessions sr))) = Panic"

text \<open>The configuration that \<open>main\<close> derives from what \<open>startup\<close> set up.\<close>

definition process_config_of :: "('c, 's, 'a) surroundings \<Rightarrow> 'sock relayer_setup \<Rightarrow> proc_config" where
  "process_config_of sr su =
     \<lparr>pc_subscriptions = length (su_servers su),
      pc_tpu = length (transactions_quic_sockets (su_sockets su)),
      pc_forwards = length (transactions_forwards_quic_sockets (su_sockets su)),
      pc_mempool = (\<not> disable_mempool (su_forwarder su)),
      pc_block_engine = (su_block_engine su \<noteq> None),
      pc_lookup = (su_refresher su \<noteq> None),
      pc_batches = (validator_packet_batch_size (su_forwarding su) \<noteq> 0),
      pc_serve = (is_ok (main_auth_config sr su) \<and> sr_binds_grpc sr \<and> sr_signal_handlers sr),
      pc_requests = (\<not> some_call_panics sr su),
      pc_web = sr_binds_web sr,
      pc_sweep = (su_sweep_interval su \<noteq> 0),
      pc_peer = (\<not> block_engine_panics sr su)\<rparr>"

text \<open>The call of \<open>Tpu::new\<close> in \<open>main\<close>.\<close>

definition main_tpu ::
  "('sock, 'rest, 'thread) solana_quic \<Rightarrow> 'sock relayer_setup \<Rightarrow> (('sock, 'rest, 'thread) tpu_unit, unit) result" where
  "main_tpu q su = tpu_new q (su_sockets su) (fst (su_quic_limits su)) (snd (su_quic_limits su)) (su_overrides su)"

end
