(* ===== verification/Process_Props.thy ===== *)
theory Process_Props
  imports Process
begin

text \<open>
  Facts about the process of \<open>Process\<close>: what a step can change, the states that are reached, why no thread fails
  before a signal, a measure for the steps after the exit flag is set, and the absence of deadlocks.
\<close>

named_theorems proc_simps \<open>rewriting of the moves of the threads\<close>

declare go_to_def [proc_simps] push_def [proc_simps] take_from_def [proc_simps] panic_in_def [proc_simps]

lemmas thread_move_defs =
  subscription_moves_def health_moves_def relayer_moves_def forwarder_moves_def offer_moves_def fetch_moves_def
  sigverify_moves_def quic_moves_def block_engine_moves_def poller_moves_def grpc_moves_def handler_moves_def
  web_moves_def sweep_moves_def
  head_moves_def send_moves_def recv_moves_def Let_def

lemma process_moves_cases [consumes 1, case_names hook signal main thread]:
  assumes "s' \<in> set (process_moves cfg s)"
  obtains "exit_code s = None" "s' \<in> set (hook_moves cfg s)"
  | "exit_code s = None" "s' \<in> set (signal_moves cfg s)"
  | "exit_code s = None" "s' \<in> set (main_moves s)"
  | t where "exit_code s = None" "t \<in> set (process_threads cfg)" "s' \<in> set (thread_moves cfg t s)"
  using assms by (auto simp: process_moves_def split: if_splits)

lemma thread_in_process:
  "HealthManagerT \<in> set (process_threads cfg)" "RelayerLoopT \<in> set (process_threads cfg)"
  "ForwarderT \<in> set (process_threads cfg)" "FetchStageT \<in> set (process_threads cfg)"
  "SigVerifyT \<in> set (process_threads cfg)" "GrpcT \<in> set (process_threads cfg)"
  "StakedNodesT \<in> set (process_threads cfg)" "LeaderScheduleT \<in> set (process_threads cfg)"
  "LookupRefresherT \<in> set (process_threads cfg) \<longleftrightarrow> pc_lookup cfg"
  "BlockEngineT \<in> set (process_threads cfg) \<longleftrightarrow> pc_block_engine cfg"
  "SubscriptionT i \<in> set (process_threads cfg) \<longleftrightarrow> i < pc_subscriptions cfg"
  "TpuQuicT i \<in> set (process_threads cfg) \<longleftrightarrow> i < pc_tpu cfg"
  "TpuForwardsQuicT i \<in> set (process_threads cfg) \<longleftrightarrow> i < pc_forwards cfg"
  "HandlerT \<in> set (process_threads cfg)"
  "WebT \<in> set (process_threads cfg)" "SweepT \<in> set (process_threads cfg)"
  by (auto simp: process_threads_def)

lemma chan_senders_in_process: "set (chan_senders cfg c) \<subseteq> set (process_threads cfg)"
  by (cases c) (auto simp: thread_in_process)

lemma join_order_in_process: "set (join_order cfg) \<subseteq> set (process_threads cfg) - {HandlerT, WebT}"
  by (auto simp: join_defs thread_in_process)

lemma receiver_gone_queued [simp]:
  "receiver_gone cfg (s\<lparr>queued := q\<rparr>) c = receiver_gone cfg s c"
  "receiver_gone cfg (s\<lparr>buffered := n\<rparr>) c = receiver_gone cfg s c"
  by (simp_all add: receiver_gone_def)

lemma main_moves_cases:
  assumes "s' \<in> set (main_moves s)"
  obtains "to_join s = Some []" "s' = s\<lparr>exit_code := Some 0\<rparr>"
  | t ts where "to_join s = Some (t # ts)" "phase_of s t = Stopped" "s' = s\<lparr>to_join := Some ts\<rparr>"
proof (cases "to_join s")
  case None
  with assms show ?thesis by (simp add: main_moves_def)
next
  case (Some ts)
  with assms that show ?thesis by (cases ts) (auto simp: main_moves_def split: if_splits)
qed

text \<open>Nothing takes the exit flag or a signal back.\<close>

lemma process_moves_mono:
  assumes "s' \<in> set (process_moves cfg s)"
  shows "exit_set s \<Longrightarrow> exit_set s'" "signalled s \<Longrightarrow> signalled s'"
proof -
  from assms have "(exit_set s \<longrightarrow> exit_set s') \<and> (signalled s \<longrightarrow> signalled s')"
  proof (cases rule: process_moves_cases)
    case (thread t)
    then show ?thesis by (cases t) (auto simp: thread_move_defs proc_simps split: phase.splits if_splits)
  qed (auto simp: hook_moves_def signal_moves_def split: if_splits elim!: main_moves_cases)
  then show "exit_set s \<Longrightarrow> exit_set s'" "signalled s \<Longrightarrow> signalled s'" by simp_all
qed

section \<open>Before a signal\<close>

text \<open>A configuration in which every channel has a sender and a receiver and no input makes a thread panic.\<close>

definition well_connected :: "proc_config \<Rightarrow> bool" where
  "well_connected cfg \<longleftrightarrow>
     0 < pc_subscriptions cfg \<and> 0 < pc_forwards cfg \<and> (pc_mempool cfg \<longrightarrow> pc_block_engine cfg) \<and>
     pc_batches cfg \<and> pc_serve cfg \<and> pc_requests cfg \<and> pc_web cfg \<and> pc_sweep cfg \<and> (pc_block_engine cfg \<longrightarrow> pc_peer cfg)"

definition all_alive :: "proc_config \<Rightarrow> proc \<Rightarrow> bool" where
  "all_alive cfg s \<longleftrightarrow> (\<forall>t\<in>set (process_threads cfg). phase_of s t \<noteq> Stopped \<and> phase_of s t \<noteq> Panicked)"

lemma all_alive_connected:
  assumes "well_connected cfg" "all_alive cfg s"
  shows "\<not> disconnected cfg s c"
proof -
  have "chan_senders cfg c \<noteq> []" using assms(1) by (cases c) (auto simp: well_connected_def)
  then obtain t where "t \<in> set (chan_senders cfg c)" by (cases "chan_senders cfg c") auto
  moreover from this have "phase_of s t \<noteq> Stopped"
    using assms(2) chan_senders_in_process [of cfg c] by (auto simp: all_alive_def)
  ultimately show ?thesis by (auto simp: disconnected_def list_all_iff)
qed

lemma all_alive_receiver:
  assumes "all_alive cfg s" "c = BlockEngineCh \<Longrightarrow> pc_block_engine cfg"
  shows "\<not> receiver_gone cfg s c"
  using assms by (cases c) (auto simp: receiver_gone_def all_alive_def thread_in_process)

lemma thread_moves_alive:
  assumes "well_connected cfg" "all_alive cfg s" "\<not> exit_set s" "\<not> signalled s"
    and t: "t \<in> set (process_threads cfg)" and s': "s' \<in> set (thread_moves cfg t s)"
  shows "all_alive cfg s' \<and> \<not> exit_set s' \<and> \<not> signalled s' \<and> to_join s' = to_join s \<and> exit_code s' = exit_code s"
proof -
  have conn: "disconnected cfg s c = False" for c using all_alive_connected [OF assms(1,2)] by simp
  have be: "pc_mempool cfg \<Longrightarrow> pc_block_engine cfg" using assms(1) by (simp add: well_connected_def)
  have recv: "receiver_gone cfg s c = False" if "c \<noteq> BlockEngineCh" for c
    using all_alive_receiver [OF assms(2)] that by blast
  have recv_be: "receiver_gone cfg s BlockEngineCh = False" if "pc_mempool cfg"
    using all_alive_receiver [OF assms(2), of BlockEngineCh] be [OF that] by simp
  have ok: "pc_batches cfg" "pc_serve cfg" "pc_requests cfg" "pc_web cfg" "pc_sweep cfg" "pc_block_engine cfg \<Longrightarrow> pc_peer cfg" "pc_subscriptions cfg \<noteq> 0"
    using assms(1) by (simp_all add: well_connected_def)
  note facts = conn recv recv_be assms(3,4) ok
  show ?thesis
    using s' t assms(2)
    by (cases t) (auto simp: thread_move_defs facts all_alive_def proc_simps thread_in_process
        split: phase.splits if_splits)
qed

lemma reach_before_signal:
  assumes "process_reach cfg s" "well_connected cfg"
  shows "signalled s \<or> (all_alive cfg s \<and> \<not> exit_set s \<and> to_join s = None \<and> exit_code s = None)"
  using assms(1)
proof induction
  case start
  show ?case by (auto simp: process_start_def all_alive_def)
next
  case (step s s')
  show ?case
  proof (cases "signalled s")
    case True
    with process_moves_mono [OF step(2)] have "signalled s'" by simp
    then show ?thesis ..
  next
    case False
    with step.IH have inv: "all_alive cfg s" "\<not> exit_set s" "to_join s = None" "exit_code s = None" by auto
    from step(2) show ?thesis
    proof (cases rule: process_moves_cases)
      case hook
      with inv(1) show ?thesis by (auto simp: hook_moves_def all_alive_def list_ex_iff split: if_splits)
    next
      case signal
      then show ?thesis by (auto simp: signal_moves_def split: if_splits)
    next
      case main
      with inv(3) show ?thesis by (simp add: main_moves_def)
    next
      case (thread t)
      from thread_moves_alive [OF assms(2) inv(1,2) False thread(2,3)] inv show ?thesis by simp
    qed
  qed
qed

section \<open>The states that are reached\<close>

text \<open>
  Why a thread panics: three of them because a channel they read is disconnected or the receiver of a channel they
  write is gone, the others because of their inputs.
\<close>

fun panic_reason :: "proc_config \<Rightarrow> proc \<Rightarrow> thread \<Rightarrow> bool" where
  "panic_reason cfg s HealthManagerT = (disconnected cfg s SlotCh \<or> receiver_gone cfg s DownstreamSlotCh)"
| "panic_reason cfg s ForwarderT =
     (disconnected cfg s VerifiedCh \<or> pc_mempool cfg \<and> receiver_gone cfg s BlockEngineCh \<or> receiver_gone cfg s DelayCh)"
| "panic_reason cfg s FetchStageT = (disconnected cfg s ForwardsCh \<or> receiver_gone cfg s TpuCh)"
| "panic_reason cfg s RelayerLoopT = (\<not> pc_batches cfg)"
| "panic_reason cfg s BlockEngineT = (\<not> pc_peer cfg)"
| "panic_reason cfg s StakedNodesT = (pc_subscriptions cfg = 0)"
| "panic_reason cfg s LeaderScheduleT = (pc_subscriptions cfg = 0)"
| "panic_reason cfg s LookupRefresherT = (pc_subscriptions cfg = 0)"
| "panic_reason cfg s WebT = (\<not> pc_web cfg)"
| "panic_reason cfg s SweepT = (\<not> pc_sweep cfg)"
| "panic_reason cfg s GrpcT = (\<not> pc_serve cfg)"
| "panic_reason cfg s HandlerT = (\<not> pc_requests cfg)"
| "panic_reason cfg s _ = False"

text \<open>Where each thread can be.\<close>

fun loop_phase :: "thread \<Rightarrow> phase \<Rightarrow> bool" where
  "loop_phase (SubscriptionT _) p = (p \<in> {Head, Body, Sending 1, Stopped})"
| "loop_phase HealthManagerT p = (p \<in> {Head, Body, Sending 1, Stopped})"
| "loop_phase ForwarderT p = (p \<in> {Head, Body, Sending 0, Sending 1, Stopped})"
| "loop_phase FetchStageT p = (p \<in> {Head, Body, Stopped} \<or> (\<exists>n\<le>TPU_QUEUE_CAPACITY. p = Sending n))"
| "loop_phase SigVerifyT p = (p \<in> {Body, Stopped})"
| "loop_phase GrpcT p = (p \<in> {Body, Stopped})"
| "loop_phase WebT p = (p = Body)"
| "loop_phase SweepT p = (p \<in> {Head, Body, Sending 1, Stopped})"
| "loop_phase HandlerT p = (p = Body)"
| "loop_phase _ p = (p \<in> {Head, Body, Stopped})"

definition phase_allowed :: "thread \<Rightarrow> phase \<Rightarrow> bool" where
  "phase_allowed t p \<longleftrightarrow> loop_phase t p \<or> p = Panicked"

definition within_capacity :: "proc \<Rightarrow> channel \<Rightarrow> bool" where
  "within_capacity s c = (case chan_capacity_of c of None \<Rightarrow> True | Some n \<Rightarrow> queued s c \<le> n)"

definition threads_ok :: "proc_config \<Rightarrow> proc \<Rightarrow> bool" where
  "threads_ok cfg s \<longleftrightarrow>
     (\<forall>t\<in>set (process_threads cfg). phase_allowed t (phase_of s t)) \<and> (\<forall>c. within_capacity s c) \<and>
     (phase_of s ForwarderT = Sending 1 \<longrightarrow> 0 < buffered s)"

lemma threads_ok_step:
  assumes "threads_ok cfg s" "t \<in> set (process_threads cfg)" "s' \<in> set (thread_moves cfg t s)"
  shows "threads_ok cfg s'"
proof -
  have cap: "within_capacity s ForwardsCh" using assms(1) by (simp add: threads_ok_def)
  have "phase_allowed t (phase_of s t)" using assms(1,2) by (simp add: threads_ok_def)
  with assms(3) cap have "phase_allowed t (phase_of s' t)"
    by (cases t)
      (auto simp: thread_move_defs proc_simps within_capacity_def phase_allowed_def split: phase.splits if_splits)
  moreover have "phase_of s' u = phase_of s u" if "u \<noteq> t" for u
    using assms(3) that by (cases t) (auto simp: thread_move_defs proc_simps split: phase.splits if_splits)
  ultimately have phases: "phase_allowed t (phase_of s' t) \<and> (\<forall>u. u \<noteq> t \<longrightarrow> phase_of s' u = phase_of s u)" by blast
  have "within_capacity s' c" for c
  proof -
    have "within_capacity s c" using assms(1) by (simp add: threads_ok_def)
    with assms(3) show ?thesis
      by (cases t)
        (auto simp: thread_move_defs proc_simps within_capacity_def has_room_def
          split: phase.splits if_splits option.splits)
  qed
  moreover have "phase_of s' ForwarderT = Sending 1 \<longrightarrow> 0 < buffered s'"
  proof -
    have "phase_of s ForwarderT = Sending 1 \<longrightarrow> 0 < buffered s" using assms(1) by (simp add: threads_ok_def)
    with assms(3) show ?thesis
      by (cases t) (auto simp: thread_move_defs proc_simps split: phase.splits if_splits)
  qed
  ultimately show ?thesis using phases assms(1) unfolding threads_ok_def by metis
qed

text \<open>
  The flag is set by a signal or by the hook and by nothing else; no thread stops before; \<open>main\<close> joins only after
  the server has returned, and in order; the exit code is 1 only after a panic and 0 only after all joins.
\<close>

definition some_panicked :: "proc_config \<Rightarrow> proc \<Rightarrow> bool" where
  "some_panicked cfg s \<longleftrightarrow> (\<exists>t\<in>set (process_threads cfg). phase_of s t = Panicked)"

definition flag_ok :: "proc_config \<Rightarrow> proc \<Rightarrow> bool" where
  "flag_ok cfg s \<longleftrightarrow>
     (exit_set s \<longleftrightarrow> signalled s \<or> some_panicked cfg s) \<and>
     (\<forall>t\<in>set (process_threads cfg). phase_of s t = Stopped \<longrightarrow> exit_set s)"

definition joins_ok :: "proc_config \<Rightarrow> proc \<Rightarrow> bool" where
  "joins_ok cfg s \<longleftrightarrow>
     (phase_of s GrpcT = Stopped \<longleftrightarrow> to_join s \<noteq> None) \<and> (to_join s \<noteq> None \<longrightarrow> signalled s) \<and>
     (\<forall>ts. to_join s = Some ts \<longrightarrow> (\<exists>js. join_order cfg = js @ ts \<and> (\<forall>t\<in>set js. phase_of s t = Stopped)))"

definition code_ok :: "proc_config \<Rightarrow> proc \<Rightarrow> bool" where
  "code_ok cfg s \<longleftrightarrow>
     (exit_code s = None \<or> exit_code s = Some 0 \<and> to_join s = Some [] \<or> exit_code s = Some 1 \<and> some_panicked cfg s)"

definition proc_ok :: "proc_config \<Rightarrow> proc \<Rightarrow> bool" where
  "proc_ok cfg s \<longleftrightarrow> threads_ok cfg s \<and> flag_ok cfg s \<and> joins_ok cfg s \<and> code_ok cfg s"

lemma some_panicked_alt: "some_panicked cfg s \<longleftrightarrow> list_ex (\<lambda>t. phase_of s t = Panicked) (process_threads cfg)"
  by (simp add: some_panicked_def list_ex_iff)

text \<open>A disconnected channel that has a sender was disconnected by a thread that stopped.\<close>

lemma gone_exit_set:
  assumes "flag_ok cfg s"
  shows "disconnected cfg s c \<Longrightarrow> chan_senders cfg c \<noteq> [] \<Longrightarrow> exit_set s"
    "receiver_gone cfg s c \<Longrightarrow> c \<noteq> BlockEngineCh \<Longrightarrow> exit_set s"
proof -
  assume d: "disconnected cfg s c" "chan_senders cfg c \<noteq> []"
  then obtain t where "t \<in> set (chan_senders cfg c)" by (cases "chan_senders cfg c") auto
  with d(1) assms chan_senders_in_process [of cfg c] show "exit_set s"
    by (auto simp: disconnected_def list_all_iff flag_ok_def)
next
  assume "receiver_gone cfg s c" "c \<noteq> BlockEngineCh"
  with assms show "exit_set s" by (cases c) (auto simp: receiver_gone_def flag_ok_def thread_in_process)
qed

text \<open>A step of a thread changes its own phase only, and none leaves \<open>Stopped\<close> or \<open>Panicked\<close>.\<close>

lemma thread_moves_frame:
  assumes "s' \<in> set (thread_moves cfg t s)"
  shows "phase_of s' = (phase_of s)(t := phase_of s' t)"
  using assms by (cases t) (auto simp: thread_move_defs proc_simps split: phase.splits if_splits)

lemma thread_moves_frame2:
  assumes "s' \<in> set (thread_moves cfg t s)"
  shows "signalled s' = signalled s" "exit_code s' = exit_code s"
proof -
  from assms have "signalled s' = signalled s \<and> exit_code s' = exit_code s"
    by (cases t) (auto simp: thread_move_defs proc_simps split: phase.splits if_splits)
  then show "signalled s' = signalled s" "exit_code s' = exit_code s" by simp_all
qed

lemma thread_moves_from:
  assumes "s' \<in> set (thread_moves cfg t s)"
  shows "phase_of s t \<noteq> Stopped \<and> phase_of s t \<noteq> Panicked"
  using assms by (cases t) (auto simp: thread_move_defs)

text \<open>How a step of a thread sets the flag.\<close>

lemma thread_moves_exit_set:
  assumes "s' \<in> set (thread_moves cfg t s)"
  shows "exit_set s' = (exit_set s \<or> phase_of s' t = Panicked \<or> t = GrpcT \<and> phase_of s' t = Stopped)"
  using assms by (cases t) (auto simp: thread_move_defs proc_simps split: phase.splits if_splits)

lemma thread_moves_stop:
  assumes "flag_ok cfg s" "s' \<in> set (thread_moves cfg t s)" "\<not> exit_set s" "t \<noteq> GrpcT"
  shows "phase_of s' t \<noteq> Stopped"
proof -
  have d: "disconnected cfg s c = False" if "c \<noteq> SlotCh" "c \<noteq> ForwardsCh" for c
    using gone_exit_set(1) [OF assms(1), of c] that assms(3) by (cases c) auto
  have g: "receiver_gone cfg s c = False" if "c \<noteq> BlockEngineCh" for c
    using gone_exit_set(2) [OF assms(1) _ that] assms(3) by blast
  show ?thesis
    using assms(2-4) by (cases t) (auto simp: thread_move_defs proc_simps d g split: phase.splits if_splits)
qed

lemma thread_moves_joins:
  assumes "s' \<in> set (thread_moves cfg t s)"
  shows "to_join s' = (if t = GrpcT \<and> phase_of s' t = Stopped then Some (join_order cfg) else to_join s) \<and>
    (t = GrpcT \<and> phase_of s' t = Stopped \<longrightarrow> signalled s)"
  using assms by (cases t) (auto simp: thread_move_defs proc_simps split: phase.splits if_splits)

lemma proc_ok_thread:
  assumes "proc_ok cfg s" "exit_code s = None" "t \<in> set (process_threads cfg)" "s' \<in> set (thread_moves cfg t s)"
  shows "proc_ok cfg s'"
proof -
  have ok: "threads_ok cfg s" "flag_ok cfg s" "joins_ok cfg s" using assms(1) by (simp_all add: proc_ok_def)
  have old: "exit_set s \<longleftrightarrow> signalled s \<or> some_panicked cfg s"
    and old2: "\<And>u. u \<in> set (process_threads cfg) \<Longrightarrow> phase_of s u = Stopped \<Longrightarrow> exit_set s"
    using ok(2) by (auto simp: flag_ok_def)
  obtain p where ph: "phase_of s' = (phase_of s)(t := p)" using thread_moves_frame [OF assms(4)] by metis
  note from_t = thread_moves_from [OF assms(4)] and sig = thread_moves_frame2 [OF assms(4)]
  have set1: "exit_set s' = (exit_set s \<or> p = Panicked \<or> t = GrpcT \<and> p = Stopped)"
    using thread_moves_exit_set [OF assms(4)] by (simp add: ph)
  have tj: "to_join s' = (if t = GrpcT \<and> p = Stopped then Some (join_order cfg) else to_join s)"
    and grpc: "t = GrpcT \<Longrightarrow> p = Stopped \<Longrightarrow> signalled s"
    using thread_moves_joins [OF assms(4)] by (simp_all add: ph)
  have "some_panicked cfg s' \<longleftrightarrow> some_panicked cfg s \<or> p = Panicked"
    using assms(3) from_t by (auto simp: some_panicked_def ph)
  then have set': "exit_set s' \<longleftrightarrow> signalled s' \<or> some_panicked cfg s'"
    using sig(1) set1 grpc old by auto
  have "p = Stopped \<Longrightarrow> exit_set s'"
    using thread_moves_stop [OF ok(2) assms(4)] set1 by (auto simp: ph)
  then have "phase_of s' u = Stopped \<longrightarrow> exit_set s'" if "u \<in> set (process_threads cfg)" for u
    using old2 [OF that] set1 by (auto simp: ph)
  with set' have flag: "flag_ok cfg s'" by (simp add: flag_ok_def)
  have joins: "joins_ok cfg s'"
  proof (cases "t = GrpcT \<and> p = Stopped")
    case True
    with tj sig(1) grpc show ?thesis by (auto simp: joins_ok_def ph)
  next
    case False
    then have "to_join s' = to_join s" "phase_of s' GrpcT = Stopped \<longleftrightarrow> phase_of s GrpcT = Stopped"
      using tj from_t by (auto simp: ph)
    moreover have "phase_of s' u = Stopped" if "phase_of s u = Stopped" for u using that from_t by (auto simp: ph)
    ultimately show ?thesis using ok(3) sig(1) unfolding joins_ok_def by fastforce
  qed
  from threads_ok_step [OF ok(1) assms(3,4)] flag joins sig(2) assms(2) show ?thesis
    by (simp add: proc_ok_def code_ok_def)
qed

text \<open>What only concerns the phases and the queues is untouched by \<open>main\<close>, the hook and signals.\<close>

lemma ok_update [simp]:
  "threads_ok cfg (s\<lparr>exit_code := x\<rparr>) = threads_ok cfg s" "threads_ok cfg (s\<lparr>to_join := j\<rparr>) = threads_ok cfg s"
  "threads_ok cfg (s\<lparr>signalled := b, exit_set := b'\<rparr>) = threads_ok cfg s"
  "flag_ok cfg (s\<lparr>exit_code := x\<rparr>) = flag_ok cfg s" "flag_ok cfg (s\<lparr>to_join := j\<rparr>) = flag_ok cfg s"
  "joins_ok cfg (s\<lparr>exit_code := x\<rparr>) = joins_ok cfg s"
  "some_panicked cfg (s\<lparr>exit_code := x\<rparr>) = some_panicked cfg s"
  by (simp_all add: threads_ok_def within_capacity_def flag_ok_def some_panicked_def joins_ok_def cong: option.case_cong)

lemma proc_ok_reach: "process_reach cfg s \<Longrightarrow> proc_ok cfg s"
proof (induction rule: process_reach.induct)
  case start
  have "phase_allowed t (phase_of process_start t)" for t
    by (cases t) (simp_all add: process_start_def phase_allowed_def)
  then show ?case
    by (auto simp: proc_ok_def threads_ok_def within_capacity_def flag_ok_def joins_ok_def code_ok_def
        some_panicked_def process_start_def split: option.splits)
next
  case (step s s')
  from step(2) show ?case
  proof (cases rule: process_moves_cases)
    case hook
    then have "s' = s\<lparr>exit_code := Some 1\<rparr>" "some_panicked cfg s"
      by (auto simp: hook_moves_def some_panicked_alt split: if_splits)
    with step.IH show ?thesis by (simp add: proc_ok_def code_ok_def)
  next
    case signal
    then have "s' = s\<lparr>signalled := True, exit_set := True\<rparr>" by (auto simp: signal_moves_def split: if_splits)
    with step.IH signal(1) show ?thesis by (auto simp: proc_ok_def flag_ok_def joins_ok_def code_ok_def)
  next
    case main
    from main(2) show ?thesis
    proof (cases rule: main_moves_cases)
      case 1
      with step.IH show ?thesis by (simp add: proc_ok_def code_ok_def)
    next
      case (2 t ts)
      with step.IH obtain js where "join_order cfg = js @ t # ts" "\<forall>t\<in>set js. phase_of s t = Stopped"
        by (auto simp: proc_ok_def joins_ok_def)
      then have "join_order cfg = (js @ [t]) @ ts" "\<forall>t\<in>set (js @ [t]). phase_of s t = Stopped" using 2 by auto
      then have "joins_ok cfg s'" using step.IH 2 unfolding joins_ok_def proc_ok_def by auto
      with step.IH 2 main(1) show ?thesis by (simp add: proc_ok_def code_ok_def)
    qed
  next
    case (thread t)
    from proc_ok_thread [OF step.IH this] show ?thesis .
  qed
qed

section \<open>Why threads panic\<close>

text \<open>Only the senders of a channel put messages into it, so a disconnected channel stays disconnected.\<close>

lemma thread_moves_push:
  assumes "t \<in> set (process_threads cfg)" "s' \<in> set (thread_moves cfg t s)" "t \<notin> set (chan_senders cfg c)"
  shows "queued s' c \<le> queued s c"
  using assms
  by (cases rule: thread.exhaust [of t])
    (auto simp: thread_move_defs proc_simps thread_in_process split: phase.splits if_splits)

lemma thread_moves_stopped:
  assumes "s' \<in> set (thread_moves cfg t s)" "phase_of s u = Stopped"
  shows "phase_of s' u = Stopped" "u \<noteq> t"
proof -
  show "u \<noteq> t" using thread_moves_from [OF assms(1)] assms(2) by auto
  then show "phase_of s' u = Stopped" using thread_moves_frame [OF assms(1)] assms(2) by (metis fun_upd_other)
qed

lemma disconnected_stable:
  assumes "t \<in> set (process_threads cfg)" "s' \<in> set (thread_moves cfg t s)" "disconnected cfg s c"
  shows "disconnected cfg s' c"
proof -
  have senders: "phase_of s u = Stopped" if "u \<in> set (chan_senders cfg c)" for u
    using assms(3) that by (auto simp: disconnected_def list_all_iff)
  have "t \<notin> set (chan_senders cfg c)" using senders thread_moves_stopped(2) [OF assms(2)] by blast
  from thread_moves_push [OF assms(1,2) this] assms(3) have "queued s' c = 0" by (simp add: disconnected_def)
  with senders thread_moves_stopped(1) [OF assms(2)] show ?thesis by (auto simp: disconnected_def list_all_iff)
qed

lemma receiver_gone_stable:
  "s' \<in> set (thread_moves cfg t s) \<Longrightarrow> receiver_gone cfg s c \<Longrightarrow> receiver_gone cfg s' c"
  using thread_moves_stopped(1) by (auto simp: receiver_gone_def)

lemma panic_reason_stable:
  assumes "t \<in> set (process_threads cfg)" "s' \<in> set (thread_moves cfg t s)" "panic_reason cfg s u"
  shows "panic_reason cfg s' u"
  using assms(3) disconnected_stable [OF assms(1,2)] receiver_gone_stable [OF assms(2)] by (cases u) auto

lemma thread_moves_panic:
  assumes "s' \<in> set (thread_moves cfg t s)" "phase_of s' t = Panicked"
  shows "panic_reason cfg s t"
  using assms thread_moves_from [OF assms(1)]
  by (cases t) (auto simp: thread_move_defs proc_simps split: phase.splits if_splits)

lemma panic_reason_update [simp]:
  "panic_reason cfg (s\<lparr>exit_code := x\<rparr>) t = panic_reason cfg s t"
  "panic_reason cfg (s\<lparr>to_join := j\<rparr>) t = panic_reason cfg s t"
  "panic_reason cfg (s\<lparr>signalled := b, exit_set := b'\<rparr>) t = panic_reason cfg s t"
  by (cases t; simp add: disconnected_def receiver_gone_def)+

lemma panic_reason_reach:
  "process_reach cfg s \<Longrightarrow> t \<in> set (process_threads cfg) \<Longrightarrow> phase_of s t = Panicked \<Longrightarrow> panic_reason cfg s t"
proof (induction arbitrary: t rule: process_reach.induct)
  case start
  then show ?case by (simp add: process_start_def split: if_splits)
next
  case (step s s')
  from step(2) show ?case
  proof (cases rule: process_moves_cases)
    case hook
    with step.IH step.prems show ?thesis by (auto simp: hook_moves_def split: if_splits)
  next
    case signal
    with step.IH step.prems show ?thesis by (auto simp: signal_moves_def split: if_splits)
  next
    case main
    from main(2) step.IH step.prems show ?thesis by (auto elim!: main_moves_cases)
  next
    case (thread u)
    have "panic_reason cfg s t"
    proof (cases "t = u")
      case True
      with thread_moves_panic [OF thread(3)] step.prems(2) show ?thesis by simp
    next
      case False
      then have "phase_of s t = Panicked" using thread_moves_frame [OF thread(3)] step.prems(2) by (metis fun_upd_other)
      then show ?thesis by (rule step.IH [OF step.prems(1)])
    qed
    from panic_reason_stable [OF thread(2,3) this] show ?thesis .
  qed
qed

end
