(* ===== verification/Process_Shutdown.thy ===== *)
theory Process_Shutdown
  imports Process_Props
begin

text \<open>
  What happens once the exit flag is set: every step brings the process closer to its end, some step is always
  possible, and a process that was idle ends with code 1.
\<close>

section \<open>Every step counts\<close>

text \<open>
  The number of steps a thread can still take before it stops, where a message counts for what its receiver
  and those after it will do with it.
\<close>

fun body_weight :: "thread \<Rightarrow> nat" where
  "body_weight (TpuQuicT i) = 6"
| "body_weight (TpuForwardsQuicT i) = 6"
| "body_weight ForwarderT = 4"
| "body_weight SigVerifyT = 1"
| "body_weight GrpcT = 1"
| "body_weight _ = 3"

fun sending_weight :: "thread \<Rightarrow> nat \<Rightarrow> nat" where
  "sending_weight FetchStageT n = 2 + 4 * n"
| "sending_weight ForwarderT n = (if n = 0 then 3 else 2)"
| "sending_weight _ n = 2"

fun thread_weight :: "thread \<Rightarrow> phase \<Rightarrow> nat" where
  "thread_weight t Stopped = 0"
| "thread_weight t Panicked = 0"
| "thread_weight t Head = 1"
| "thread_weight t (Sending n) = sending_weight t n"
| "thread_weight t Body = body_weight t"

definition queue_weight :: "proc \<Rightarrow> nat" where
  "queue_weight s =
     4 * queued s ForwardsCh + 3 * queued s TpuCh + 2 * queued s VerifiedCh + 2 * buffered s
     + (SLOT_QUEUE_CAPACITY - queued s SubscriptionCh)"

definition main_weight :: "proc_config \<Rightarrow> proc \<Rightarrow> nat" where
  "main_weight cfg s =
     (if exit_code s = None then 1 else 0) + (if signalled s then 0 else 1)
     + (case to_join s of None \<Rightarrow> length (join_order cfg) + 1 | Some ts \<Rightarrow> length ts)"

definition process_weight :: "proc_config \<Rightarrow> proc \<Rightarrow> nat" where
  "process_weight cfg s =
     (\<Sum>t\<in>set (process_threads cfg). thread_weight t (phase_of s t)) + queue_weight s + main_weight cfg s"

lemma sum_thread_weight_update:
  assumes "t \<in> set (process_threads cfg)"
  shows "(\<Sum>u\<in>set (process_threads cfg). thread_weight u ((ph(t := p)) u)) + thread_weight t (ph t) =
    (\<Sum>u\<in>set (process_threads cfg). thread_weight u (ph u)) + thread_weight t p"
proof -
  let ?T = "set (process_threads cfg)"
  have "(\<Sum>u\<in>?T. thread_weight u ((ph(t := p)) u)) = thread_weight t p + (\<Sum>u\<in>?T - {t}. thread_weight u (ph u))"
    using assms by (subst sum.remove [of _ t]) (auto intro!: sum.cong)
  moreover have "(\<Sum>u\<in>?T. thread_weight u (ph u)) = thread_weight t (ph t) + (\<Sum>u\<in>?T - {t}. thread_weight u (ph u))"
    using assms by (subst sum.remove [of _ t]) auto
  ultimately show ?thesis by simp
qed

lemma thread_moves_weight:
  assumes "s' \<in> set (thread_moves cfg t s)" "exit_set s" "threads_ok cfg s" "t \<in> set (process_threads cfg)" "t \<noteq> GrpcT"
  shows "thread_weight t (phase_of s' t) + queue_weight s' < thread_weight t (phase_of s t) + queue_weight s"
proof -
  have ph: "phase_allowed t (phase_of s t)" using assms(3,4) by (simp add: threads_ok_def)
  have buf: "phase_of s ForwarderT = Sending 1 \<Longrightarrow> 0 < buffered s" using assms(3) by (simp add: threads_ok_def)
  note defs = thread_move_defs proc_simps queue_weight_def has_room_def assms(2) phase_allowed_def
  show ?thesis
    using assms(1,5) ph buf by (cases t) (auto simp: defs split: phase.splits if_splits)
qed

lemma grpc_moves_weight:
  assumes "s' \<in> set (thread_moves cfg GrpcT s)" "to_join s = None"
  shows "thread_weight GrpcT (phase_of s' GrpcT) + queue_weight s' + main_weight cfg s'
    < thread_weight GrpcT (phase_of s GrpcT) + queue_weight s + main_weight cfg s"
proof -
  have "phase_of s GrpcT = Body" using assms(1) by (auto simp: grpc_moves_def split: phase.splits)
  with assms show ?thesis
    by (auto simp: grpc_moves_def proc_simps queue_weight_def main_weight_def has_room_def split: if_splits)
qed

lemma process_moves_weight:
  assumes "proc_ok cfg s" "exit_set s" "s' \<in> set (process_moves cfg s)"
  shows "process_weight cfg s' < process_weight cfg s"
  using assms(3)
proof (cases rule: process_moves_cases)
  case hook
  then have "s' = s\<lparr>exit_code := Some 1\<rparr>" by (auto simp: hook_moves_def split: if_splits)
  with hook(1) show ?thesis by (simp add: process_weight_def queue_weight_def main_weight_def)
next
  case signal
  then have "s' = s\<lparr>signalled := True, exit_set := True\<rparr>" "\<not> signalled s"
    by (auto simp: signal_moves_def split: if_splits)
  then show ?thesis by (simp add: process_weight_def queue_weight_def main_weight_def)
next
  case main
  from main(2) show ?thesis
  proof (cases rule: main_moves_cases)
    case 1
    with main(1) show ?thesis by (simp add: process_weight_def queue_weight_def main_weight_def)
  next
    case (2 t ts)
    then show ?thesis by (simp add: process_weight_def queue_weight_def main_weight_def)
  qed
next
  case (thread t)
  have ok: "threads_ok cfg s" "joins_ok cfg s" using assms(1) by (simp_all add: proc_ok_def)
  have "thread_weight t (phase_of s' t) + queue_weight s' + main_weight cfg s'
    < thread_weight t (phase_of s t) + queue_weight s + main_weight cfg s"
  proof (cases "t = GrpcT")
    case True
    have "to_join s = None" using thread_moves_from [OF thread(3)] True ok(2) by (auto simp: joins_ok_def)
    with thread(3) True show ?thesis using grpc_moves_weight by blast
  next
    case False
    then have "main_weight cfg s' = main_weight cfg s"
      using thread_moves_frame2 [OF thread(3)] thread_moves_joins [OF thread(3)] by (simp add: main_weight_def)
    with thread_moves_weight [OF thread(3) assms(2) ok(1) thread(2) False] show ?thesis by simp
  qed
  moreover have "(\<Sum>u\<in>set (process_threads cfg). thread_weight u (phase_of s' u)) + thread_weight t (phase_of s t) =
      (\<Sum>u\<in>set (process_threads cfg). thread_weight u (phase_of s u)) + thread_weight t (phase_of s' t)"
    using sum_thread_weight_update [OF thread(2), of "phase_of s" "phase_of s' t"] thread_moves_frame [OF thread(3)]
    by simp
  ultimately show ?thesis by (simp add: process_weight_def)
qed

section \<open>There is always a step\<close>

text \<open>Threads that never wait for another thread.\<close>

lemma independent_stopped:
  assumes "thread_moves cfg t s = []" "loop_phase t (phase_of s t)"
    "t \<in> {RelayerLoopT, BlockEngineT, StakedNodesT, LeaderScheduleT, LookupRefresherT, SweepT} \<union> range TpuQuicT \<union> range TpuForwardsQuicT"
  shows "phase_of s t = Stopped"
  using assms by (auto simp: thread_move_defs)

lemma stuck_all_stopped:
  assumes ok: "proc_ok cfg s" and np: "\<not> some_panicked cfg s" and sig: "signalled s"
    and all_stuck: "\<forall>t\<in>set (process_threads cfg). thread_moves cfg t s = []"
    and t: "t \<in> set (process_threads cfg)" "t \<noteq> HandlerT" "t \<noteq> WebT"
  shows "phase_of s t = Stopped"
proof -
  have al: "loop_phase u (phase_of s u)" "phase_of s u \<noteq> Panicked" if "u \<in> set (process_threads cfg)" for u
    using ok np that by (auto simp: proc_ok_def threads_ok_def some_panicked_def phase_allowed_def)
  have stuck: "thread_moves cfg u s = []" if "u \<in> set (process_threads cfg)" for u using all_stuck that by blast
  note in_p = thread_in_process
  note ind = independent_stopped [OF stuck al(1)]
  have relayer: "phase_of s RelayerLoopT = Stopped" by (rule ind) (simp_all add: in_p)
  have health: "phase_of s HealthManagerT = Stopped"
    using stuck [OF in_p(1)] al [OF in_p(1)] relayer by (auto simp: thread_move_defs receiver_gone_def)
  have subs: "phase_of s (SubscriptionT i) = Stopped" if "i < pc_subscriptions cfg" for i
    using stuck [of "SubscriptionT i"] al [of "SubscriptionT i"] health that
    by (auto simp: in_p thread_move_defs receiver_gone_def)
  have forwarder: "phase_of s ForwarderT = Stopped"
    using stuck [OF in_p(3)] al [OF in_p(3)] relayer by (auto simp: thread_move_defs receiver_gone_def)
  have quic: "phase_of s (TpuQuicT i) = Stopped" if "i < pc_tpu cfg" for i
    by (rule ind) (use that in \<open>simp_all add: in_p\<close>)
  have fwd_quic: "phase_of s (TpuForwardsQuicT i) = Stopped" if "i < pc_forwards cfg" for i
    by (rule ind) (use that in \<open>simp_all add: in_p\<close>)
  have sv: "phase_of s SigVerifyT = Stopped \<or> phase_of s SigVerifyT = Body \<and> queued s TpuCh = 0"
    using stuck [OF in_p(5)] al [OF in_p(5)] by (auto simp: thread_move_defs split: if_splits)
  have fetch: "phase_of s FetchStageT = Stopped"
  proof -
    have "phase_of s FetchStageT \<noteq> Body"
    proof
      assume body: "phase_of s FetchStageT = Body"
      with stuck [OF in_p(4)] have "queued s ForwardsCh = 0" by (auto simp: thread_move_defs split: if_splits)
      then have "disconnected cfg s ForwardsCh" using fwd_quic by (auto simp: disconnected_def list_all_iff)
      with stuck [OF in_p(4)] body \<open>queued s ForwardsCh = 0\<close> show False by (simp add: thread_move_defs)
    qed
    moreover have "phase_of s FetchStageT \<noteq> Sending n" for n
      using stuck [OF in_p(4)] sv
      by (auto simp: thread_move_defs receiver_gone_def has_room_def TPU_QUEUE_CAPACITY_def split: if_splits)
    moreover have "phase_of s FetchStageT \<noteq> Head" using stuck [OF in_p(4)] by (auto simp: thread_move_defs)
    ultimately show ?thesis using al [OF in_p(4)] by (cases "phase_of s FetchStageT") auto
  qed
  have sigverify: "phase_of s SigVerifyT = Stopped"
  proof (rule ccontr)
    assume "phase_of s SigVerifyT \<noteq> Stopped"
    with sv have "phase_of s SigVerifyT = Body" "queued s TpuCh = 0" by auto
    moreover from this have "disconnected cfg s TpuCh"
      using quic fetch by (auto simp: disconnected_def list_all_iff)
    ultimately show False using stuck [OF in_p(5)] by (simp add: thread_move_defs)
  qed
  have grpc: "phase_of s GrpcT = Stopped"
    using stuck [OF in_p(6)] al [OF in_p(6)] sig by (auto simp: thread_move_defs split: if_splits)
  show ?thesis
    using t relayer health subs forwarder quic fwd_quic fetch sigverify grpc ind [of t]
    by (cases rule: thread.exhaust [of t]) (auto simp: in_p)
qed

lemma process_not_stuck:
  assumes ok: "proc_ok cfg s" and "exit_set s" "process_moves cfg s = []"
  shows "exit_code s \<noteq> None"
proof
  assume none: "exit_code s = None"
  with assms(3) have h: "hook_moves cfg s = []" "main_moves s = []"
    "\<forall>t\<in>set (process_threads cfg). thread_moves cfg t s = []"
    by (auto simp: process_moves_def)
  then have np: "\<not> some_panicked cfg s" by (auto simp: hook_moves_def some_panicked_alt split: if_splits)
  with ok assms(2) have sig: "signalled s" by (auto simp: proc_ok_def flag_ok_def)
  note all = stuck_all_stopped [OF ok np sig h(3)]
  from all [of GrpcT] thread_in_process(6) ok obtain ts where ts: "to_join s = Some ts"
    by (auto simp: proc_ok_def joins_ok_def)
  with ok obtain js where "join_order cfg = js @ ts" by (auto simp: proc_ok_def joins_ok_def)
  then have "set ts \<subseteq> set (process_threads cfg) - {HandlerT, WebT}" using join_order_in_process [of cfg] by auto
  with all have "\<forall>t\<in>set ts. phase_of s t = Stopped" by blast
  with h(2) ts show False by (cases ts) (auto simp: main_moves_def)
qed

text \<open>Runs of the process, as lists of states.\<close>

fun process_run :: "proc_config \<Rightarrow> proc \<Rightarrow> proc list \<Rightarrow> bool" where
  "process_run cfg s [] \<longleftrightarrow> True"
| "process_run cfg s (s' # ss) \<longleftrightarrow> s' \<in> set (process_moves cfg s) \<and> process_run cfg s' ss"

lemma process_run_reach: "process_run cfg s ss \<Longrightarrow> process_reach cfg s \<Longrightarrow> process_reach cfg (last (s # ss))"
proof (induction ss arbitrary: s)
  case (Cons s' ss)
  then have "process_reach cfg s'" by (auto intro: process_reach.step)
  with Cons show ?case by simp
qed simp

lemma process_run_bounded:
  "process_run cfg s ss \<Longrightarrow> process_reach cfg s \<Longrightarrow> exit_set s \<Longrightarrow> length ss + process_weight cfg (last (s # ss)) \<le> process_weight cfg s"
proof (induction ss arbitrary: s)
  case (Cons s' ss)
  then have step: "s' \<in> set (process_moves cfg s)" "process_run cfg s' ss" by auto
  have "process_weight cfg s' < process_weight cfg s"
    by (rule process_moves_weight [OF proc_ok_reach [OF Cons.prems(2)] Cons.prems(3) step(1)])
  moreover have "length ss + process_weight cfg (last (s' # ss)) \<le> process_weight cfg s'"
    by (rule Cons.IH [OF step(2) process_reach.step [OF Cons.prems(2) step(1)] process_moves_mono(1) [OF step(1) Cons.prems(3)]])
  ultimately show ?case by (simp split: if_splits)
qed simp

lemma process_run_exit_set: "process_run cfg s ss \<Longrightarrow> exit_set s \<Longrightarrow> exit_set (last (s # ss))"
proof (induction ss arbitrary: s)
  case (Cons s' ss)
  then have "exit_set s'" using process_moves_mono(1) by auto
  with Cons show ?case by simp
qed simp

lemma process_run_to_end:
  "process_reach cfg s \<Longrightarrow> exit_set s \<Longrightarrow> \<exists>ss. process_run cfg s ss \<and> exit_code (last (s # ss)) \<noteq> None"
proof (induction "process_weight cfg s" arbitrary: s rule: less_induct)
  case less
  show ?case
  proof (cases "process_moves cfg s")
    case Nil
    with process_not_stuck [OF proc_ok_reach [OF less.prems(1)] less.prems(2)] show ?thesis
      by (intro exI [of _ "[]"]) simp
  next
    case (Cons s' _)
    then have step: "s' \<in> set (process_moves cfg s)" by simp
    from less.hyps [OF process_moves_weight [OF proc_ok_reach [OF less.prems(1)] less.prems(2) step]
        process_reach.step [OF less.prems(1) step] process_moves_mono(1) [OF step less.prems(2)]]
    obtain ss where "process_run cfg s' ss" "exit_code (last (s' # ss)) \<noteq> None" by blast
    with step show ?thesis by (intro exI [of _ "s' # ss"]) simp
  qed
qed

section \<open>An idle process\<close>

text \<open>
  The fetch stage waits for a forwarded batch, none is queued, and none is on its way: every forward server
  is about to read the flag.
\<close>

definition idle_fetch :: "proc_config \<Rightarrow> proc \<Rightarrow> bool" where
  "idle_fetch cfg s \<longleftrightarrow>
     queued s ForwardsCh = 0 \<and> phase_of s FetchStageT \<in> {Body, Panicked} \<and>
     (\<forall>i<pc_forwards cfg. phase_of s (TpuForwardsQuicT i) \<in> {Head, Stopped})"

lemma thread_moves_idle:
  assumes "idle_fetch cfg s" "exit_set s" "t \<in> set (process_threads cfg)" "s' \<in> set (thread_moves cfg t s)"
  shows "idle_fetch cfg s'"
proof -
  have "queued s' ForwardsCh = 0 \<and> (t = FetchStageT \<longrightarrow> phase_of s' t = Panicked) \<and>
      (\<forall>i. t = TpuForwardsQuicT i \<longrightarrow> phase_of s' t = Stopped)"
    using assms by (cases t) (auto simp: thread_move_defs proc_simps idle_fetch_def thread_in_process
      split: phase.splits if_splits)
  moreover have "phase_of s' u = phase_of s u" if "u \<noteq> t" for u
    using thread_moves_frame [OF assms(4)] that by (metis fun_upd_other)
  ultimately show ?thesis using assms(1) unfolding idle_fetch_def by (metis insertCI)
qed

text \<open>\<open>main\<close> joins the fetch stage first, so it never gets past it.\<close>

lemma idle_fetch_run:
  assumes "process_run cfg s ss" "process_reach cfg s" "idle_fetch cfg s" "exit_set s" "exit_code s \<noteq> Some 0"
  shows "idle_fetch cfg (last (s # ss)) \<and> exit_code (last (s # ss)) \<noteq> Some 0"
  using assms
proof (induction ss arbitrary: s)
  case (Cons s' ss)
  then have step: "s' \<in> set (process_moves cfg s)" "process_run cfg s' ss" by auto
  have joins: "joins_ok cfg s" using proc_ok_reach [OF Cons.prems(2)] by (simp add: proc_ok_def)
  from step(1) have "idle_fetch cfg s' \<and> exit_code s' \<noteq> Some 0"
  proof (cases rule: process_moves_cases)
    case hook
    with Cons.prems(3) show ?thesis by (auto simp: hook_moves_def idle_fetch_def split: if_splits)
  next
    case signal
    with Cons.prems(3) show ?thesis by (auto simp: signal_moves_def idle_fetch_def split: if_splits)
  next
    case main
    have "to_join s \<noteq> Some []"
    proof
      assume "to_join s = Some []"
      with joins have "\<forall>t\<in>set (join_order cfg). phase_of s t = Stopped" by (auto simp: joins_ok_def)
      with Cons.prems(3) show False by (auto simp: join_defs idle_fetch_def)
    qed
    with main Cons.prems(3) show ?thesis by (auto simp: idle_fetch_def elim!: main_moves_cases)
  next
    case (thread t)
    with thread_moves_idle [OF Cons.prems(3,4) thread(2,3)] thread_moves_frame2 [OF thread(3)] show ?thesis by simp
  qed
  with Cons.IH [OF step(2) process_reach.step [OF Cons.prems(2) step(1)]] process_moves_mono(1) [OF step(1) Cons.prems(4)]
  show ?case by simp
qed simp

end
