(* ===== verification/Process_Theorems.thy ===== *)
theory Process_Theorems
  imports Process_Shutdown Startup_Theorems Auth_Instances Block_Engine_Theorems
begin

text \<open>
  The properties of the process: what it takes for the relayer to die by itself, that shutting it down always
  comes to an end, and how an idle relayer ends.
\<close>

section \<open>The threads and the components\<close>

text \<open>
  Where a thread of the process panics or stops, the iteration of its component does: a receive on a
  disconnected channel, a send whose receiver is gone, a batch size of 0, no server to poll, no port to announce.
\<close>

lemma component_outcomes:
  "health_step thr h (SlotRecv (Err e) sent now, n) = Panic"
  "health_step thr h (SlotRecv (Ok sl) False now, n) = Panic"
  "fe_arrived fenv = [] \<Longrightarrow> fetch_queue f = [] \<Longrightarrow> fetch_step send f fenv = Panic"
  "fe_recv env = RecvDisconnected \<Longrightarrow> forwarder_iteration bops cfg tid env sh t = Panic"
  "fe_recv env = Received batch \<Longrightarrow> \<not> disable_mempool cfg \<Longrightarrow>
     fst (try_send bops (forwarder_shared.be_sender sh) \<lparr>bep_batch = batch, bep_stamp = fe_system_time env,
       bep_expiration = packet_delay_ms cfg\<rparr>) = SendClosed \<Longrightarrow>
     forwarder_iteration bops cfg tid env sh t = Panic"
  "packet_delay cfg \<le> elapsed (fe_clock env i) (rpb_stamp b) \<Longrightarrow> \<not> fe_relayer_alive env i \<Longrightarrow>
     drain_delayed cfg env i (b # bs) m = Panic"
  "relayer_step k rops lcfg s (SlotArm (Err e), lenv) = Err Shutdown"
  "relayer_step k rops lcfg s (DelayPacketArm (Err e), lenv) = Err Shutdown"
  "relayer_step k rops lcfg s (SubscriptionArm (Err e), lenv) = Err Shutdown"
  "validator_packet_batch_size (fwd_config lcfg) = 0 \<Longrightarrow>
     relayer_step k rops lcfg s (DelayPacketArm (Ok batches), lenv) = Panic"
  "rpc_client [] clients = Panic"
  "snd (get_tpu_configs k r) = Panic \<longleftrightarrow> tpu_quic_ports r = [] \<or> tpu_fwd_quic_ports r = []"
  by (auto simp: health_step_def health_arm_step_def fetch_step_def handle_forwarded_packets_def
      forwarder_iteration_def receive_batch_def offer_to_block_engine_def relayer_step_def slot_arm_def
      update_highest_slot_def delay_packet_arm_def forward_packets_def subscription_arm_def handle_subscription_def
      rpc_client_def get_highest_slot_def get_tpu_configs_def pick_port_def split: prod.splits)

text \<open>The two queues of the TPU have as many senders as \<open>Tpu::new\<close> leaves alive.\<close>

lemma chan_senders_of_tpu:
  assumes "main_tpu q su = Ok u"
  shows "length (chan_senders (process_config_of sr su) TpuCh) = live_senders u TpuQueue"
    "length (chan_senders (process_config_of sr su) ForwardsCh) = live_senders u TpuForwardsQueue"
  by (simp_all add: process_config_of_def tpu_new_live_senders [OF assms [unfolded main_tpu_def]])

section \<open>Dying without a signal\<close>

lemma process_thread_step:
  assumes "process_reach cfg s" "exit_code s = None" "t \<in> set (process_threads cfg)" "s' \<in> set (thread_moves cfg t s)"
  shows "process_reach cfg s'"
  by (rule process_reach.step [OF assms(1)]) (use assms(2-4) in \<open>auto simp: process_moves_def\<close>)

lemma process_hook_step:
  assumes "process_reach cfg s" "exit_code s = None" "t \<in> set (process_threads cfg)" "phase_of s t = Panicked"
  shows "process_reach cfg (s\<lparr>exit_code := Some 1\<rparr>)"
  by (rule process_reach.step [OF assms(1)])
    (use assms(2-4) in \<open>auto simp: process_moves_def hook_moves_def list_ex_iff\<close>)

lemmas start_simps = process_start_def thread_move_defs proc_simps receiver_gone_def has_room_def disconnected_def
  TPU_QUEUE_CAPACITY_def

text \<open>A thread that is in its loop and can panic ends the process.\<close>

definition dies :: "proc_config \<Rightarrow> bool" where
  "dies cfg \<longleftrightarrow> (\<exists>s. process_reach cfg s \<and> \<not> signalled s \<and> exit_code s = Some 1)"

lemma panic_dies:
  assumes "process_reach cfg s" "exit_code s = None" "\<not> signalled s" "t \<in> set (process_threads cfg)"
    and "panic_in t s' \<in> set (thread_moves cfg t s)"
  shows "dies cfg"
proof -
  have "process_reach cfg (panic_in t s')" by (rule process_thread_step [OF assms(1,2,4,5)])
  moreover have "exit_code (panic_in t s') = None" "\<not> signalled (panic_in t s')" "phase_of (panic_in t s') t = Panicked"
    using thread_moves_frame2 [OF assms(5)] assms(2,3) by (simp_all add: proc_simps)
  ultimately have "process_reach cfg ((panic_in t s')\<lparr>exit_code := Some 1\<rparr>)" "\<not> signalled (panic_in t s')"
    using process_hook_step assms(4) by blast+
  then show ?thesis unfolding dies_def by (intro exI conjI) (assumption, simp_all)
qed

lemma enter_loop:
  assumes "t \<in> set (process_threads cfg)" "t \<notin> {SigVerifyT, GrpcT, HandlerT, WebT, SweepT}"
  shows "process_reach cfg (go_to t Body process_start)"
  by (rule process_thread_step [OF process_reach.start _ assms(1)])
    (use assms(2) in \<open>cases t; simp add: start_simps\<close>)+

lemma disconnected_dies:
  assumes "pc_subscriptions cfg = 0 \<or> pc_forwards cfg = 0 \<or> pc_block_engine cfg \<and> \<not> pc_peer cfg"
  shows "dies cfg"
proof -
  consider "pc_subscriptions cfg = 0" | "pc_forwards cfg = 0" | "pc_block_engine cfg" "\<not> pc_peer cfg"
    using assms by auto
  then show ?thesis
  proof cases
    case 1
    show ?thesis
      by (rule panic_dies [OF enter_loop [of HealthManagerT], where t = HealthManagerT and s' = "go_to HealthManagerT Body process_start"])
        (auto simp: start_simps thread_in_process 1)
  next
    case 2
    show ?thesis
      by (rule panic_dies [OF enter_loop [of FetchStageT], where t = FetchStageT and s' = "go_to FetchStageT Body process_start"])
        (auto simp: start_simps thread_in_process 2)
  next
    case 3
    show ?thesis
      by (rule panic_dies [OF enter_loop [of BlockEngineT], where t = BlockEngineT and s' = "go_to BlockEngineT Body process_start"])
        (auto simp: start_simps thread_in_process 3)
  qed
qed

text \<open>The tasks of the runtime, and setting up the server.\<close>

lemma task_dies:
  assumes "\<not> pc_serve cfg \<or> \<not> pc_requests cfg \<or> \<not> pc_web cfg \<or> \<not> pc_sweep cfg"
  shows "dies cfg"
proof -
  have die: "dies cfg" if "t \<in> set (process_threads cfg)" "panic_in t process_start \<in> set (thread_moves cfg t process_start)" for t
    by (rule panic_dies [OF process_reach.start _ _ that]) (simp_all add: process_start_def)
  consider "\<not> pc_serve cfg" | "pc_serve cfg" "\<not> pc_requests cfg" | "\<not> pc_web cfg" | "\<not> pc_sweep cfg" using assms by blast
  then show ?thesis
    by cases (rule die [of GrpcT] die [of HandlerT] die [of WebT] die [of SweepT];
      simp add: start_simps thread_in_process; fail)+
qed

text \<open>One batch on its way from a forward server to the forwarder.\<close>

definition one_verified :: proc where
  "one_verified =
     process_start\<lparr>phase_of := (phase_of process_start)(FetchStageT := Sending 0, ForwarderT := Body),
       queued := (\<lambda>_. 0)(VerifiedCh := 1)\<rparr>"

lemma one_verified_reach:
  assumes "0 < pc_forwards cfg"
  shows "process_reach cfg one_verified"
proof -
  let ?q = "TpuForwardsQuicT 0"
  let ?a = "go_to ?q Body process_start"
  let ?b = "go_to ?q Head (push ForwardsCh ?a)"
  let ?c = "go_to FetchStageT Body ?b"
  let ?d = "go_to FetchStageT (Sending 1) (take_from ForwardsCh 1 ?c)"
  let ?e = "go_to FetchStageT (Sending 0) (push TpuCh ?d)"
  let ?f = "push VerifiedCh (take_from TpuCh 1 ?e)"
  let ?g = "go_to ForwarderT Body ?f"
  note simps = start_simps thread_in_process assms
  have "process_reach cfg ?a" by (rule enter_loop) (simp_all add: simps)
  then have "process_reach cfg ?b" by (rule process_thread_step [of _ _ ?q]) (simp_all add: simps)
  then have "process_reach cfg ?c" by (rule process_thread_step [of _ _ FetchStageT]) (simp_all add: simps)
  then have "process_reach cfg ?d" by (rule process_thread_step [of _ _ FetchStageT]) (simp_all add: simps)
  then have "process_reach cfg ?e" by (rule process_thread_step [of _ _ FetchStageT]) (simp_all add: simps)
  then have "process_reach cfg ?f" by (rule process_thread_step [of _ _ SigVerifyT]) (simp_all add: simps)
  then have "process_reach cfg ?g" by (rule process_thread_step [of _ _ ForwarderT]) (simp_all add: simps)
  moreover have "?g = one_verified"
    by (simp add: one_verified_def proc_simps process_start_def fun_eq_iff)
  ultimately show ?thesis by simp
qed

lemmas verified_simps = one_verified_def start_simps thread_in_process BLOCK_ENGINE_FORWARDER_QUEUE_CAPACITY_def

text \<open>The first batch that passes the signature verification finds the block engine's channel closed.\<close>

lemma no_block_engine_dies:
  assumes "0 < pc_forwards cfg" "pc_mempool cfg" "\<not> pc_block_engine cfg"
  shows "dies cfg"
  by (rule panic_dies [OF one_verified_reach [OF assms(1)], where t = ForwarderT
        and s' = "(take_from VerifiedCh 1 one_verified)\<lparr>buffered := 1\<rparr>"])
    (auto simp: verified_simps assms)

text \<open>The first batch that reaches the relayer's event loop cannot be cut into chunks of size 0.\<close>

lemma empty_batches_die:
  assumes "0 < pc_forwards cfg" "pc_mempool cfg \<longrightarrow> pc_block_engine cfg" "\<not> pc_batches cfg"
  shows "dies cfg"
proof -
  let ?v = "(take_from VerifiedCh 1 one_verified)\<lparr>buffered := 1\<rparr>"
  let ?a = "go_to ForwarderT (Sending 0) (if pc_mempool cfg then push BlockEngineCh ?v else ?v)"
  let ?b = "go_to ForwarderT (Sending 1) ?a"
  let ?c = "go_to ForwarderT (Sending 0) ((push DelayCh ?b)\<lparr>buffered := 0\<rparr>)"
  let ?d = "go_to RelayerLoopT Body ?c"
  note simps = verified_simps assms
  have "process_reach cfg ?a"
    by (rule process_thread_step [OF one_verified_reach [OF assms(1)], where t = ForwarderT]) (auto simp: simps)
  then have "process_reach cfg ?b" by (rule process_thread_step [of _ _ ForwarderT]) (auto simp: simps)
  then have "process_reach cfg ?c" by (rule process_thread_step [of _ _ ForwarderT]) (auto simp: simps)
  then have "process_reach cfg ?d" by (rule process_thread_step [of _ _ RelayerLoopT]) (auto simp: simps)
  then show ?thesis
    by (rule panic_dies [where t = RelayerLoopT and s' = "take_from DelayCh 1 ?d"]) (auto simp: simps)
qed

lemma dies_iff: "dies cfg \<longleftrightarrow> \<not> well_connected cfg"
proof
  show "dies cfg \<Longrightarrow> \<not> well_connected cfg" using reach_before_signal by (fastforce simp: dies_def)
  show "\<not> well_connected cfg \<Longrightarrow> dies cfg"
    using disconnected_dies [of cfg] task_dies [of cfg] no_block_engine_dies [of cfg] empty_batches_die [of cfg]
    by (auto simp: well_connected_def)
qed

lemma bind_sockets_length: "bind_sockets bind start is = Ok (ports, socks) \<Longrightarrow> length socks = length ports"
  by (induction "is" arbitrary: ports socks) (auto simp: rust_simps split: if_splits prod.splits)

text \<open>The settings under which a thread fails by itself.\<close>

definition fatal_args :: "args \<Rightarrow> bool" where
  "fatal_args a \<longleftrightarrow>
     arg_rpc_servers a = [] \<or> arg_num_tpu_fwd_quic_servers a = 0 \<or> arg_validator_packet_batch_size a = 0 \<or>
     arg_challenge_expiration_sleep_interval_secs a = 0 \<or> \<not> arg_disable_mempool a \<and> arg_block_engine_url a = None"

text \<open>What else can end the process: its surroundings.\<close>

definition fatal_surroundings :: "('c, 's, 'a) surroundings \<Rightarrow> 'sock relayer_setup \<Rightarrow> bool" where
  "fatal_surroundings sr su \<longleftrightarrow>
     \<not> sr_binds_web sr \<or> \<not> sr_binds_grpc sr \<or> \<not> sr_signal_handlers sr \<or> \<not> is_ok (main_auth_config sr su) \<or>
     some_call_panics sr su \<or> block_engine_panics sr su"

lemma startup_process_config:
  assumes "startup bind local_port lookup files sched a = Ok su"
  shows "well_connected (process_config_of sr su) \<longleftrightarrow> \<not> fatal_args a \<and> \<not> fatal_surroundings sr su"
proof -
  from assms obtain ip sockets where sockets: "get_sockets bind a = Ok sockets"
    and len: "length (arg_rpc_servers a) = length (arg_websocket_servers a)"
    and su: "su_servers su = zip (arg_rpc_servers a) (arg_websocket_servers a)" "su_sockets su = sockets"
      "su_forwarder su = \<lparr>packet_delay_ms = arg_packet_delay_ms a, disable_mempool = arg_disable_mempool a\<rparr>"
      "su_block_engine su = block_engine_config_of a"
      "validator_packet_batch_size (su_forwarding su) = arg_validator_packet_batch_size a"
      "su_sweep_interval su = from_secs (unat (arg_challenge_expiration_sleep_interval_secs a))"
    by (auto simp: startup_def rust_simps split: if_splits)
  have "length (transactions_forwards_quic_sockets sockets) = unat (arg_num_tpu_fwd_quic_servers a)"
    using get_sockets_ok(5) [OF sockets] by (auto dest: bind_sockets_length)
  then have fwd: "transactions_forwards_quic_sockets sockets = [] \<longleftrightarrow> arg_num_tpu_fwd_quic_servers a = 0"
    by (metis length_0_conv unat_eq_zero)
  have sweep: "su_sweep_interval su = 0 \<longleftrightarrow> arg_challenge_expiration_sleep_interval_secs a = 0"
    by (simp add: su from_secs_def unat_eq_zero)
  have engine: "block_engine_panics sr su \<Longrightarrow> su_block_engine su \<noteq> None"
    by (cases "su_block_engine su") (auto simp: block_engine_panics_def be_handler_new_def)
  show ?thesis
    using len fwd sweep engine
    by (auto simp: well_connected_def process_config_of_def su block_engine_config_of_def fatal_args_def fatal_surroundings_def
        split: option.splits)
qed

text \<open>
  An empty range of TPU ports or TPU forward ports is such a fact: every call of \<open>get_tpu_configs\<close> that the interceptor
  lets pass panics.
\<close>

lemma no_ports_call_panics:
  assumes "auth_interceptor_call k ch cr Rs256 header = Ok pk"
  shows "call_panics k ch cr cfg r (GetTpuConfigsCall header) \<longleftrightarrow> tpu_quic_ports r = [] \<or> tpu_fwd_quic_ports r = []"
  using assms component_outcomes(12) by simp

text \<open>
  C11: when the relayer dies without being told to. After a successful startup the process can end with code 1
  although no signal was received exactly if there is no RPC server, no TPU forward server, a batch size of 0, a
  sweep interval of 0, or no block engine while the mempool is not disabled (the defaults of the last two options);
  or if the address of the web server or of the gRPC server cannot be bound, the signal handlers cannot be
  installed or a lifetime of tokens cannot be converted; or if one of the calls of its clients panics in the handler
  that serves it; or if the handler of the block engine panics in one of its sessions. In every other case all threads
  and tasks keep running, and the exit flag stays clear, until a signal comes. Solana's servers and signature
  verification are assumed not to panic.
\<close>

theorem spontaneous_exit_iff:
  fixes sr :: "('c, 's, 'a) surroundings"
  assumes "startup bind local_port lookup files sched a = Ok su"
  defines "cfg \<equiv> process_config_of sr su"
    and "bad \<equiv> fatal_args a \<or> \<not> sr_binds_web sr \<or> \<not> sr_binds_grpc sr \<or> \<not> sr_signal_handlers sr \<or>
      \<not> is_ok (main_auth_config sr su) \<or>
      (\<exists>acfg. main_auth_config sr su = Ok acfg \<and> (\<exists>call\<in>set (sr_calls sr).
         call_panics (sr_sdk sr) (sr_chrono sr) (sr_crypto sr) acfg (su_relayer su) call)) \<or>
      snd (snd (be_handler_new (su_block_engine su) (sr_engine sr) (sr_sessions sr))) = Panic"
  shows "((\<exists>s. process_reach cfg s \<and> \<not> signalled s \<and> exit_code s = Some 1) \<longleftrightarrow> bad) \<and>
    (\<not> bad \<longrightarrow> (\<forall>s. process_reach cfg s \<and> \<not> signalled s \<longrightarrow>
       \<not> exit_set s \<and> exit_code s = None \<and>
       (\<forall>t\<in>set (process_threads cfg). phase_of s t \<noteq> Stopped \<and> phase_of s t \<noteq> Panicked)))"
proof -
  have "bad \<longleftrightarrow> fatal_args a \<or> fatal_surroundings sr su"
    by (auto simp: bad_def fatal_surroundings_def some_call_panics_def block_engine_panics_def list_ex_iff split: result.splits)
  then have wc: "well_connected cfg \<longleftrightarrow> \<not> bad"
    using startup_process_config [OF assms(1), of sr] by (simp add: cfg_def)
  have run: "\<not> exit_set s \<and> exit_code s = None \<and> all_alive cfg s"
    if "\<not> bad" "process_reach cfg s" "\<not> signalled s" for s
    using reach_before_signal [OF that(2)] that wc by blast
  from dies_iff [of cfg] wc run show ?thesis unfolding dies_def all_alive_def by blast
qed

text \<open>
  With the default settings the first batch is fatal, because there is no block engine; with one, in surroundings where
  a client without a token calls and the block engine breaks the connection twice, the relayer runs until a signal.
\<close>

definition engine_args :: args where
  "engine_args = (args_default ''k'' ''s'' ''v'')\<lparr>arg_block_engine_url := Some ''http://engine''\<rparr>"

lemma engine_args_startup:
  "case startup demo_bind Some (Some (V4 0x0A000001)) demo_files [] engine_args of
     Ok su \<Rightarrow> su_block_engine su = Some (''http://engine'', ''http://engine'') \<and> su_ttls su = (from_secs 1800, from_secs 180000, from_secs 1800) | _ \<Rightarrow> False"
  by (simp add: startup_def staked_nodes_overrides_def token_keys_def demo_files_def resolve_public_ip_def engine_args_def
      args_default_def unwrap_def is_ipv4_def is_loopback_def get_sockets_def u16_MAX_def checked_add_def u16_range_def
      demo_bind_def Let_def drop_bit_eq_div block_engine_config_of_def)

definition demo_surroundings :: "(alist_cache, packet_batch_update chan, unit) surroundings" where
  "demo_surroundings =
     \<lparr>sr_sdk = demo_sdk, sr_chrono = demo_chrono, sr_crypto = demo_crypto, sr_from_std = (\<lambda>d. Some (int d)),
      sr_pubkey_bytes = 32, sr_signature_bytes = 64, sr_role_validator = 1, sr_binds_web = True, sr_binds_grpc = True,
      sr_signal_handlers = True, sr_calls = [GetTpuConfigsCall NoHeader], sr_engine = demo_be_config,
      sr_sessions = demo_sessions\<rparr>"

lemma demo_surroundings_calm:
  assumes "su_block_engine su = Some urls" "su_ttls su = (x, y, z)"
  shows "is_ok (main_auth_config demo_surroundings su)"
    "main_auth_config demo_surroundings su = Ok acfg \<Longrightarrow> call \<in> set (sr_calls demo_surroundings) \<Longrightarrow>
       \<not> call_panics (sr_sdk demo_surroundings) (sr_chrono demo_surroundings) (sr_crypto demo_surroundings) acfg (su_relayer su) call"
    "snd (snd (be_handler_new (su_block_engine su) (sr_engine demo_surroundings) (sr_sessions demo_surroundings))) \<noteq> Panic"
    "sr_binds_web demo_surroundings" "sr_binds_grpc demo_surroundings" "sr_signal_handlers demo_surroundings"
  using assms
  by (auto simp: demo_surroundings_def main_auth_config_def auth_config_new_def unwrap_def is_ok_def auth_interceptor_call_def
      jwt_from_header_def be_handler_new_def demo_sessions_def demo_attempts)

theorem spontaneous_exit_iff_witness:
  "\<exists>su su'. startup demo_bind Some (Some (V4 0x0A000001)) demo_files [] (args_default ''k'' ''s'' ''v'') = Ok su \<and>
     (\<exists>s. process_reach (process_config_of demo_surroundings su) s \<and> \<not> signalled s \<and> exit_code s = Some 1) \<and>
     startup demo_bind Some (Some (V4 0x0A000001)) demo_files [] engine_args = Ok su' \<and>
     \<not> (\<exists>s. process_reach (process_config_of demo_surroundings su') s \<and> \<not> signalled s \<and> exit_code s = Some 1)"
proof -
  from demo_startup_runs obtain su where
    su: "startup demo_bind Some (Some (V4 0x0A000001)) demo_files [] (args_default ''k'' ''s'' ''v'') = Ok su"
    by (auto split: result.splits)
  from engine_args_startup obtain su' where
    su': "startup demo_bind Some (Some (V4 0x0A000001)) demo_files [] engine_args = Ok su'"
      "su_block_engine su' = Some (''http://engine'', ''http://engine'')"
      "su_ttls su' = (from_secs 1800, from_secs 180000, from_secs 1800)" by (auto split: result.splits)
  have "fatal_args (args_default ''k'' ''s'' ''v'')" "\<not> fatal_args engine_args"
    by (simp_all add: args_default_def fatal_args_def engine_args_def)
  with spontaneous_exit_iff [OF su, where sr = demo_surroundings] spontaneous_exit_iff [OF su'(1), where sr = demo_surroundings]
    demo_surroundings_calm [OF su'(2,3)] su su'(1)
  show ?thesis by blast
qed

section \<open>Shutting down\<close>

text \<open>
  C39: every state the process reaches is well formed. Each thread is at a place its loop has, or it has panicked, and
  then for a reason that still holds: the health manager, the forwarder and the fetch stage because a channel they read is
  disconnected or the receiver of one they write is gone (for the block engine's channel only with the mempool
  enabled), the event loop because of a batch size of 0, the pollers because there is no RPC server, and the block
  engine handler, the servers, the request handlers and the expiration task because of their inputs; no other
  thread ever panics. No channel holds more than its capacity; the exit flag is set exactly after a signal or a
  panic, and no thread stops before; the process ends with code 0 only after a signal and with every joined thread
  stopped, and otherwise with code 1 after a panic.
\<close>

theorem process_well_typed:
  assumes "process_reach cfg s"
  shows "(\<forall>t\<in>set (process_threads cfg). (phase_of s t = Panicked \<and> panic_reason cfg s t \<or> loop_phase t (phase_of s t)) \<and>
      (phase_of s t = Stopped \<longrightarrow> exit_set s)) \<and>
    (\<forall>c n. chan_capacity_of c = Some n \<longrightarrow> queued s c \<le> n) \<and>
    (exit_set s \<longleftrightarrow> signalled s \<or> (\<exists>t\<in>set (process_threads cfg). phase_of s t = Panicked)) \<and>
    (exit_code s = None \<or>
     exit_code s = Some 0 \<and> signalled s \<and> (\<forall>t\<in>set (join_order cfg). phase_of s t = Stopped) \<or>
     exit_code s = Some 1 \<and> (\<exists>t\<in>set (process_threads cfg). phase_of s t = Panicked))"
proof -
  from proc_ok_reach [OF assms] have ok: "threads_ok cfg s" "flag_ok cfg s" "joins_ok cfg s" "code_ok cfg s"
    by (simp_all add: proc_ok_def)
  show ?thesis
  proof (intro conjI ballI allI)
    fix t assume t: "t \<in> set (process_threads cfg)"
    show "phase_of s t = Panicked \<and> panic_reason cfg s t \<or> loop_phase t (phase_of s t)"
      using ok(1) t panic_reason_reach [OF assms t] by (auto simp: threads_ok_def phase_allowed_def)
    show "phase_of s t = Stopped \<longrightarrow> exit_set s" using ok(2) t by (auto simp: flag_ok_def)
  next
    fix c n
    have "within_capacity s c" using ok(1) by (simp add: threads_ok_def)
    then show "chan_capacity_of c = Some n \<longrightarrow> queued s c \<le> n" by (auto simp: within_capacity_def)
  next
    show "exit_set s \<longleftrightarrow> signalled s \<or> (\<exists>t\<in>set (process_threads cfg). phase_of s t = Panicked)"
      using ok(2) by (simp add: flag_ok_def some_panicked_def)
  next
    have "signalled s \<and> (\<forall>t\<in>set (join_order cfg). phase_of s t = Stopped)" if "to_join s = Some []"
      using ok(3) that by (auto simp: joins_ok_def)
    with ok(4) show "exit_code s = None \<or>
     exit_code s = Some 0 \<and> signalled s \<and> (\<forall>t\<in>set (join_order cfg). phase_of s t = Stopped) \<or>
     exit_code s = Some 1 \<and> (\<exists>t\<in>set (process_threads cfg). phase_of s t = Panicked)"
      by (auto simp: code_ok_def some_panicked_def)
  qed
qed

definition demo_proc_config :: proc_config where
  "demo_proc_config = \<lparr>pc_subscriptions = 1, pc_tpu = 1, pc_forwards = 1, pc_mempool = True, pc_block_engine = True,
     pc_lookup = False, pc_batches = True, pc_serve = True, pc_requests = True, pc_web = True, pc_sweep = True,
     pc_peer = True\<rparr>"

text \<open>A signal reaches the process when only the fetch stage has entered its loop.\<close>

definition demo_idle :: proc where
  "demo_idle = (go_to FetchStageT Body process_start)\<lparr>signalled := True, exit_set := True\<rparr>"

lemma demo_idle_reach: "process_reach demo_proc_config demo_idle"
proof -
  have "process_reach demo_proc_config (go_to FetchStageT Body process_start)"
    by (rule process_thread_step [OF process_reach.start, where t = FetchStageT])
      (simp_all add: start_simps thread_in_process)
  then show ?thesis
    by (rule process_reach.step)
      (simp add: demo_idle_def process_moves_def signal_moves_def start_simps, simp add: demo_proc_config_def)
qed

theorem process_well_typed_witness:
  "queued demo_idle ForwardsCh \<le> 10000 \<and> loop_phase FetchStageT (phase_of demo_idle FetchStageT) \<and> exit_set demo_idle"
proof -
  have "chan_capacity_of ForwardsCh = Some 10000" "signalled demo_idle" "phase_of demo_idle FetchStageT = Body"
    by (simp_all add: TPU_QUEUE_CAPACITY_def demo_idle_def go_to_def)
  with process_well_typed [OF demo_idle_reach] thread_in_process(4) [of demo_proc_config] show ?thesis by auto
qed

text \<open>
  C12: shutting down always works, in the sense that the process ends. Once the exit flag is set, by a signal or
  by the panic hook, a run has at most \<open>process_weight\<close> further steps, whatever the threads do; it cannot get
  stuck before the process has an exit code (no deadlock: no two threads wait for each other on their
  channels); and so there is a run to the end from wherever it stands.
\<close>

theorem shutdown_terminates:
  assumes "process_reach cfg s" "exit_set s"
  shows "(\<forall>ss. process_run cfg s ss \<longrightarrow> length ss \<le> process_weight cfg s \<and>
      (process_moves cfg (last (s # ss)) = [] \<longrightarrow> exit_code (last (s # ss)) \<noteq> None)) \<and>
    (\<exists>ss. process_run cfg s ss \<and> exit_code (last (s # ss)) \<noteq> None)"
proof (intro conjI allI impI)
  fix ss assume run: "process_run cfg s ss"
  show "length ss \<le> process_weight cfg s" using process_run_bounded [OF run assms] by simp
  show "exit_code (last (s # ss)) \<noteq> None" if "process_moves cfg (last (s # ss)) = []"
    by (rule process_not_stuck [OF proc_ok_reach [OF process_run_reach [OF run assms(1)]]
          process_run_exit_set [OF run assms(2)] that])
next
  show "\<exists>ss. process_run cfg s ss \<and> exit_code (last (s # ss)) \<noteq> None" by (rule process_run_to_end [OF assms])
qed

theorem shutdown_terminates_witness:
  "\<exists>ss. process_run demo_proc_config demo_idle ss \<and> exit_code (last (demo_idle # ss)) \<noteq> None"
proof -
  have "exit_set demo_idle" by (simp add: demo_idle_def)
  from shutdown_terminates [OF demo_idle_reach this] show ?thesis by blast
qed

text \<open>
  C13: an idle relayer does not shut down cleanly. If the exit flag is set while the fetch stage waits for a
  forwarded batch, none is queued and no forward server is about to deliver one, then every complete run ends
  with exit code 1: the fetch stage has no timeout, the servers drop their senders when they stop, and it
  panics on the disconnected channel, while \<open>main\<close> waits to join it.
\<close>

theorem idle_shutdown_fails:
  assumes "process_reach cfg s" "exit_set s" "idle_fetch cfg s" "exit_code s = None"
    and "process_run cfg s ss" "process_moves cfg (last (s # ss)) = []"
  shows "exit_code (last (s # ss)) = Some 1"
proof -
  have reach: "process_reach cfg (last (s # ss))" by (rule process_run_reach [OF assms(5,1)])
  have "exit_code (last (s # ss)) \<noteq> None"
    by (rule process_not_stuck [OF proc_ok_reach [OF reach] process_run_exit_set [OF assms(5,2)] assms(6)])
  moreover have "exit_code (last (s # ss)) \<noteq> Some 0" using idle_fetch_run [OF assms(5,1,3,2)] assms(4) by simp
  ultimately show ?thesis using proc_ok_reach [OF reach] by (auto simp: proc_ok_def code_ok_def)
qed

definition demo_shutdown :: "proc list" where
  "demo_shutdown =
     (let a = go_to (TpuForwardsQuicT 0) Stopped demo_idle;
          b = panic_in FetchStageT a
      in [a, b, b\<lparr>exit_code := Some 1\<rparr>])"

lemma demo_shutdown_runs: "process_run demo_proc_config demo_idle demo_shutdown"
  by (simp add: demo_shutdown_def demo_idle_def demo_proc_config_def process_moves_def hook_moves_def process_threads_def
      start_simps)

theorem idle_shutdown_fails_witness: "exit_code (last (demo_idle # demo_shutdown)) = Some 1"
  by (rule idle_shutdown_fails [OF demo_idle_reach _ _ _ demo_shutdown_runs])
    (auto simp: demo_idle_def demo_shutdown_def demo_proc_config_def idle_fetch_def start_simps process_moves_def Let_def)

text \<open>The health manager, too, may find its channel disconnected after a signal.\<close>

lemma health_manager_panics_after_signal:
  assumes "pc_subscriptions cfg = 1" "pc_serve cfg"
  shows "\<exists>s. process_reach cfg s \<and> signalled s \<and> phase_of s HealthManagerT = Panicked"
proof -
  let ?a = "go_to HealthManagerT Body process_start"
  let ?b = "?a\<lparr>signalled := True, exit_set := True\<rparr>"
  let ?c = "go_to (SubscriptionT 0) Stopped ?b"
  let ?d = "panic_in HealthManagerT ?c"
  have "process_reach cfg ?a"
    by (rule process_thread_step [OF process_reach.start, where t = HealthManagerT]) (simp_all add: start_simps thread_in_process)
  then have "process_reach cfg ?b"
    by (rule process_reach.step) (simp add: process_moves_def signal_moves_def start_simps assms)
  then have "process_reach cfg ?c"
    by (rule process_thread_step [of _ _ "SubscriptionT 0"]) (simp_all add: start_simps thread_in_process assms)
  then have "process_reach cfg ?d"
    by (rule process_thread_step [of _ _ HealthManagerT]) (simp_all add: start_simps thread_in_process assms)
  then show ?thesis by (intro exI conjI) (assumption, simp_all add: start_simps)
qed

end
