(* ===== verification/Process_Refinement.thy ===== *)
theory Process_Refinement
  imports Process_Theorems Forwarder_Theorems
begin

text \<open>
  The threads of \<open>Process\<close> against the components. \<open>Process\<close> keeps the lengths of the queues and the place of each
  thread; the component theories have the messages. Here every iteration of the fetch stage, a
  forwarder, the health manager and the event loop, whatever its outcome, is matched by moves of its thread: a
  forward simulation in which the abstraction of a queue is its length.
\<close>

section \<open>Moves of one thread\<close>

definition thread_steps :: "proc_config \<Rightarrow> thread \<Rightarrow> proc \<Rightarrow> proc \<Rightarrow> bool" where
  "thread_steps cfg t = (\<lambda>s s'. s' \<in> set (thread_moves cfg t s))\<^sup>*\<^sup>*"

named_theorems steps_intro \<open>composing moves of a thread\<close>

lemma thread_steps_refl [simp]: "thread_steps cfg t s s"
  by (simp add: thread_steps_def)

lemma thread_steps_Cons [steps_intro]:
  "s' \<in> set (thread_moves cfg t s) \<Longrightarrow> thread_steps cfg t s' s'' \<Longrightarrow> thread_steps cfg t s s''"
  unfolding thread_steps_def by (rule converse_rtranclp_into_rtranclp)

lemma thread_step_single [steps_intro]: "s' \<in> set (thread_moves cfg t s) \<Longrightarrow> thread_steps cfg t s s'"
  unfolding thread_steps_def by (rule r_into_rtranclp)

lemma thread_steps_trans: "thread_steps cfg t s s' \<Longrightarrow> thread_steps cfg t s' s'' \<Longrightarrow> thread_steps cfg t s s''"
  unfolding thread_steps_def by (rule rtranclp_trans)

text \<open>Such moves are moves of the process.\<close>

lemma thread_steps_reach:
  assumes "process_reach cfg s" "exit_code s = None" "t \<in> set (process_threads cfg)" "thread_steps cfg t s s'"
  shows "process_reach cfg s' \<and> exit_code s' = None"
  using assms(4,1,2) unfolding thread_steps_def
proof (induction rule: rtranclp_induct)
  case (step s' s'')
  then show ?case using process_thread_step [OF _ _ assms(3)] thread_moves_frame2(2) by fastforce
qed simp

lemmas move_simps = thread_move_defs proc_simps has_room_def

section \<open>The fetch stage\<close>

lemma send_not_timeout: "send_packet_batches send s bs \<noteq> Err FetchRecvTimeout"
  by (induction bs arbitrary: s) (auto split: option.splits)

lemma send_fails:
  "\<not> is_ok (send_packet_batches send s bs) \<Longrightarrow> \<exists>as t m. send_packet_batches send s as = Ok t \<and> send t m = None"
proof (induction bs arbitrary: s)
  case (Cons b bs)
  show ?case
  proof (cases "send s b")
    case None
    then show ?thesis by (intro exI [of _ "[]"]) auto
  next
    case (Some s')
    with Cons.prems have "\<not> is_ok (send_packet_batches send s' bs)" by simp
    from Cons.IH [OF this] obtain as t m where "send_packet_batches send s' as = Ok t" "send t m = None" by blast
    with Some show ?thesis by (intro exI [of _ "b # as"]) auto
  qed
qed (simp add: is_ok_def)

text \<open>An iteration takes a batch, and a second one if there is one.\<close>

lemma take_forwarded_takes: "take_forwarded n q = (taken, left) \<Longrightarrow> q \<noteq> [] \<Longrightarrow> length left < length q"
proof (induction n q arbitrary: taken left rule: take_forwarded.induct)
  case (2 n b q)
  show ?case
  proof (cases "n + length b > 1024")
    case False
    obtain t l where tl: "take_forwarded (n + length b) q = (t, l)" by (cases "take_forwarded (n + length b) q")
    with False "2.prems"(1) have "left = l" by auto
    with "2.IH" [OF False tl] tl show ?thesis by (cases "q = []") auto
  qed (use "2.prems" in auto)
qed simp

lemma fetch_step_cases:
  assumes "fetch_queue f @ fe_arrived env = b # rest" "take_forwarded (length b) rest = (taken, left)"
  shows "fetch_step send f env =
    (case send_packet_batches send (fetch_sender f) (map mark_forwarded b # taken) of
       Ok sender \<Rightarrow> Ok (fetch_metrics env (f\<lparr>fetch_queue := left, fetch_sender := sender\<rparr>)) | _ \<Rightarrow> Panic)"
  using send_not_timeout [of send "fetch_sender f" "map mark_forwarded b # taken"]
  by (auto simp: fetch_step_def handle_forwarded_packets_def assms simp del: send_packet_batches.simps
      split: result.splits fetch_stage_error.splits)

lemma fetch_step_Ok:
  assumes "fetch_step send f env = Ok f'"
  shows "length (fetch_queue f') + min 2 (length (fetch_queue f @ fe_arrived env)) \<le> length (fetch_queue f @ fe_arrived env)"
    "0 < length (fetch_queue f @ fe_arrived env)" "\<exists>m t. send (fetch_sender f) m = Some t"
proof -
  obtain b rest where q: "fetch_queue f @ fe_arrived env = b # rest"
    using assms by (cases "fetch_queue f @ fe_arrived env") (auto simp: fetch_step_def handle_forwarded_packets_def)
  obtain taken left where tl: "take_forwarded (length b) rest = (taken, left)" by (cases "take_forwarded (length b) rest")
  from assms fetch_step_cases [OF q tl, of send] obtain sender where
    snd: "send_packet_batches send (fetch_sender f) (map mark_forwarded b # taken) = Ok sender"
    and f': "f' = fetch_metrics env (f\<lparr>fetch_queue := left, fetch_sender := sender\<rparr>)"
    by (auto simp del: send_packet_batches.simps split: result.splits)
  have "fetch_queue f' = left" by (simp add: f' fetch_metrics_def Let_def)
  then show "length (fetch_queue f') + min 2 (length (fetch_queue f @ fe_arrived env)) \<le> length (fetch_queue f @ fe_arrived env)"
    using take_forwarded_takes [OF tl] take_forwarded_split [OF tl] unfolding q by (cases "rest = []") auto
  show "0 < length (fetch_queue f @ fe_arrived env)" by (simp add: q)
  show "\<exists>m t. send (fetch_sender f) m = Some t" using snd by (auto split: option.splits)
qed

lemma fetch_step_Panic:
  assumes "fetch_step send f env = Panic" "fetch_queue f @ fe_arrived env \<noteq> []"
  shows "\<exists>as t m. send_packet_batches send (fetch_sender f) as = Ok t \<and> send t m = None"
proof -
  obtain b rest where q: "fetch_queue f @ fe_arrived env = b # rest" using assms(2) by (cases "fetch_queue f @ fe_arrived env") auto
  obtain taken left where tl: "take_forwarded (length b) rest = (taken, left)" by (cases "take_forwarded (length b) rest")
  from assms(1) fetch_step_cases [OF q tl, of send]
  have "\<not> is_ok (send_packet_batches send (fetch_sender f) (map mark_forwarded b # taken))"
    by (auto simp: is_ok_def simp del: send_packet_batches.simps split: result.splits)
  then show ?thesis by (rule send_fails)
qed

text \<open>Every number of batches that the thread of the process may take is taken for some sizes of the batches.\<close>

lemma take_forwarded_exact:
  "take_forwarded 0 (replicate k [] @ replicate 1025 p # rest) = (replicate k [] @ [map mark_forwarded (replicate 1025 p)], rest)"
  by (induction k) simp_all

lemma fetch_choices_realised:
  assumes "\<And>s m. send s m \<noteq> None" "0 < q" "min 2 q \<le> n" "n \<le> q"
  shows "\<exists>queue sender'. length queue = q \<and> handle_forwarded_packets send queue sender = Ok (drop n queue, sender')"
proof -
  let ?p = "undefined :: packet"
  let ?queue = "replicate (n - 1) [] @ replicate 1025 ?p # replicate (q - n) []"
  have len: "length ?queue = q" using assms(2-4) by simp
  have left: "drop n ?queue = replicate (q - n) []" using assms(2-4) by simp
  have send: "\<exists>sender'. send_packet_batches send sender bs = Ok sender'" for sender and bs :: "packet_batch list"
    using assms(1) by (induction bs arbitrary: sender) (auto split: option.split)
  have "\<exists>taken b rest. ?queue = b # rest \<and> take_forwarded (length b) rest = (taken, replicate (q - n) [])"
  proof (cases n)
    case (Suc k)
    show ?thesis
    proof (cases k)
      case 0
      with Suc assms(2-4) have "q = 1" by simp
      with Suc 0 show ?thesis by simp
    next
      case (Suc j)
      with \<open>n = Suc k\<close> show ?thesis using take_forwarded_exact [of j ?p "replicate (q - n) []"] by simp
    qed
  qed (use assms(2,3) in simp)
  then obtain taken b rest where q: "?queue = b # rest" "take_forwarded (length b) rest = (taken, replicate (q - n) [])" by blast
  obtain sender' where "send_packet_batches send sender (map mark_forwarded b # taken) = Ok sender'" using send by blast
  then have "handle_forwarded_packets send ?queue sender = Ok (drop n ?queue, sender')"
    unfolding left unfolding q(1) by (simp add: handle_forwarded_packets_def q(2) del: send_packet_batches.simps)
  with len show ?thesis by blast
qed

lemma fetch_takes:
  assumes "phase_of s FetchStageT = Body" "0 < queued s ForwardsCh" "min 2 (queued s ForwardsCh) \<le> n" "n \<le> queued s ForwardsCh"
  shows "go_to FetchStageT (Sending n) (take_from ForwardsCh n s) \<in> set (thread_moves cfg FetchStageT s)"
proof -
  have "n \<in> set [min 2 (queued s ForwardsCh)..<Suc (queued s ForwardsCh)]"
    using assms(3,4) by (simp only: set_upt atLeastLessThan_iff less_Suc_eq_le simp_thms)
  with assms show ?thesis by (simp add: thread_move_defs del: upt_Suc set_upt)
qed

lemma fetch_sends:
  "phase_of s FetchStageT = Sending n \<Longrightarrow> \<not> receiver_gone cfg s TpuCh \<Longrightarrow> queued s TpuCh + n \<le> TPU_QUEUE_CAPACITY \<Longrightarrow>
     thread_steps cfg FetchStageT s
       (s\<lparr>phase_of := (phase_of s)(FetchStageT := Head), queued := (queued s)(TpuCh := queued s TpuCh + n)\<rparr>)"
proof (induction n arbitrary: s)
  case 0
  then show ?case by (intro thread_step_single) (simp add: move_simps fun_upd_def)
next
  case (Suc n)
  let ?s = "go_to FetchStageT (Sending n) (push TpuCh s)"
  have "\<not> receiver_gone cfg ?s TpuCh" using Suc.prems(2) by (simp add: receiver_gone_def proc_simps)
  then have "thread_steps cfg FetchStageT ?s
      (?s\<lparr>phase_of := (phase_of ?s)(FetchStageT := Head), queued := (queued ?s)(TpuCh := queued ?s TpuCh + n)\<rparr>)"
    by (intro Suc.IH) (use Suc.prems in \<open>simp_all add: proc_simps\<close>)
  moreover have "?s \<in> set (thread_moves cfg FetchStageT s)" using Suc.prems by (simp add: move_simps)
  moreover have "?s\<lparr>phase_of := (phase_of ?s)(FetchStageT := Head), queued := (queued ?s)(TpuCh := queued ?s TpuCh + n)\<rparr>
    = s\<lparr>phase_of := (phase_of s)(FetchStageT := Head), queued := (queued s)(TpuCh := queued s TpuCh + Suc n)\<rparr>"
    by (rule proc.equality) (simp_all add: proc_simps)
  ultimately show ?case using thread_steps_Cons by metis
qed

text \<open>
  C15: the fetch stage of the process is that of \<open>core/src/fetch_stage.rs\<close>. Let the thread be in its loop body with as
  many batches in its channel as the component has, where an empty channel is disconnected if the iteration runs at all,
  and a send of the component fails exactly if the receiver of the TPU channel is gone. If an iteration of the component
  succeeds and there is room for what it sends, then the thread can move to the head of its loop, with as many batches
  left in one channel as the component has left and as many more in the other as the component's channel has
  accepted, and nothing else changed. If the iteration panics, then the thread can move to a panic.
\<close>

theorem fetch_thread_refines:
  assumes "blocking_sender send accepted"
    and "phase_of s FetchStageT = Body" "queued s ForwardsCh = length (fetch_queue f @ fe_arrived env)"
    and "queued s ForwardsCh = 0 \<Longrightarrow> disconnected cfg s ForwardsCh"
    and "\<forall>bs t m. send_packet_batches send (fetch_sender f) bs = Ok t \<longrightarrow> (send t m = None \<longleftrightarrow> receiver_gone cfg s TpuCh)"
    and "\<And>f'. fetch_step send f env = Ok f' \<Longrightarrow>
      queued s TpuCh + (length (accepted (fetch_sender f')) - length (accepted (fetch_sender f))) \<le> TPU_QUEUE_CAPACITY"
  shows "case fetch_step send f env of
    Ok f' \<Rightarrow> thread_steps cfg FetchStageT s
      (s\<lparr>phase_of := (phase_of s)(FetchStageT := Head),
         queued := (queued s)(ForwardsCh := length (fetch_queue f'),
           TpuCh := queued s TpuCh + (length (accepted (fetch_sender f')) - length (accepted (fetch_sender f))))\<rparr>)
  | Err _ \<Rightarrow> False
  | Panic \<Rightarrow> \<exists>s'. thread_steps cfg FetchStageT s s' \<and> phase_of s' FetchStageT = Panicked"
proof (cases "fetch_step send f env")
  case (Ok f')
  let ?n = "length (accepted (fetch_sender f')) - length (accepted (fetch_sender f))"
  let ?s = "go_to FetchStageT (Sending ?n) (take_from ForwardsCh ?n s)"
  obtain bs where bs: "fetch_queue f @ fe_arrived env = bs @ fetch_queue f'"
    "accepted (fetch_sender f') = accepted (fetch_sender f) @ map (map mark_forwarded) bs"
    using fetch_step_moves [OF assms(1) Ok] by blast
  have n: "?n = length bs" "queued s ForwardsCh = length bs + length (fetch_queue f')"
    using arg_cong [OF bs(1), of length] by (simp_all add: bs(2) assms(3))
  have "?s \<in> set (thread_moves cfg FetchStageT s)"
  proof (rule fetch_takes [OF assms(2)])
    show "0 < queued s ForwardsCh" unfolding assms(3) by (rule fetch_step_Ok(2) [OF Ok])
    show "min 2 (queued s ForwardsCh) \<le> ?n" "?n \<le> queued s ForwardsCh"
      using fetch_step_Ok(1) [OF Ok] n unfolding assms(3) [symmetric] by simp_all
  qed
  moreover have alive: "\<not> receiver_gone cfg s TpuCh"
    using fetch_step_Ok(3) [OF Ok] assms(5) [rule_format, of "[]" "fetch_sender f"] by force
  then have "\<not> receiver_gone cfg ?s TpuCh" by (simp add: receiver_gone_def proc_simps)
  then have "thread_steps cfg FetchStageT ?s
      (?s\<lparr>phase_of := (phase_of ?s)(FetchStageT := Head), queued := (queued ?s)(TpuCh := queued ?s TpuCh + ?n)\<rparr>)"
    by (intro fetch_sends) (use assms(6) [OF Ok] in \<open>simp_all add: proc_simps\<close>)
  ultimately have "thread_steps cfg FetchStageT s
      (?s\<lparr>phase_of := (phase_of ?s)(FetchStageT := Head), queued := (queued ?s)(TpuCh := queued ?s TpuCh + ?n)\<rparr>)"
    by (rule thread_steps_Cons)
  moreover have "queued s ForwardsCh - ?n = length (fetch_queue f')" using n by simp
  ultimately show ?thesis by (simp add: Ok proc_simps)
next
  case (Err e)
  then show ?thesis
    by (auto simp: fetch_step_def Let_def split: result.splits fetch_stage_error.splits)
next
  case Panic
  show ?thesis
  proof (cases "queued s ForwardsCh = 0")
    case True
    with assms(2,4) have "panic_in FetchStageT s \<in> set (thread_moves cfg FetchStageT s)"
      by (simp add: thread_move_defs)
    from thread_step_single [OF this] show ?thesis by (auto simp: Panic proc_simps)
  next
    case False
    let ?n = "min 2 (queued s ForwardsCh)"
    let ?s = "go_to FetchStageT (Sending ?n) (take_from ForwardsCh ?n s)"
    have "?s \<in> set (thread_moves cfg FetchStageT s)" by (rule fetch_takes [OF assms(2)]) (use False in simp_all)
    moreover have "receiver_gone cfg s TpuCh" using fetch_step_Panic [OF Panic] False assms(3,5) by fastforce
    then have "panic_in FetchStageT ?s \<in> set (thread_moves cfg FetchStageT ?s)"
      using False by (simp add: move_simps receiver_gone_def)
    ultimately have "thread_steps cfg FetchStageT s (panic_in FetchStageT ?s)"
      by (blast intro: steps_intro)
    then show ?thesis by (auto simp: Panic proc_simps)
  qed
qed

section \<open>The forwarder\<close>

text \<open>What an iteration receives, and what becomes of its offer to the block engine.\<close>

definition receives :: "forwarder_env \<Rightarrow> bool" where
  "receives env \<longleftrightarrow> (\<exists>batch. fe_recv env = Received batch)"

definition offer_outcome :: "'s be_ops \<Rightarrow> forwarder_config \<Rightarrow> forwarder_env \<Rightarrow> 's \<Rightarrow> send_outcome option" where
  "offer_outcome ops fcfg env be =
     (case fe_recv env of
        Received batch \<Rightarrow>
          if disable_mempool fcfg then None
          else Some (fst (try_send ops be
            \<lparr>bep_batch = batch, bep_stamp = fe_system_time env, bep_expiration = packet_delay_ms fcfg\<rparr>))
      | _ \<Rightarrow> None)"

lemma receive_batch_outcome:
  "receive_batch ops fcfg env be t = Panic \<longleftrightarrow> fe_recv env = RecvDisconnected \<or> offer_outcome ops fcfg env be = Some SendClosed"
  "receive_batch ops fcfg env be t \<noteq> Err e"
  "receive_batch ops fcfg env be t = Ok (be', t') \<Longrightarrow>
     length (buffered_packet_batches t') = length (buffered_packet_batches t) + (if receives env then 1 else 0)"
  by (auto simp: receive_batch_def offer_to_block_engine_def offer_outcome_def receives_def rust_simps
      split: recv_timeout.splits if_splits prod.splits send_outcome.splits)

lemma upload_metrics_buffer [simp]: "buffered_packet_batches (upload_metrics ops env be t) = buffered_packet_batches t"
  by (simp add: upload_metrics_def)

lemma drain_delayed_not_Err: "drain_delayed fcfg env i buf m \<noteq> Err e"
proof (induction fcfg env i buf m rule: drain_delayed.induct)
  case (2 fcfg env i b bs m)
  let ?d = "drain_delayed fcfg env (Suc i) bs
    (m\<lparr>num_relayer_packets_forwarded := num_relayer_packets_forwarded m + sum_len_u64 (rpb_batch b)\<rparr>)"
  from 2 show ?case by (cases ?d) auto
qed simp

text \<open>How an iteration ends, in numbers.\<close>

lemma forwarder_iteration_counts:
  fixes be :: 's
  assumes "be = forwarder_shared.be_sender sh"
  shows "forwarder_iteration ops fcfg tid env sh t = Ok (sh', t') \<Longrightarrow>
      length (delayed_out sh) \<le> length (delayed_out sh') \<and>
      length (buffered_packet_batches t') + (length (delayed_out sh') - length (delayed_out sh)) =
        length (buffered_packet_batches t) + (if receives env then 1 else 0) \<and>
      fe_recv env \<noteq> RecvDisconnected \<and> offer_outcome ops fcfg env be \<noteq> Some SendClosed"
    and "forwarder_iteration ops fcfg tid env sh t = Panic \<Longrightarrow>
      fe_recv env = RecvDisconnected \<or> offer_outcome ops fcfg env be = Some SendClosed \<or>
      0 < length (buffered_packet_batches t) + (if receives env then 1 else 0)"
    and "forwarder_iteration ops fcfg tid env sh t \<noteq> Err e"
proof -
  let ?r = "receive_batch ops fcfg env be (upload_metrics ops env be t)"
  note outcome = receive_batch_outcome [of ops fcfg env be "upload_metrics ops env be t"]
  show "length (delayed_out sh) \<le> length (delayed_out sh') \<and>
      length (buffered_packet_batches t') + (length (delayed_out sh') - length (delayed_out sh)) =
        length (buffered_packet_batches t) + (if receives env then 1 else 0) \<and>
      fe_recv env \<noteq> RecvDisconnected \<and> offer_outcome ops fcfg env be \<noteq> Some SendClosed"
    if it: "forwarder_iteration ops fcfg tid env sh t = Ok (sh', t')"
  proof -
    from it obtain be1 t1 m out where r: "?r = Ok (be1, t1)"
      and d: "drain_delayed fcfg env 0 (buffered_packet_batches t1) (fwd_metrics t1) = Ok (buffered_packet_batches t', m, out)"
      and out: "delayed_out sh' = delayed_out sh @ map (\<lambda>(b, at). (tid, b, at)) out"
      by (auto simp: forwarder_iteration_def assms rust_simps)
    have "length (buffered_packet_batches t1) = length out + length (buffered_packet_batches t')"
      using drain_delayed_Ok [OF d] by simp
    with outcome(1) outcome(3) [OF r] r out show ?thesis by auto
  qed
  show "fe_recv env = RecvDisconnected \<or> offer_outcome ops fcfg env be = Some SendClosed \<or>
      0 < length (buffered_packet_batches t) + (if receives env then 1 else 0)"
    if it: "forwarder_iteration ops fcfg tid env sh t = Panic"
  proof (cases ?r)
    case (Ok x)
    obtain be1 t1 where x: "x = (be1, t1)" by (cases x)
    have "buffered_packet_batches t1 \<noteq> []"
    proof
      assume "buffered_packet_batches t1 = []"
      with it Ok x show False by (simp add: forwarder_iteration_def assms)
    qed
    with outcome(3) [OF Ok [unfolded x]] show ?thesis by auto
  qed (use outcome(1,2) in auto)
  show "forwarder_iteration ops fcfg tid env sh t \<noteq> Err e"
  proof
    assume it: "forwarder_iteration ops fcfg tid env sh t = Err e"
    show False
    proof (cases ?r)
      case (Ok x)
      obtain be1 t1 where x: "x = (be1, t1)" by (cases x)
      show False
        using it Ok x drain_delayed_not_Err [of fcfg env 0 "buffered_packet_batches t1" "fwd_metrics t1"]
        by (cases "drain_delayed fcfg env 0 (buffered_packet_batches t1) (fwd_metrics t1)")
          (auto simp: forwarder_iteration_def assms)
    qed (use it outcome(2) in \<open>auto simp: forwarder_iteration_def assms\<close>)
  qed
qed

lemma forwarder_sends:
  "phase_of s ForwarderT = Sending 0 \<Longrightarrow> (0 < n \<Longrightarrow> \<not> receiver_gone cfg s DelayCh) \<Longrightarrow> n \<le> buffered s \<Longrightarrow>
     queued s DelayCh + n \<le> TPU_QUEUE_CAPACITY \<Longrightarrow>
     thread_steps cfg ForwarderT s
       (s\<lparr>phase_of := (phase_of s)(ForwarderT := Head), queued := (queued s)(DelayCh := queued s DelayCh + n),
          buffered := buffered s - n\<rparr>)"
proof (induction n arbitrary: s)
  case 0
  then show ?case by (intro thread_step_single) (simp add: move_simps fun_upd_def)
next
  case (Suc n)
  let ?a = "go_to ForwarderT (Sending 1) s"
  let ?b = "go_to ForwarderT (Sending 0) ((push DelayCh ?a)\<lparr>buffered := buffered s - 1\<rparr>)"
  let ?last = "?b\<lparr>phase_of := (phase_of ?b)(ForwarderT := Head), queued := (queued ?b)(DelayCh := queued ?b DelayCh + n),
      buffered := buffered ?b - n\<rparr>"
  have gone: "\<not> receiver_gone cfg ?a DelayCh" "\<not> receiver_gone cfg ?b DelayCh"
    using Suc.prems(2) by (simp_all add: receiver_gone_def proc_simps)
  have "?a \<in> set (thread_moves cfg ForwarderT s)" using Suc.prems by (simp add: thread_move_defs)
  moreover have "?b \<in> set (thread_moves cfg ForwarderT ?a)"
    using gone(1) Suc.prems by (simp add: move_simps)
  moreover have "thread_steps cfg ForwarderT ?b ?last"
    by (rule Suc.IH) (use gone(2) Suc.prems in \<open>simp_all add: proc_simps\<close>)
  ultimately have "thread_steps cfg ForwarderT s ?last" by (blast intro: thread_steps_Cons)
  moreover have "?last = s\<lparr>phase_of := (phase_of s)(ForwarderT := Head),
      queued := (queued s)(DelayCh := queued s DelayCh + Suc n), buffered := buffered s - Suc n\<rparr>"
    by (rule proc.equality) (simp_all add: proc_simps)
  ultimately show ?case by metis
qed

text \<open>The state after a receive: one batch moved from the channel to the buffer, one offered if it was taken.\<close>

definition after_receive :: "bool \<Rightarrow> bool \<Rightarrow> proc \<Rightarrow> proc" where
  "after_receive received offered s =
     s\<lparr>phase_of := (phase_of s)(ForwarderT := Sending 0),
       queued := (queued s)(VerifiedCh := queued s VerifiedCh - (if received then 1 else 0),
         BlockEngineCh := queued s BlockEngineCh + (if offered then 1 else 0)),
       buffered := buffered s + (if received then 1 else 0)\<rparr>"

lemma forwarder_receives:
  assumes "phase_of s ForwarderT = Body" "received \<Longrightarrow> 0 < queued s VerifiedCh"
    and "received \<and> pc_mempool cfg \<Longrightarrow> \<not> receiver_gone cfg s BlockEngineCh"
    and "offered \<longleftrightarrow> received \<and> pc_mempool cfg \<and> has_room s BlockEngineCh"
  shows "thread_steps cfg ForwarderT s (after_receive received offered s)"
proof (cases received)
  case True
  let ?r = "(take_from VerifiedCh 1 s)\<lparr>buffered := buffered s + 1\<rparr>"
  have recv: "recv_moves cfg VerifiedCh (\<lambda>s'. offer_moves cfg (s'\<lparr>buffered := buffered s' + 1\<rparr>)) (panic_in ForwarderT) s
    = offer_moves cfg ?r"
    using assms(2) True by (simp add: recv_moves_def proc_simps)
  have same: "receiver_gone cfg ?r BlockEngineCh = receiver_gone cfg s BlockEngineCh"
    "has_room ?r BlockEngineCh = has_room s BlockEngineCh"
    by (simp_all add: receiver_gone_def has_room_def proc_simps)
  have "offer_moves cfg ?r = [after_receive True offered s]"
  proof (cases offered)
    case T: True
    have "offer_moves cfg ?r = [go_to ForwarderT (Sending 0) (push BlockEngineCh ?r)]"
      using assms(3,4) True T same by (simp add: offer_moves_def)
    also have "go_to ForwarderT (Sending 0) (push BlockEngineCh ?r) = after_receive True offered s"
      using T by (intro proc.equality) (simp_all add: proc_simps after_receive_def)
    finally show ?thesis .
  next
    case F: False
    have "offer_moves cfg ?r = [go_to ForwarderT (Sending 0) ?r]"
      using assms(3,4) True F same by (auto simp: offer_moves_def)
    also have "go_to ForwarderT (Sending 0) ?r = after_receive True offered s"
      using F by (intro proc.equality) (simp_all add: proc_simps after_receive_def fun_eq_iff)
    finally show ?thesis .
  qed
  with recv assms(1) True have "after_receive received offered s \<in> set (thread_moves cfg ForwarderT s)"
    by (simp add: forwarder_moves_def)
  then show ?thesis by (rule thread_step_single)
next
  case False
  with assms(4) have "after_receive received offered s = go_to ForwarderT (Sending 0) s"
    by (simp add: after_receive_def proc_simps fun_upd_triv)
  moreover have "go_to ForwarderT (Sending 0) s \<in> set (thread_moves cfg ForwarderT s)"
    using assms(1) by (simp add: thread_move_defs)
  ultimately show ?thesis using thread_step_single by metis
qed

lemma forwarder_offer_panics:
  assumes "phase_of s ForwarderT = Body" "0 < queued s VerifiedCh" "pc_mempool cfg" "receiver_gone cfg s BlockEngineCh"
  shows "panic_in ForwarderT ((take_from VerifiedCh 1 s)\<lparr>buffered := buffered s + 1\<rparr>) \<in> set (thread_moves cfg ForwarderT s)"
  using assms by (simp add: thread_move_defs proc_simps)

lemma forwarder_send_panics:
  assumes "phase_of s ForwarderT = Sending 0" "0 < buffered s" "receiver_gone cfg s DelayCh"
  shows "\<exists>s1. thread_steps cfg ForwarderT s s1 \<and> panic_in ForwarderT s1 \<in> set (thread_moves cfg ForwarderT s1)"
proof -
  let ?s = "go_to ForwarderT (Sending 1) s"
  have "?s \<in> set (thread_moves cfg ForwarderT s)" using assms by (simp add: thread_move_defs)
  moreover have "panic_in ForwarderT ?s \<in> set (thread_moves cfg ForwarderT ?s)"
    using assms(3) by (simp add: move_simps receiver_gone_def)
  ultimately show ?thesis using thread_step_single by blast
qed

lemma forwarder_panics:
  assumes "phase_of s ForwarderT = Body" "receives env \<Longrightarrow> 0 < queued s VerifiedCh"
    and "disconnected cfg s VerifiedCh \<or> receives env \<and> pc_mempool cfg \<and> receiver_gone cfg s BlockEngineCh \<or>
      receiver_gone cfg s DelayCh \<and> 0 < buffered s + (if receives env then 1 else 0)"
  shows "\<exists>s1. thread_steps cfg ForwarderT s s1 \<and> (\<exists>s2. panic_in ForwarderT s2 \<in> set (thread_moves cfg ForwarderT s1))"
proof -
  consider "disconnected cfg s VerifiedCh"
    | "receives env" "pc_mempool cfg" "receiver_gone cfg s BlockEngineCh"
    | "receiver_gone cfg s DelayCh" "receives env \<and> pc_mempool cfg \<longrightarrow> \<not> receiver_gone cfg s BlockEngineCh"
      "0 < buffered s + (if receives env then 1 else 0)"
    using assms(3) by (cases "receives env \<and> pc_mempool cfg \<and> receiver_gone cfg s BlockEngineCh") auto
  then show ?thesis
  proof cases
    case 1
    then have "panic_in ForwarderT s \<in> set (thread_moves cfg ForwarderT s)"
      using assms(1) by (simp add: thread_move_defs disconnected_def)
    then show ?thesis using thread_steps_refl by blast
  next
    case 2
    then show ?thesis using forwarder_offer_panics [OF assms(1)] assms(2) thread_steps_refl by blast
  next
    case 3
    let ?o = "receives env \<and> pc_mempool cfg \<and> has_room s BlockEngineCh"
    let ?s = "after_receive (receives env) ?o s"
    have recv: "thread_steps cfg ForwarderT s ?s" by (rule forwarder_receives) (use assms(1,2) 3 in auto)
    have "phase_of ?s ForwarderT = Sending 0" "0 < buffered ?s" "receiver_gone cfg ?s DelayCh"
      using 3 by (simp_all add: after_receive_def receiver_gone_def)
    from forwarder_send_panics [OF this] recv show ?thesis by (blast intro: thread_steps_trans)
  qed
qed

lemma forwarder_thread_outcome:
  fixes ops :: "'s be_ops" and fcfg :: forwarder_config and env :: forwarder_env and sh :: "'s forwarder_shared"
  defines "outcome \<equiv> offer_outcome ops fcfg env (forwarder_shared.be_sender sh)"
  assumes "phase_of s ForwarderT = Body" "buffered s = length (buffered_packet_batches t)"
    "pc_mempool cfg \<longleftrightarrow> \<not> disable_mempool fcfg" "receives env \<Longrightarrow> 0 < queued s VerifiedCh"
    and panic: "forwarder_iteration ops fcfg tid env sh t = Panic \<longrightarrow>
      (if fe_recv env = RecvDisconnected then disconnected cfg s VerifiedCh
       else if outcome = Some SendClosed then receiver_gone cfg s BlockEngineCh
       else receiver_gone cfg s DelayCh)"
    and ok: "\<forall>sh' t'. forwarder_iteration ops fcfg tid env sh t = Ok (sh', t') \<longrightarrow>
      (outcome \<noteq> None \<longrightarrow> \<not> receiver_gone cfg s BlockEngineCh \<and> (has_room s BlockEngineCh \<longleftrightarrow> outcome = Some SendOk)) \<and>
      (length (delayed_out sh) < length (delayed_out sh') \<longrightarrow> \<not> receiver_gone cfg s DelayCh) \<and>
      queued s DelayCh + (length (delayed_out sh') - length (delayed_out sh)) \<le> TPU_QUEUE_CAPACITY"
  shows "case forwarder_iteration ops fcfg tid env sh t of
    Ok (sh', t') \<Rightarrow> thread_steps cfg ForwarderT s
      (s\<lparr>phase_of := (phase_of s)(ForwarderT := Head),
         queued := (queued s)(VerifiedCh := queued s VerifiedCh - (if receives env then 1 else 0),
           BlockEngineCh := queued s BlockEngineCh + (if outcome = Some SendOk then 1 else 0),
           DelayCh := queued s DelayCh + (length (delayed_out sh') - length (delayed_out sh))),
         buffered := length (buffered_packet_batches t')\<rparr>)
  | Err _ \<Rightarrow> False
  | Panic \<Rightarrow> \<exists>s'. thread_steps cfg ForwarderT s s' \<and> phase_of s' ForwarderT = Panicked"
proof -
  have out: "outcome \<noteq> None \<longleftrightarrow> receives env \<and> pc_mempool cfg"
    by (auto simp: outcome_def offer_outcome_def receives_def assms(4) split: recv_timeout.splits)
  show ?thesis
  proof (cases "forwarder_iteration ops fcfg tid env sh t")
    case (Ok x)
    obtain sh' t' where x: "x = (sh', t')" by (cases x)
    note counts = forwarder_iteration_counts(1) [OF refl Ok [unfolded x], folded outcome_def] and ok' = ok [rule_format, OF Ok [unfolded x]]
    let ?n = "length (delayed_out sh') - length (delayed_out sh)"
    let ?s = "after_receive (receives env) (outcome = Some SendOk) s"
    have "thread_steps cfg ForwarderT s ?s"
      by (rule forwarder_receives) (use assms(2,5) ok' out in \<open>auto simp: outcome_def\<close>)
    moreover have "\<not> receiver_gone cfg ?s DelayCh" if "0 < ?n" using ok' that by (simp add: receiver_gone_def after_receive_def)
    then have "thread_steps cfg ForwarderT ?s
        (?s\<lparr>phase_of := (phase_of ?s)(ForwarderT := Head), queued := (queued ?s)(DelayCh := queued ?s DelayCh + ?n),
            buffered := buffered ?s - ?n\<rparr>)"
      by (rule forwarder_sends [rotated]) (use counts ok' assms(3) in \<open>simp_all add: after_receive_def\<close>)
    ultimately have "thread_steps cfg ForwarderT s
        (?s\<lparr>phase_of := (phase_of ?s)(ForwarderT := Head), queued := (queued ?s)(DelayCh := queued ?s DelayCh + ?n),
            buffered := buffered ?s - ?n\<rparr>)" by (rule thread_steps_trans)
    moreover have "buffered ?s - ?n = length (buffered_packet_batches t')"
      using counts assms(3) by (auto simp: after_receive_def split: if_splits)
    ultimately show ?thesis by (simp add: Ok x after_receive_def)
  next
    case (Err e)
    with forwarder_iteration_counts(3) [OF refl] show ?thesis by blast
  next
    case Panic
    have "\<exists>s1. thread_steps cfg ForwarderT s s1 \<and> (\<exists>s2. panic_in ForwarderT s2 \<in> set (thread_moves cfg ForwarderT s1))"
      by (rule forwarder_panics [OF assms(2,5)])
        (use panic [rule_format, OF Panic] forwarder_iteration_counts(2) [OF refl Panic, folded outcome_def] out assms(3) in \<open>auto split: if_splits\<close>)
    then obtain s1 s2 where "thread_steps cfg ForwarderT s s1" "panic_in ForwarderT s2 \<in> set (thread_moves cfg ForwarderT s1)"
      by blast
    then have "thread_steps cfg ForwarderT s (panic_in ForwarderT s2)"
      by (blast intro: thread_steps_trans thread_step_single)
    then show ?thesis by (auto simp: Panic proc_simps)
  qed
qed

text \<open>What an iteration leaves in the block engine's channel, and when it has sent to the relayer.\<close>

lemma drain_delayed_alive:
  "drain_delayed fcfg env i buf m = Ok (buf', m', out) \<Longrightarrow> out \<noteq> [] \<Longrightarrow> fe_relayer_alive env i"
  by (cases buf) (auto split: if_splits)

lemma drain_delayed_Panic: "drain_delayed fcfg env i buf m = Panic \<Longrightarrow> \<exists>j. \<not> fe_relayer_alive env j"
proof (induction fcfg env i buf m rule: drain_delayed.induct)
  case (2 fcfg env i b bs m)
  let ?d = "drain_delayed fcfg env (Suc i) bs
    (m\<lparr>num_relayer_packets_forwarded := num_relayer_packets_forwarded m + sum_len_u64 (rpb_batch b)\<rparr>)"
  from 2 show ?case by (cases ?d) (auto split: if_splits)
qed simp

lemma forwarder_iteration_panics:
  assumes it: "forwarder_iteration ops fcfg tid env sh t = Panic"
  shows "fe_recv env = RecvDisconnected \<or>
    offer_outcome ops fcfg env (forwarder_shared.be_sender sh) = Some SendClosed \<or> (\<exists>i. \<not> fe_relayer_alive env i)"
proof -
  let ?be = "forwarder_shared.be_sender sh"
  let ?r = "receive_batch ops fcfg env ?be (upload_metrics ops env ?be t)"
  show ?thesis
  proof (cases ?r)
    case (Ok x)
    obtain be1 t1 where x: "x = (be1, t1)" by (cases x)
    show ?thesis
      using it Ok x drain_delayed_Panic [of fcfg env 0 "buffered_packet_batches t1" "fwd_metrics t1"]
      by (cases "drain_delayed fcfg env 0 (buffered_packet_batches t1) (fwd_metrics t1)") (auto simp: forwarder_iteration_def)
  qed (use receive_batch_outcome(1,2) [of ops fcfg env ?be "upload_metrics ops env ?be t"] in auto)
qed

lemma forwarder_iteration_sends:
  assumes "mpsc_sender ops accepted" "forwarder_iteration ops fcfg tid env sh t = Ok (sh', t')"
  shows "length (accepted (forwarder_shared.be_sender sh')) - length (accepted (forwarder_shared.be_sender sh)) =
        (if offer_outcome ops fcfg env (forwarder_shared.be_sender sh) = Some SendOk then 1 else 0) \<and>
      (length (delayed_out sh) < length (delayed_out sh') \<longrightarrow> (\<exists>i. fe_relayer_alive env i))"
proof -
  let ?be = "forwarder_shared.be_sender sh"
  let ?r = "receive_batch ops fcfg env ?be (upload_metrics ops env ?be t)"
  have sent: "length (accepted be1) - length (accepted ?be) = (if offer_outcome ops fcfg env ?be = Some SendOk then 1 else 0)"
    if "?r = Ok (be1, t1)" for be1 t1
    using that mpsc_sender.try_send_ok [OF assms(1), of ?be] mpsc_sender.try_send_err [OF assms(1), of ?be]
    by (auto simp: receive_batch_def offer_to_block_engine_def offer_outcome_def rust_simps
        split: recv_timeout.splits if_splits prod.splits send_outcome.splits)
  from assms(2) obtain be1 t1 m out where r: "?r = Ok (be1, t1)"
    and d: "drain_delayed fcfg env 0 (buffered_packet_batches t1) (fwd_metrics t1) = Ok (buffered_packet_batches t', m, out)"
    and sh': "forwarder_shared.be_sender sh' = be1" "delayed_out sh' = delayed_out sh @ map (\<lambda>(b, at). (tid, b, at)) out"
    by (auto simp: forwarder_iteration_def rust_simps)
  from sent [OF r] drain_delayed_alive [OF d] show ?thesis by (auto simp: sh')
qed

text \<open>
  C14: the forwarder of the process is that of \<open>transaction-relayer/src/forwarder.rs\<close>. Let the thread be in its loop
  body, with as many buffered batches as the component and the same setting of the mempool, and let the channels of the
  process be in the state that the component meets: a batch is there if the iteration receives one, the channel is
  disconnected if the component finds it so, a \<open>try_send\<close> to the block engine gives what the process says of that
  channel (closed, taken, full), and the relayer is alive exactly if the receiver of its channel is not gone. If the
  iteration succeeds, and there is room for what it releases, then the thread can move to the head of its loop, with as
  many batches buffered as the component then has, with as many more in the relayer's channel as the component
  released, and as many more in the block engine's as that channel accepted from the component. If the iteration
  panics, then the thread can move to a panic.
\<close>

theorem forwarder_thread_refines:
  fixes ops :: "'s be_ops" and fcfg :: forwarder_config and env :: forwarder_env and sh :: "'s forwarder_shared"
  assumes "mpsc_sender ops accepted"
    and "phase_of s ForwarderT = Body" "buffered s = length (buffered_packet_batches t)"
      "pc_mempool cfg \<longleftrightarrow> \<not> disable_mempool fcfg"
    and "receives env \<Longrightarrow> 0 < queued s VerifiedCh" "fe_recv env = RecvDisconnected \<Longrightarrow> disconnected cfg s VerifiedCh"
    and engine: "\<And>m. fst (try_send ops (forwarder_shared.be_sender sh) m) =
      (if receiver_gone cfg s BlockEngineCh then SendClosed else if has_room s BlockEngineCh then SendOk else SendFull)"
    and alive: "\<And>i. fe_relayer_alive env i \<longleftrightarrow> \<not> receiver_gone cfg s DelayCh"
    and room: "\<And>sh' t'. forwarder_iteration ops fcfg tid env sh t = Ok (sh', t') \<Longrightarrow>
      queued s DelayCh + (length (delayed_out sh') - length (delayed_out sh)) \<le> TPU_QUEUE_CAPACITY"
  shows "case forwarder_iteration ops fcfg tid env sh t of
    Ok (sh', t') \<Rightarrow> thread_steps cfg ForwarderT s
      (s\<lparr>phase_of := (phase_of s)(ForwarderT := Head),
         queued := (queued s)(VerifiedCh := queued s VerifiedCh - (if receives env then 1 else 0),
           BlockEngineCh := queued s BlockEngineCh +
             (length (accepted (forwarder_shared.be_sender sh')) - length (accepted (forwarder_shared.be_sender sh))),
           DelayCh := queued s DelayCh + (length (delayed_out sh') - length (delayed_out sh))),
         buffered := length (buffered_packet_batches t')\<rparr>)
  | Err _ \<Rightarrow> False
  | Panic \<Rightarrow> \<exists>s'. thread_steps cfg ForwarderT s s' \<and> phase_of s' ForwarderT = Panicked"
proof -
  let ?out = "offer_outcome ops fcfg env (forwarder_shared.be_sender sh)"
  note sends = forwarder_iteration_sends [OF assms(1)]
  have out: "?out = (if receives env \<and> pc_mempool cfg
      then Some (if receiver_gone cfg s BlockEngineCh then SendClosed else if has_room s BlockEngineCh then SendOk else SendFull)
      else None)"
    by (auto simp: offer_outcome_def receives_def assms(4) engine split: recv_timeout.splits)
  have open_ends: "(?out \<noteq> None \<longrightarrow> \<not> receiver_gone cfg s BlockEngineCh \<and> (has_room s BlockEngineCh \<longleftrightarrow> ?out = Some SendOk)) \<and>
      (length (delayed_out sh) < length (delayed_out sh') \<longrightarrow> \<not> receiver_gone cfg s DelayCh) \<and>
      queued s DelayCh + (length (delayed_out sh') - length (delayed_out sh)) \<le> TPU_QUEUE_CAPACITY"
    if it: "forwarder_iteration ops fcfg tid env sh t = Ok (sh', t')" for sh' t'
    using forwarder_iteration_counts(1) [OF refl it] sends [OF it] room [OF it] alive
    by (auto simp: out split: if_splits)
  have closed: "if fe_recv env = RecvDisconnected then disconnected cfg s VerifiedCh
       else if ?out = Some SendClosed then receiver_gone cfg s BlockEngineCh else receiver_gone cfg s DelayCh"
    if "forwarder_iteration ops fcfg tid env sh t = Panic"
    using forwarder_iteration_panics [OF that] assms(6) alive by (auto simp: out split: if_splits)
  have "case forwarder_iteration ops fcfg tid env sh t of
    Ok (sh', t') \<Rightarrow> thread_steps cfg ForwarderT s
      (s\<lparr>phase_of := (phase_of s)(ForwarderT := Head),
         queued := (queued s)(VerifiedCh := queued s VerifiedCh - (if receives env then 1 else 0),
           BlockEngineCh := queued s BlockEngineCh + (if ?out = Some SendOk then 1 else 0),
           DelayCh := queued s DelayCh + (length (delayed_out sh') - length (delayed_out sh))),
         buffered := length (buffered_packet_batches t')\<rparr>)
  | Err _ \<Rightarrow> False
  | Panic \<Rightarrow> \<exists>s'. thread_steps cfg ForwarderT s s' \<and> phase_of s' ForwarderT = Panicked"
    by (rule forwarder_thread_outcome) (use assms(2-5) closed open_ends in blast)+
  then show ?thesis using sends by (cases "forwarder_iteration ops fcfg tid env sh t") auto
qed

section \<open>The health manager and the event loop\<close>

text \<open>A slot that is received and passed on, a tick, or a channel that is gone.\<close>

fun health_channels :: "proc_config \<Rightarrow> health_arm \<Rightarrow> proc \<Rightarrow> bool" where
  "health_channels cfg (SlotRecv (Ok sl) sent now) s \<longleftrightarrow>
     0 < queued s SlotCh \<and>
     (if sent then \<not> receiver_gone cfg s DownstreamSlotCh \<and> has_room s DownstreamSlotCh
      else receiver_gone cfg s DownstreamSlotCh)"
| "health_channels cfg (SlotRecv _ sent now) s \<longleftrightarrow> disconnected cfg s SlotCh"
| "health_channels cfg _ s \<longleftrightarrow> True"

definition health_after :: "health_arm \<Rightarrow> proc \<Rightarrow> proc" where
  "health_after arm s =
     go_to HealthManagerT Head
       (case arm of SlotRecv _ _ _ \<Rightarrow> push DownstreamSlotCh (take_from SlotCh 1 s) | _ \<Rightarrow> s)"

lemma health_thread_refines:
  assumes "phase_of s HealthManagerT = Body" "health_channels cfg arm s"
  shows "case health_step thr h (arm, n) of
    Ok _ \<Rightarrow> thread_steps cfg HealthManagerT s (health_after arm s)
  | Err _ \<Rightarrow> False
  | Panic \<Rightarrow> \<exists>s'. thread_steps cfg HealthManagerT s s' \<and> phase_of s' HealthManagerT = Panicked"
proof (cases arm)
  case (SlotRecv r sent now)
  show ?thesis
  proof (cases "\<exists>sl. r = Ok sl")
    case True
    let ?s = "go_to HealthManagerT (Sending 1) (take_from SlotCh 1 s)"
    have recv: "?s \<in> set (thread_moves cfg HealthManagerT s)"
      using assms SlotRecv True by (auto simp: thread_move_defs)
    have "(if sent then go_to HealthManagerT Head (push DownstreamSlotCh ?s) else panic_in HealthManagerT ?s)
      \<in> set (thread_moves cfg HealthManagerT ?s)"
      using assms SlotRecv True by (auto simp: move_simps receiver_gone_def)
    with recv have "thread_steps cfg HealthManagerT s
        (if sent then go_to HealthManagerT Head (push DownstreamSlotCh ?s) else panic_in HealthManagerT ?s)"
      by (blast intro: steps_intro)
    then show ?thesis using True SlotRecv
      by (auto simp: health_step_def health_arm_step_def health_after_def proc_simps split: if_splits)
  next
    case False
    then have "panic_in HealthManagerT s \<in> set (thread_moves cfg HealthManagerT s)"
      using assms SlotRecv by (cases r) (auto simp: thread_move_defs disconnected_def)
    then have "thread_steps cfg HealthManagerT s (panic_in HealthManagerT s)" by (rule thread_step_single)
    with False SlotRecv show ?thesis
      by (cases r) (auto simp: health_step_def health_arm_step_def proc_simps)
  qed
qed (use assms in \<open>auto simp: health_step_def health_arm_step_def health_after_def thread_move_defs intro!: thread_step_single\<close>)

text \<open>The channel an arm of the event loop reads, and whether it received a message.\<close>

fun arm_channel :: "'s relayer_arm \<Rightarrow> (channel \<times> bool) option" where
  "arm_channel (SlotArm r) = Some (DownstreamSlotCh, is_ok r)"
| "arm_channel (DelayPacketArm r) = Some (DelayCh, is_ok r)"
| "arm_channel (SubscriptionArm r) = Some (SubscriptionCh, is_ok r)"
| "arm_channel _ = None"

fun arm_panics :: "'s relayer_arm \<Rightarrow> bool" where
  "arm_panics (SlotArm r) \<longleftrightarrow> r = Panic"
| "arm_panics (DelayPacketArm r) \<longleftrightarrow> r = Panic"
| "arm_panics (SubscriptionArm r) \<longleftrightarrow> r = Panic"
| "arm_panics _ \<longleftrightarrow> False"

lemma relayer_step_outcome:
  fixes arm :: "'s relayer_arm"
  assumes "\<not> arm_panics arm"
  shows "case relayer_step k ops lcfg l (arm, env) of
    Ok _ \<Rightarrow> (\<forall>c ok. arm_channel arm = Some (c, ok) \<longrightarrow> ok \<and> (c = DelayCh \<longrightarrow> validator_packet_batch_size (fwd_config lcfg) \<noteq> 0))
  | Err _ \<Rightarrow> (\<exists>c. arm_channel arm = Some (c, False))
  | Panic \<Rightarrow> arm_channel arm = Some (DelayCh, True) \<and> validator_packet_batch_size (fwd_config lcfg) = 0"
proof (cases arm)
  case (DelayPacketArm r)
  then show ?thesis using assms
    by (cases r) (auto simp: relayer_step_def is_ok_def delay_packet_arm_def forward_packets_def Let_def split: prod.splits)
next
  case (SlotArm r)
  then show ?thesis using assms
    by (cases r) (auto simp: relayer_step_def is_ok_def slot_arm_def update_highest_slot_def Let_def split: prod.splits)
next
  case (SubscriptionArm r)
  then show ?thesis using assms
    by (cases r) (auto simp: relayer_step_def is_ok_def subscription_arm_def handle_subscription_def
        split: prod.splits subscription.splits option.splits)
qed (auto simp: relayer_step_def heartbeat_arm_def metrics_arm_def Let_def split: prod.splits)

definition relayer_after :: "'s relayer_arm \<Rightarrow> proc \<Rightarrow> proc" where
  "relayer_after arm s =
     go_to RelayerLoopT Head (case arm_channel arm of Some (c, _) \<Rightarrow> take_from c 1 s | None \<Rightarrow> s)"

lemma relayer_thread_refines:
  fixes arm :: "'s relayer_arm"
  assumes "phase_of s RelayerLoopT = Body" "\<not> arm_panics arm"
    and "pc_batches cfg \<longleftrightarrow> validator_packet_batch_size (fwd_config lcfg) \<noteq> 0"
    and "\<And>c. arm_channel arm = Some (c, True) \<Longrightarrow> 0 < queued s c"
      "\<And>c. arm_channel arm = Some (c, False) \<Longrightarrow> disconnected cfg s c"
  shows "case relayer_step k ops lcfg l (arm, env) of
    Ok _ \<Rightarrow> thread_steps cfg RelayerLoopT s (relayer_after arm s)
  | Err _ \<Rightarrow> thread_steps cfg RelayerLoopT s (go_to RelayerLoopT Stopped s)
  | Panic \<Rightarrow> \<exists>s'. thread_steps cfg RelayerLoopT s s' \<and> phase_of s' RelayerLoopT = Panicked"
proof -
  have chan: "c \<in> {DownstreamSlotCh, DelayCh, SubscriptionCh}" if "arm_channel arm = Some (c, b)" for c b
    using that by (cases arm) auto
  note out = relayer_step_outcome [OF assms(2), where k = k and ops = ops and lcfg = lcfg and l = l and env = env]
  show ?thesis
  proof (cases "relayer_step k ops lcfg l (arm, env)")
    case (Ok l')
    have "relayer_after arm s \<in> set (thread_moves cfg RelayerLoopT s)"
    proof (cases "arm_channel arm")
      case (Some cb)
      with out Ok obtain c where c: "arm_channel arm = Some (c, True)"
        "c = DelayCh \<longrightarrow> pc_batches cfg" by (cases cb) (auto simp: assms(3))
      with assms(1,4) chan [OF c(1)] show ?thesis by (auto simp: thread_move_defs relayer_after_def)
    qed (use assms(1) in \<open>simp add: thread_move_defs relayer_after_def\<close>)
    then show ?thesis by (simp add: Ok thread_step_single)
  next
    case (Err e)
    with out obtain c where "arm_channel arm = Some (c, False)" by auto
    with assms(1,5) chan have "go_to RelayerLoopT Stopped s \<in> set (thread_moves cfg RelayerLoopT s)"
      by (fastforce simp: thread_move_defs disconnected_def)
    then show ?thesis by (simp add: Err thread_step_single)
  next
    case Panic
    with out have "arm_channel arm = Some (DelayCh, True)" "\<not> pc_batches cfg" by (simp_all add: assms(3))
    with assms(1,4) have "panic_in RelayerLoopT (take_from DelayCh 1 s) \<in> set (thread_moves cfg RelayerLoopT s)"
      by (simp add: thread_move_defs)
    from thread_step_single [OF this] show ?thesis by (auto simp: Panic proc_simps)
  qed
qed

section \<open>Concrete iterations\<close>

definition demo_fetching :: proc where
  "demo_fetching =
     process_start\<lparr>phase_of := (phase_of process_start)(FetchStageT := Body), queued := (\<lambda>_. 0)(ForwardsCh := 2)\<rparr>"

lemma chan_send_open: "send_packet_batches chan_send c bs = Ok t \<Longrightarrow> ch_closed t = ch_closed c"
  by (induction bs arbitrary: c) (auto simp: chan_send_def split: option.splits if_splits)

theorem fetch_thread_refines_witness:
  "\<exists>f'. fetch_step chan_send demo_fetch (hd demo_fetch_envs) = Ok f' \<and> fetch_queue f' = [] \<and>
     thread_steps demo_proc_config FetchStageT demo_fetching
       (demo_fetching\<lparr>phase_of := (phase_of demo_fetching)(FetchStageT := Head),
          queued := (queued demo_fetching)(ForwardsCh := 0, TpuCh := 2)\<rparr>)"
proof -
  have "case fetch_step chan_send demo_fetch (hd demo_fetch_envs) of
      Ok f' \<Rightarrow> fetch_queue f' = [] \<and> length (ch_log (fetch_sender f')) = 2 | _ \<Rightarrow> False"
    by (simp add: demo_fetch_def demo_fetch_envs_def fetch_step_def handle_forwarded_packets_def fetch_metrics_def
        demo_packet_def chan_send_def chan_new_def Let_def)
  then obtain f' where f': "fetch_step chan_send demo_fetch (hd demo_fetch_envs) = Ok f'" "fetch_queue f' = []"
    "length (ch_log (fetch_sender f')) = 2" by (auto split: result.splits)
  have q: "queued demo_fetching ForwardsCh = length (fetch_queue demo_fetch @ fe_arrived (hd demo_fetch_envs))"
    by (simp add: demo_fetching_def demo_fetch_def demo_fetch_envs_def)
  have start: "phase_of demo_fetching FetchStageT = Body" "queued demo_fetching TpuCh = 0" "queued demo_fetching ForwardsCh \<noteq> 0"
    "ch_log (fetch_sender demo_fetch) = []" "\<not> ch_closed (fetch_sender demo_fetch)"
    "\<not> receiver_gone demo_proc_config demo_fetching TpuCh"
    by (simp_all add: receiver_gone_def demo_fetching_def demo_fetch_def chan_new_def process_start_def)
  have "\<forall>bs t m. send_packet_batches chan_send (fetch_sender demo_fetch) bs = Ok t \<longrightarrow>
      (chan_send t m = None \<longleftrightarrow> receiver_gone demo_proc_config demo_fetching TpuCh)"
    using chan_send_open start(5,6) by (auto simp: chan_send_def)
  from fetch_thread_refines [OF crossbeam_chan.blocking_sender_axioms start(1) q _ this] start f' show ?thesis
    by (simp add: TPU_QUEUE_CAPACITY_def numeral_2_eq_2)
qed

definition demo_fthread :: forwarder_thread where
  "demo_fthread = fwd_threads demo_fstart ! 0"

theorem forwarder_thread_refines_witness:
  "\<exists>sh t. forwarder_iteration chan_ops demo_fcfg 0 (demo_fenv (Received [[]]) 0) (fwd_shared demo_fstart) demo_fthread = Ok (sh, t) \<and>
     length (buffered_packet_batches t) = 1 \<and>
     thread_steps demo_proc_config ForwarderT one_verified
       (one_verified\<lparr>phase_of := (phase_of one_verified)(ForwarderT := Head),
          queued := (queued one_verified)(VerifiedCh := 0, BlockEngineCh := 1, DelayCh := 0), buffered := 1\<rparr>)"
proof -
  let ?env = "demo_fenv (Received [[]]) 0"
  have run: "case forwarder_iteration chan_ops demo_fcfg 0 ?env (fwd_shared demo_fstart) demo_fthread of
      Ok (sh, t) \<Rightarrow> length (buffered_packet_batches t) = 1 \<and> delayed_out sh = [] \<and>
        length (ch_log (forwarder_shared.be_sender sh)) = 1 | _ \<Rightarrow> False"
    by (simp add: forwarder_eval demo_fthread_def)
  then obtain sh t where it: "forwarder_iteration chan_ops demo_fcfg 0 ?env (fwd_shared demo_fstart) demo_fthread = Ok (sh, t)"
    "length (buffered_packet_batches t) = 1" "delayed_out sh = []" "length (ch_log (forwarder_shared.be_sender sh)) = 1"
    by (auto split: result.splits)
  have open_ends: "\<not> receiver_gone demo_proc_config one_verified BlockEngineCh" "has_room one_verified BlockEngineCh"
    "\<not> receiver_gone demo_proc_config one_verified DelayCh"
    by (simp_all add: receiver_gone_def has_room_def one_verified_def process_start_def demo_proc_config_def
        BLOCK_ENGINE_FORWARDER_QUEUE_CAPACITY_def)
  have start: "phase_of one_verified ForwarderT = Body" "buffered one_verified = length (buffered_packet_batches demo_fthread)"
    "pc_mempool demo_proc_config \<longleftrightarrow> \<not> disable_mempool demo_fcfg" "0 < queued one_verified VerifiedCh"
    "queued one_verified DelayCh = 0" "queued one_verified VerifiedCh = 1" "queued one_verified BlockEngineCh = 0"
    by (simp_all add: one_verified_def process_start_def demo_proc_config_def demo_fcfg_def demo_fthread_def demo_fstart_def
        start_forward_and_delay_thread_def)
  have recv: "receives ?env" by (simp add: receives_def demo_fenv_def)
  have chans: "fe_recv ?env \<noteq> RecvDisconnected" "fe_relayer_alive ?env i"
    "fst (try_send chan_ops (forwarder_shared.be_sender (fwd_shared demo_fstart)) m) = SendOk"
    "ch_log (forwarder_shared.be_sender (fwd_shared demo_fstart)) = []" "delayed_out (fwd_shared demo_fstart) = []" for i m
    by (simp_all add: forwarder_eval)
  have "thread_steps demo_proc_config ForwarderT one_verified
       (one_verified\<lparr>phase_of := (phase_of one_verified)(ForwarderT := Head),
          queued := (queued one_verified)(VerifiedCh := 0, BlockEngineCh := 1, DelayCh := 0), buffered := 1\<rparr>)"
    using forwarder_thread_refines [OF bounded_chan.mpsc_sender_axioms start(1-3), where tid = 0 and env = ?env and sh = "fwd_shared demo_fstart"]
      start open_ends chans it recv by (simp add: TPU_QUEUE_CAPACITY_def)
  with it show ?thesis by blast
qed

end
