(* ===== verification/Reports.thy ===== *)
theory Reports
  imports Forwarder Block_Engine_Stats Fetch_Stage Witness_Data
begin

text \<open>
  The data points the components hand to the metrics client: \<open>RelayerMetrics::report\<close> (\<open>relayer/src/relayer.rs\<close>),
  \<open>ForwarderMetrics::report\<close> (\<open>transaction-relayer/src/forwarder.rs\<close>), \<open>BlockEngineStats::report\<close>
  (\<open>block_engine/src/block_engine_stats.rs\<close>), and the channel statistics of the fetch stage and the health
  manager. The histograms are those of an external crate: their queries are arguments.
\<close>

section \<open>Data points\<close>

datatype metric_value = I64Value int | StringValue string

record datapoint =
  dp_name :: string
  dp_tags :: "(string \<times> string) list"
  dp_fields :: "(string \<times> metric_value) list"

text \<open>\<open>("name", value, i64)\<close> casts the value with \<open>as i64\<close>.\<close>

definition i64_field :: "string \<Rightarrow> u64 \<Rightarrow> string \<times> metric_value" where
  "i64_field name v = (name, I64Value (sint v))"

text \<open>The queries of a histogram fail when it is empty; the percentile is given in percent.\<close>

record hist_ops =
  hist_minimum :: "u64 list \<Rightarrow> u64 option"
  hist_maximum :: "u64 list \<Rightarrow> u64 option"
  hist_percentile :: "nat \<Rightarrow> u64 list \<Rightarrow> u64 option"

definition unwrap_or_default :: "u64 option \<Rightarrow> u64" where
  "unwrap_or_default x = (case x of None \<Rightarrow> 0 | Some v \<Rightarrow> v)"

definition percentile_or_0 :: "hist_ops \<Rightarrow> nat \<Rightarrow> u64 list \<Rightarrow> u64" where
  "percentile_or_0 h p xs = unwrap_or_default (hist_percentile h p xs)"

section \<open>The relayer\<close>

definition validator_point :: "sdk \<Rightarrow> pubkey \<times> packet_forward_stats \<Rightarrow> datapoint" where
  "validator_point k entry =
     (case entry of (pubkey, stats) \<Rightarrow>
        \<lparr>dp_name = ''relayer_validator_metrics'', dp_tags = [(''pubkey'', pubkey_to_string k pubkey)],
         dp_fields =
           [i64_field ''num_packets_forwarded'' (num_packets_forwarded stats),
            i64_field ''num_packets_dropped'' (num_packets_dropped stats)]\<rparr>)"

definition relayer_point :: "hist_ops \<Rightarrow> relayer_metrics \<Rightarrow> datapoint" where
  "relayer_point h m =
     \<lparr>dp_name = ''relayer_metrics'', dp_tags = [], dp_fields =
      [i64_field ''highest_slot'' (highest_slot m),
       i64_field ''num_added_connections'' (num_added_connections m),
       i64_field ''num_removed_connections'' (num_removed_connections m),
       i64_field ''num_current_connections'' (num_current_connections m),
       i64_field ''num_heartbeats'' (num_heartbeats m),
       i64_field ''num_try_send_channel_full'' (num_try_send_channel_full m),
       i64_field ''metrics_latency_us'' (metrics_latency_us m),
       i64_field ''max_heartbeat_tick_latency_us'' (max_heartbeat_tick_latency_us m),
       i64_field ''packet_latencies_us_min'' (unwrap_or_default (hist_minimum h (packet_latencies_us m))),
       i64_field ''packet_latencies_us_max'' (unwrap_or_default (hist_maximum h (packet_latencies_us m))),
       i64_field ''packet_latencies_us_p50'' (percentile_or_0 h 50 (packet_latencies_us m)),
       i64_field ''packet_latencies_us_p90'' (percentile_or_0 h 90 (packet_latencies_us m)),
       i64_field ''packet_latencies_us_p99'' (percentile_or_0 h 99 (packet_latencies_us m)),
       i64_field ''crossbeam_subscription_receiver_processing_us_p50'' (percentile_or_0 h 50 (subscription_receiver_processing_us m)),
       i64_field ''crossbeam_subscription_receiver_processing_us_p90'' (percentile_or_0 h 90 (subscription_receiver_processing_us m)),
       i64_field ''crossbeam_subscription_receiver_processing_us_p99'' (percentile_or_0 h 99 (subscription_receiver_processing_us m)),
       i64_field ''crossbeam_slot_receiver_processing_us_p50'' (percentile_or_0 h 50 (slot_receiver_processing_us m)),
       i64_field ''crossbeam_slot_receiver_processing_us_p90'' (percentile_or_0 h 90 (slot_receiver_processing_us m)),
       i64_field ''crossbeam_slot_receiver_processing_us_p99'' (percentile_or_0 h 99 (slot_receiver_processing_us m)),
       i64_field ''crossbeam_metrics_tick_processing_us_p50'' (percentile_or_0 h 50 (metrics_tick_processing_us m)),
       i64_field ''crossbeam_metrics_tick_processing_us_p90'' (percentile_or_0 h 90 (metrics_tick_processing_us m)),
       i64_field ''crossbeam_metrics_tick_processing_us_p99'' (percentile_or_0 h 99 (metrics_tick_processing_us m)),
       i64_field ''crossbeam_delay_packet_receiver_processing_us_p50'' (percentile_or_0 h 50 (delay_packet_receiver_processing_us m)),
       i64_field ''crossbeam_delay_packet_receiver_processing_us_p90'' (percentile_or_0 h 90 (delay_packet_receiver_processing_us m)),
       i64_field ''crossbeam_delay_packet_receiver_processing_us_p99'' (percentile_or_0 h 99 (delay_packet_receiver_processing_us m)),
       i64_field ''crossbeam_heartbeat_tick_processing_us_p50'' (percentile_or_0 h 50 (heartbeat_tick_processing_us m)),
       i64_field ''crossbeam_heartbeat_tick_processing_us_p90'' (percentile_or_0 h 90 (heartbeat_tick_processing_us m)),
       i64_field ''crossbeam_heartbeat_tick_processing_us_p99'' (percentile_or_0 h 99 (heartbeat_tick_processing_us m)),
       i64_field ''slot_receiver_len'' (slot_receiver_max_len m),
       i64_field ''slot_receiver_capacity'' (slot_receiver_capacity m),
       i64_field ''subscription_receiver_len'' (subscription_receiver_max_len m),
       i64_field ''subscription_receiver_capacity'' (subscription_receiver_capacity m),
       i64_field ''delay_packet_receiver_len'' (delay_packet_receiver_max_len m),
       i64_field ''delay_packet_receiver_capacity'' (delay_packet_receiver_capacity m),
       i64_field ''packet_subscriptions_total_queued'' (packet_subscriptions_total_queued m)]\<rparr>"

definition relayer_report :: "sdk \<Rightarrow> hist_ops \<Rightarrow> relayer_metrics \<Rightarrow> datapoint list" where
  "relayer_report k h m = map (validator_point k) (packet_stats_per_validator m) @ [relayer_point h m]"

section \<open>The forwarder\<close>

definition forwarder_report :: "u64 \<Rightarrow> u32 \<Rightarrow> forwarder_metrics \<Rightarrow> datapoint" where
  "forwarder_report thread_id delay m =
     \<lparr>dp_name = ''forwarder_metrics'', dp_tags = [], dp_fields =
      [i64_field ''thread_id'' thread_id,
       i64_field ''delay'' (ucast delay),
       i64_field ''num_batches_received'' (num_batches_received m),
       i64_field ''num_packets_received'' (forwarder_metrics.num_packets_received m),
       i64_field ''num_be_packets_forwarded'' (num_be_packets_forwarded m),
       i64_field ''num_be_packets_dropped'' (num_be_packets_dropped m),
       i64_field ''num_be_sender_full'' (num_be_sender_full m),
       i64_field ''num_relayer_packets_forwarded'' (num_relayer_packets_forwarded m),
       i64_field ''buffered_packet_batches_len'' (buffered_packet_batches_max_len m),
       i64_field ''buffered_packet_batches_capacity'' (buffered_packet_batches_capacity m),
       i64_field ''verified_receiver_len'' (verified_receiver_max_len m),
       i64_field ''verified_receiver_capacity'' (verified_receiver_capacity m),
       i64_field ''block_engine_sender_len'' (block_engine_sender_max_len m),
       i64_field ''block_engine_sender_capacity'' (block_engine_sender_capacity m)]\<rparr>"

section \<open>The block engine connection\<close>

definition block_engine_report :: "block_engine_stats \<Rightarrow> datapoint" where
  "block_engine_report m =
     \<lparr>dp_name = ''block_engine_relayer-loop_stats'', dp_tags = [], dp_fields =
      [i64_field ''heartbeat_count'' (heartbeat_count m),
       i64_field ''heartbeat_elapsed_us'' (heartbeat_elapsed_us m),
       i64_field ''aoi_update_count'' (aoi_update_count m),
       i64_field ''aoi_update_elapsed_us'' (aoi_update_elapsed_us m),
       i64_field ''aoi_accounts_received'' (aoi_accounts_received m),
       i64_field ''poi_update_count'' (poi_update_count m),
       i64_field ''poi_update_elapsed_us'' (poi_update_elapsed_us m),
       i64_field ''poi_accounts_received'' (poi_accounts_received m),
       i64_field ''num_packets_received'' (block_engine_stats.num_packets_received m),
       i64_field ''packet_filter_elapsed_us'' (packet_filter_elapsed_us m),
       i64_field ''packet_forward_elapsed_us'' (packet_forward_elapsed_us m),
       i64_field ''block_engine_packet_sender_len'' (block_engine_packet_sender_len m),
       i64_field ''auth_refresh_count'' (auth_refresh_count m),
       i64_field ''refresh_auth_elapsed_us'' (refresh_auth_elapsed_us m),
       i64_field ''packet_forward_count'' (packet_forward_count m),
       i64_field ''metrics_delay_us'' (metrics_delay_us m),
       i64_field ''accounts_of_interest_len'' (accounts_of_interest_len m),
       i64_field ''programs_of_interest_len'' (programs_of_interest_len m),
       i64_field ''flush_elapsed_us'' (flush_elapsed_us m)]\<rparr>"

section \<open>Channel statistics\<close>

text \<open>The entries of \<open>fetch_reports\<close> are the two queue lengths.\<close>

definition fetch_report :: "u64 \<Rightarrow> u64 \<Rightarrow> nat \<times> nat \<Rightarrow> datapoint" where
  "fetch_report sender_capacity receiver_capacity lens =
     (case lens of (sender_len, receiver_len) \<Rightarrow>
        \<lparr>dp_name = ''fetch_stage-channel_stats'', dp_tags = [], dp_fields =
         [i64_field ''tpu_sender_len'' (word_of_nat sender_len),
          i64_field ''tpu_sender_capacity'' sender_capacity,
          i64_field ''tpu_forwards_receiver_len'' (word_of_nat receiver_len),
          i64_field ''tpu_forwards_receiver_capacity'' receiver_capacity]\<rparr>)"

definition health_report :: "health_state \<Rightarrow> datapoint" where
  "health_report state =
     \<lparr>dp_name = ''relayer-health-state'', dp_tags = [],
      dp_fields = [i64_field ''health_state'' (case state of Unhealthy \<Rightarrow> 0 | Healthy \<Rightarrow> 1)]\<rparr>"

definition health_channel_report :: "u64 \<Rightarrow> nat \<Rightarrow> datapoint" where
  "health_channel_report sender_capacity max_len =
     \<lparr>dp_name = ''health_manager-channel_stats'', dp_tags = [], dp_fields =
      [i64_field ''slot_sender_len'' (word_of_nat max_len), i64_field ''slot_sender_capacity'' sender_capacity]\<rparr>"

section \<open>Well-formed points\<close>

text \<open>A counter below \<open>2 ^ 63\<close> is reported as it is.\<close>

lemma sint_below:
  assumes "unat v < 2 ^ 63"
  shows "sint (v :: u64) = int (unat v)"
proof -
  have u: "int (unat v) < 2 ^ 63" using assms by (metis of_nat_less_iff of_nat_numeral of_nat_power)
  have l: "- (2 ^ 63) \<le> int n" for n
  proof -
    have "- (2 ^ 63) \<le> (0 :: int)" by simp
    then show ?thesis using of_nat_0_le_iff [of n] order_trans by blast
  qed
  have "signed_take_bit 63 (int (unat v)) = int (unat v)"
    by (rule signed_take_bit_int_eq_self [OF l u])
  then show ?thesis by (simp add: sint_uint)
qed

lemma i64_field_small: "unat v < 2 ^ 63 \<Longrightarrow> i64_field name v = (name, I64Value (int (unat v)))"
  by (simp add: i64_field_def sint_below)

text \<open>A well-formed point: its field names are distinct and every value is an integer of 64 bits.\<close>

fun i64_ok :: "metric_value \<Rightarrow> bool" where
  "i64_ok (I64Value i) = (- (2 ^ 63) \<le> i \<and> i < 2 ^ 63)"
| "i64_ok (StringValue _) = False"

definition point_ok :: "datapoint \<Rightarrow> bool" where
  "point_ok p \<longleftrightarrow> distinct (map fst (dp_fields p)) \<and> list_all (i64_ok \<circ> snd) (dp_fields p)"

lemma i64_field_ok [simp]: "fst (i64_field n v) = n" "i64_ok (snd (i64_field n v))"
  using sint_ge [of v] sint_lt [of v] by (simp_all add: i64_field_def)

lemma points_ok:
  "point_ok (validator_point k e)" "point_ok (forwarder_report thread_id delay f)" "point_ok (block_engine_report b)"
  "point_ok (fetch_report sc rc lens)" "point_ok (health_report st)" "point_ok (health_channel_report c n)"
  by (simp_all add: point_ok_def validator_point_def forwarder_report_def block_engine_report_def fetch_report_def
      health_report_def health_channel_report_def split: prod.splits)

lemma relayer_point_ok: "point_ok (relayer_point h m)"
  by (simp add: point_ok_def relayer_point_def)

lemma relayer_report_ok: "list_all point_ok (relayer_report k h m)"
  by (auto simp: relayer_report_def list_all_iff points_ok relayer_point_ok)

end
