(* ===== verification/Ofac_Tests.thy ===== *)
theory Ofac_Tests
  imports Ofac Witness_Data
begin

text \<open>
  The unit tests of \<open>core/src/ofac.rs\<close>, run on the model of the functions they test. A test is the list of the
  conditions it asserts. Keys come from outside (\<open>Keypair::new\<close>, \<open>Pubkey::new_unique\<close>): a test takes them as
  arguments, and the statement holds for all keys that are distinct, not only for those of one run. Building
  a transaction or a packet is Solana's business; what the tests rely on is the interface \<open>tx_building\<close>.
\<close>

section \<open>What the tests build\<close>

record account_meta =
  am_pubkey :: pubkey
  am_is_signer :: bool
  am_is_writable :: bool

record instruction =
  ix_program_id :: pubkey
  ix_data :: bytes
  ix_accounts :: "account_meta list"

record compiled_instruction =
  program_id_index :: u8
  ci_accounts :: "u8 list"
  ci_data :: bytes

record v0_message =
  num_required_signatures :: u8
  num_readonly_signed_accounts :: u8
  num_readonly_unsigned_accounts :: u8
  v0_account_keys :: "pubkey list"
  v0_address_table_lookups :: "message_lookup list"
  v0_instructions :: "compiled_instruction list"

text \<open>
  \<open>Transaction::new_signed_with_payer\<close> for a payer who is the only signer, \<open>VersionedTransaction::try_new\<close> for a
  \<open>V0\<close> message signed by one key, and \<open>Packet::from_data(None, ..)\<close>.
\<close>

record tx_builder =
  new_signed_with_payer :: "instruction list \<Rightarrow> pubkey \<Rightarrow> versioned_tx"
  try_new :: "v0_message \<Rightarrow> pubkey \<Rightarrow> versioned_tx option"
  from_data :: "versioned_tx \<Rightarrow> packet option"

definition instruction_keys :: "instruction \<Rightarrow> pubkey set" where
  "instruction_keys ix = insert (ix_program_id ix) (am_pubkey ` set (ix_accounts ix))"

locale tx_building =
  fixes k :: sdk and b :: tx_builder
  assumes static_keys: "set (static_account_keys (new_signed_with_payer b ixs payer)) =
      insert payer (\<Union> (instruction_keys ` set ixs))"
    and no_lookups: "address_table_lookups (new_signed_with_payer b ixs payer) = None"
    and message_kept: "payer \<in> set (v0_account_keys m) \<Longrightarrow>
      \<exists>tx. try_new b m payer = Some tx \<and> address_table_lookups tx = Some (v0_address_table_lookups m)"
    and packet_kept: "\<exists>p. from_data b (new_signed_with_payer b [ix] payer) = Some p \<and>
      deserialize_slice k p = Some (new_signed_with_payer b [ix] payer)"

section \<open>The tests\<close>

definition one_account :: "pubkey \<Rightarrow> pubkey \<Rightarrow> bool \<Rightarrow> instruction" where
  "one_account program account writable =
     \<lparr>ix_program_id = program, ix_data = [0],
      ix_accounts = [\<lparr>am_pubkey = account, am_is_signer = False, am_is_writable = writable\<rparr>]\<rparr>"

text \<open>\<open>u i\<close> is the \<open>i\<close>-th key that \<open>Pubkey::new_unique\<close> returns.\<close>

definition test_is_ofac_address_in_static_keys :: "tx_builder \<Rightarrow> pubkey \<Rightarrow> pubkey \<Rightarrow> (nat \<Rightarrow> pubkey) \<Rightarrow> bool list" where
  "test_is_ofac_address_in_static_keys b ofac_pubkey payer u =
     (let ofac_addresses = {ofac_pubkey};
          random = new_signed_with_payer b [one_account (u 0) (u 1) False] payer;
          as_writable = new_signed_with_payer b [one_account (u 2) ofac_pubkey True] payer;
          as_readonly = new_signed_with_payer b [one_account (u 3) ofac_pubkey False] payer;
          as_signer = new_signed_with_payer b [one_account (u 4) (u 5) True] ofac_pubkey
      in [\<not> is_ofac_address_in_static_keys random ofac_addresses,
          is_ofac_address_in_static_keys as_writable ofac_addresses,
          is_ofac_address_in_static_keys as_readonly ofac_addresses,
          is_ofac_address_in_static_keys as_signer ofac_addresses])"

definition lookup_message :: "pubkey \<Rightarrow> pubkey \<Rightarrow> pubkey \<Rightarrow> u8 list \<Rightarrow> u8 list \<Rightarrow> u8 list \<Rightarrow> v0_message" where
  "lookup_message payer program table writable readonly accounts =
     \<lparr>num_required_signatures = 1, num_readonly_signed_accounts = 0, num_readonly_unsigned_accounts = 0,
      v0_account_keys = [payer, program],
      v0_address_table_lookups =
        [\<lparr>account_key = table, writable_indexes = writable, readonly_indexes = readonly\<rparr>],
      v0_instructions = [\<lparr>program_id_index = 1, ci_accounts = accounts, ci_data = []\<rparr>]\<rparr>"

text \<open>\<open>expect("valid tx")\<close> panics on \<open>None\<close>.\<close>

definition test_is_ofac_address_in_lookup_table ::
  "tx_builder \<Rightarrow> pubkey \<Rightarrow> pubkey \<Rightarrow> (nat \<Rightarrow> pubkey) \<Rightarrow> (bool list, unit) result" where
  "test_is_ofac_address_in_lookup_table b ofac_pubkey payer u =
     (let ofac_addresses = {ofac_pubkey};
          table = u 0;
          cache = [table \<mapsto> \<lparr>table_key = table, addresses = [ofac_pubkey, u 1]\<rparr>]
      in and_then (unwrap (try_new b (lookup_message payer (u 2) table [] [0] [0]) payer)) (\<lambda>readonly.
         and_then (unwrap (try_new b (lookup_message payer (u 3) table [0] [] [0]) payer)) (\<lambda>writable.
         and_then (unwrap (try_new b (lookup_message payer (u 4) table [1] [] [1]) payer)) (\<lambda>proximate.
           Ok [is_ofac_address_in_lookup_table readonly ofac_addresses cache,
               is_ofac_address_in_lookup_table writable ofac_addresses cache,
               \<not> is_ofac_address_in_lookup_table proximate ofac_addresses cache]))))"

definition test_discard_ofac_packets ::
  "sdk \<Rightarrow> tx_builder \<Rightarrow> pubkey \<Rightarrow> pubkey \<Rightarrow> (nat \<Rightarrow> pubkey) \<Rightarrow> (bool list, unit) result" where
  "test_discard_ofac_packets k b ofac_pubkey payer u =
     (let ofac_addresses = {ofac_pubkey};
          random_tx = new_signed_with_payer b [one_account (u 0) (u 1) False] payer;
          ofac_tx = new_signed_with_payer b [one_account (u 2) ofac_pubkey True] payer
      in and_then (unwrap (from_data b random_tx)) (\<lambda>random_packet.
         and_then (unwrap (from_data b ofac_tx)) (\<lambda>ofac_packet.
         and_then (unwrap (deserialize_slice k random_packet)) (\<lambda>tx1.
         and_then (unwrap (deserialize_slice k ofac_packet)) (\<lambda>tx2.
           Ok [\<not> is_tx_ofac_related tx1 ofac_addresses Map.empty,
               is_tx_ofac_related tx2 ofac_addresses Map.empty])))))"

section \<open>They pass\<close>

lemma static_keys_check: "is_ofac_address_in_static_keys tx ofac \<longleftrightarrow> set (static_account_keys tx) \<inter> ofac \<noteq> {}"
  by (auto simp: is_ofac_address_in_static_keys_def list_ex_iff)

context tx_building
begin

lemma one_account_keys:
  "set (static_account_keys (new_signed_with_payer b [one_account program account w] payer)) = {payer, program, account}"
  by (simp add: static_keys instruction_keys_def one_account_def)

lemma static_keys_test:
  assumes "ofac_pubkey \<noteq> payer" "\<And>i. u i \<noteq> ofac_pubkey"
  shows "list_all id (test_is_ofac_address_in_static_keys b ofac_pubkey payer u)"
  using assms by (auto simp: test_is_ofac_address_in_static_keys_def static_keys_check one_account_keys)

lemma lookup_table_test:
  assumes "\<And>i. u i \<noteq> ofac_pubkey"
  shows "\<exists>rs. test_is_ofac_address_in_lookup_table b ofac_pubkey payer u = Ok rs \<and> list_all id rs"
proof -
  have msg: "\<exists>tx. try_new b (lookup_message payer p t ws rs as) payer = Some tx \<and>
      address_table_lookups tx = Some [\<lparr>account_key = t, writable_indexes = ws, readonly_indexes = rs\<rparr>]" for p t ws rs as
    using message_kept [of payer "lookup_message payer p t ws rs as"] by (simp add: lookup_message_def)
  obtain t1 t2 t3 where
    "try_new b (lookup_message payer (u 2) (u 0) [] [0] [0]) payer = Some t1"
    "address_table_lookups t1 = Some [\<lparr>account_key = u 0, writable_indexes = [], readonly_indexes = [0]\<rparr>]"
    "try_new b (lookup_message payer (u 3) (u 0) [0] [] [0]) payer = Some t2"
    "address_table_lookups t2 = Some [\<lparr>account_key = u 0, writable_indexes = [0], readonly_indexes = []\<rparr>]"
    "try_new b (lookup_message payer (u 4) (u 0) [1] [] [1]) payer = Some t3"
    "address_table_lookups t3 = Some [\<lparr>account_key = u 0, writable_indexes = [1], readonly_indexes = []\<rparr>]"
    using msg by metis
  then show ?thesis
    using assms [of 1]
    by (simp add: test_is_ofac_address_in_lookup_table_def is_ofac_address_in_lookup_table_def unwrap_def slice_get_def
        Let_def)
qed

lemma packets_test:
  assumes "ofac_pubkey \<noteq> payer" "\<And>i. u i \<noteq> ofac_pubkey"
  shows "\<exists>rs. test_discard_ofac_packets k b ofac_pubkey payer u = Ok rs \<and> list_all id rs"
proof -
  obtain p where p: "from_data b (new_signed_with_payer b [one_account (u 0) (u 1) False] payer) = Some p"
    "deserialize_slice k p = Some (new_signed_with_payer b [one_account (u 0) (u 1) False] payer)"
    using packet_kept by blast
  obtain q where q: "from_data b (new_signed_with_payer b [one_account (u 2) ofac_pubkey True] payer) = Some q"
    "deserialize_slice k q = Some (new_signed_with_payer b [one_account (u 2) ofac_pubkey True] payer)"
    using packet_kept by blast
  show ?thesis
    using assms by (auto simp: test_discard_ofac_packets_def Let_def p [unfolded One_nat_def] q unwrap_def is_tx_ofac_related_def
        static_keys_check one_account_keys is_ofac_address_in_lookup_table_def no_lookups)
qed

end

text \<open>
  The unit tests of the OFAC check pass, whatever keys they draw, as long as the listed key is none of the
  others: static keys (not mentioned, writable, read-only, signer), lookup tables (read-only, writable, in the
  table but not referenced), and packets.
\<close>

lemma ofac_tests_pass:
  assumes "tx_building k b" "ofac_pubkey \<noteq> payer" "\<forall>i. u i \<noteq> ofac_pubkey"
  shows "list_all id (test_is_ofac_address_in_static_keys b ofac_pubkey payer u) \<and>
    (\<exists>rs. test_is_ofac_address_in_lookup_table b ofac_pubkey payer u = Ok rs \<and> list_all id rs) \<and>
    (\<exists>rs. test_discard_ofac_packets k b ofac_pubkey payer u = Ok rs \<and> list_all id rs)"
  using tx_building.static_keys_test [OF assms(1,2)] tx_building.lookup_table_test [OF assms(1)]
    tx_building.packets_test [OF assms(1,2)] assms(3) by blast

section \<open>A builder\<close>

text \<open>
  A builder that meets the interface: keys are listed in the order they come, and a packet carries the keys
  of its transaction one after another, in unary.
\<close>

definition encode_keys :: "pubkey list \<Rightarrow> bytes" where
  "encode_keys ks = concat (map (\<lambda>k. replicate (unat k) 0 @ [1]) ks)"

fun decode_keys :: "nat \<Rightarrow> bytes \<Rightarrow> pubkey list" where
  "decode_keys n [] = []"
| "decode_keys n (b # bs) = (if b = 1 then word_of_nat n # decode_keys 0 bs else decode_keys (Suc n) bs)"

lemma decode_key: "decode_keys n (replicate m 0 @ 1 # bs) = word_of_nat (n + m) # decode_keys 0 bs"
  by (induction m arbitrary: n) simp_all

lemma decode_encode_keys: "decode_keys 0 (encode_keys ks) = ks"
proof (induction ks)
  case (Cons k ks)
  have "encode_keys (k # ks) = replicate (unat k) 0 @ 1 # encode_keys ks" by (simp add: encode_keys_def)
  with Cons show ?case by (simp add: decode_key)
qed (simp add: encode_keys_def)

definition demo_builder :: tx_builder where
  "demo_builder =
     \<lparr>new_signed_with_payer = (\<lambda>ixs payer.
        \<lparr>static_account_keys = payer # concat (map (\<lambda>ix. ix_program_id ix # map am_pubkey (ix_accounts ix)) ixs),
         address_table_lookups = None, tx_payload = []\<rparr>),
      try_new = (\<lambda>m payer.
        if payer \<in> set (v0_account_keys m)
        then Some \<lparr>static_account_keys = v0_account_keys m,
          address_table_lookups = Some (v0_address_table_lookups m), tx_payload = []\<rparr>
        else None),
      from_data = (\<lambda>tx. Some (demo_packet (encode_keys (static_account_keys tx))))\<rparr>"

definition builder_sdk :: sdk where
  "builder_sdk = demo_sdk\<lparr>deserialize_slice := (\<lambda>p.
     Some \<lparr>static_account_keys = decode_keys 0 (buffer p), address_table_lookups = None, tx_payload = []\<rparr>)\<rparr>"

interpretation demo_building: tx_building builder_sdk demo_builder
  by unfold_locales
    (auto simp: demo_builder_def builder_sdk_def instruction_keys_def demo_packet_def decode_encode_keys)

lemma ofac_tests_pass_example:
  "list_all id (test_is_ofac_address_in_static_keys demo_builder 1 2 (\<lambda>i. if i = 0 then 3 else 4)) \<and>
   (\<exists>rs. test_discard_ofac_packets builder_sdk demo_builder 1 2 (\<lambda>i. if i = 0 then 3 else 4) = Ok rs \<and> list_all id rs)"
  using ofac_tests_pass [OF demo_building.tx_building_axioms, of 1 2 "\<lambda>i. if i = 0 then 3 else 4"] by simp

end
