(* ===== verification/Spec2Isabelle.thy ===== *)
theory Spec2Isabelle
  imports Relayer_Theorems Component_Theorems Forwarder_Theorems Load_Balancer_Theorems Auth_Theorems
    Block_Engine_Theorems Startup_Theorems Web_Status Packet_Blaster_Setup Process_Refinement Reports Ofac_Tests
begin

text \<open>
  A verification of the transaction relayer (the workspace under \<open>src/\<close>). The relayer stands between the
  network and block-producing validators: it receives transaction packets, offers them at once to a block
  engine, holds them back for a short delay, and then streams them to the validators that are about to be
  leader.

  \<^bold>\<open>The program and its model.\<close> A Rust struct is a record, an enum a datatype; \<open>u64\<close> and the other machine
  integers are words, with wrapping or saturating addition as in the source; \<open>Result\<close> is
  \<open>('a, 'e) result\<close> with a third case for a panic; a \<open>HashMap\<close> is a list of entries without an order anyone may
  rely on; an \<open>Instant\<close>, a \<open>Duration\<close> and a \<open>SystemTime\<close> are nanoseconds. A thread that loops over \<open>select!\<close> or over
  a receive is a step function, run over the list of the events that the environment delivers
  (\<open>run_loop\<close> in \<open>Relayer_Prelude\<close>); an event carries the received value and every reading of a clock or of a
  shared variable that the arm makes. All statements quantify over all such lists, so no bound on the
  length of a run, on times or on sizes is assumed. A run ends in an error or a panic where the thread does.
  Third-party functions (the Solana SDK, tokio channels, the cache, queue, JWT, signature and time crates,
  remote services) are arguments, collected in records; what is relied upon is an interface:
  \<^item> \<open>hash_map\<close>, \<open>event_loop\<close> (\<open>Relayer_Prelude\<close>), \<open>mpsc_sender\<close> (\<open>Channels\<close>) and \<open>blocking_sender\<close> (\<open>Fetch_Stage\<close>);
  \<^item> \<open>keyed_queue\<close>, \<open>challenge_store\<close>, \<open>token_scheme\<close> and \<open>auth_service\<close> (\<open>Auth_Challenges\<close>, \<open>Auth_Claims\<close>, \<open>Auth_System\<close>);
  \<^item> \<open>timed_cache\<close> (\<open>Interest_Filter\<close>) and \<open>be_connection\<close> (\<open>Block_Engine_Props\<close>);
  \<^item> \<open>tx_building\<close> (\<open>Ofac_Tests\<close>).
  Each is interpreted, and its laws discharged, by a concrete implementation, on which the witnesses run.

  \<^bold>\<open>Receiving.\<close> \<open>Startup\<close> models \<open>transaction-relayer/src/main.rs\<close>: the arguments and their defaults, \<open>get_sockets\<close>,
  the checks and the configuration handed to each part (\<open>startup\<close>), \<open>is_authorized\<close>, and the thread that
  refreshes the cache of address lookup tables; the files it reads are an argument. \<open>Fetch_Stage\<close> and \<open>Staked_Nodes\<close> are \<open>core/src/fetch_stage.rs\<close> and
  \<open>core/src/staked_nodes_updater_service.rs\<close>; \<open>Tpu_Assembly\<close> is \<open>core/src/tpu.rs\<close>: the QUIC servers with their limits
  and the queues between them, the fetch stage and the signature verification. \<open>Startup_Theorems\<close>: the sockets are bound to the configured ranges, which
  do not overlap, and the ports told to validators are theirs less the QUIC offset, in turn; a refresh makes the cache
  exactly the tables on chain, and no state that a reader can see on the way hides a table that was and stays there;
  the fetch stage refines a FIFO queue; the stake table is that of an answer.

  \<^bold>\<open>Forwarding.\<close> \<open>Forwarder\<close> is \<open>transaction-relayer/src/forwarder.rs\<close>, with every interleaving of the iterations of its threads;
  \<open>Forwarder_Theorems\<close>: each thread releases what it received, in order, not before the delay, and leaves no due
  batch behind; the block engine is offered a subsequence.

  \<^bold>\<open>Serving validators.\<close> \<open>Packets\<close>, \<open>Std_Text\<close> and \<open>Ofac\<close> hold packets, their protobuf form
  (\<open>jito-protos/src/convert.rs\<close>), the text forms of addresses and the OFAC check (\<open>core/src/ofac.rs\<close>), whose unit
  tests are \<open>Ofac_Tests\<close>;
  \<open>Schedule_Cache\<close>, \<open>Health_Manager\<close> and \<open>Load_Balancer\<close> are \<open>relayer/src/schedule_cache.rs\<close>,
  \<open>relayer/src/health_manager.rs\<close> and \<open>rpc/src/load_balancer.rs\<close>, the last as a transition system in which the
  subscription threads interleave. \<open>Relayer_Core\<close> is \<open>relayer/src/relayer.rs\<close>: metrics, handlers, the event loop
  and the gRPC calls; \<open>Relayer_Forwarding\<close> gives \<open>forward_packets\<close> a closed form, \<open>Relayer_Props\<close> the invariants.
  \<open>Relayer_Theorems\<close>, \<open>Component_Theorems\<close> and \<open>Load_Balancer_Theorems\<close>: what a validator's stream carries over a
  whole run, delivery and accounting, who is disconnected and when, targets, health, schedule, slots.

  \<^bold>\<open>Authentication.\<close> \<open>Auth_Claims\<close>, \<open>Auth_Challenges\<close> and \<open>Auth_Service\<close> are \<open>relayer/src/auth_interceptor.rs\<close>,
  \<open>auth_challenges.rs\<close> and \<open>auth_service.rs\<close>; \<open>Auth_System\<close> interleaves requests and sweeps: a
  challenge request is admitted by the capacity check in one step and writes the store in another, with any other
  calls between them. \<open>Auth_Theorems\<close>: every token goes back to a challenge that the service drew for that key at that
  address and to a signature over it; a validator that is approved and answers in time gets its tokens and is let in;
  challenges are used once; the queue exceeds its capacity by less than the number of concurrent calls; the sweep returns;
  but the interceptor ignores expiration, and any token can be renewed without end.

  \<^bold>\<open>The block engine.\<close> \<open>Interest_Filter\<close>, \<open>Block_Engine_Auth\<close>, \<open>Block_Engine_Stats\<close> and \<open>Block_Engine\<close> are
  \<open>block_engine/src/block_engine.rs\<close> and \<open>block_engine_stats.rs\<close>: the filter over expiring caches of accounts of
  interest, the authentication client, the counters, the event loop, connecting and reconnecting.
  \<open>Block_Engine_Theorems\<close>: the filter is exact up to entries that expire while it runs; everything on the
  stream is justified by what the block engine asked for; the watchdog; the refresh of the tokens; the flag.

  \<^bold>\<open>The process.\<close> \<open>Process\<close> puts the threads together: which threads \<open>main\<close> starts, the channels between them with
  their capacities, the exit flag, the panic hook (\<open>core/src/lib.rs\<close>), the gRPC server and its handlers, the web
  server, the sweep of the challenges, the signal and the joins of \<open>transaction-relayer/src/main.rs\<close>. \<open>process_config_of\<close>
  computes from the setup and from \<open>surroundings\<close> (the calls that arrive, whether the addresses can be bound, the sessions
  of the block engine) which tasks meet a panic of the component models. A state records where each thread is in its loop and how many messages each
  channel holds; a step is one move of one thread, so all interleavings are covered. \<open>Process_Props\<close> has the
  invariants, \<open>Process_Shutdown\<close> the measure and the absence of deadlock, \<open>Process_Theorems\<close> the properties: the
  exact conditions, in terms of arguments and surroundings, under which the relayer can die without a signal, that every
  shutdown ends, that an idle relayer ends with an error, and that every panic has one of the listed reasons. \<open>Process_Refinement\<close> ties these threads to the component models: what an iteration of
  the fetch stage, a forwarder, the health manager or the event loop does, its thread in the process can do, with
  the same panics and the same numbers of messages taken and accepted; \<open>chan_senders_of_tpu\<close> does so for the channel ends.

  \<^bold>\<open>Metrics.\<close> \<open>Reports\<close> holds the data points of the \<open>report\<close> functions and of the fetch stage and the health
  manager, and shows that they lose no counter.

  \<^bold>\<open>The load generator.\<close> \<open>Packet_Blaster\<close> and \<open>Packet_Blaster_Setup\<close> are \<open>packet_blaster/src/main.rs\<close>: source addresses,
  the three ways of sending, the loop of a thread and the airdrop helper; arguments, key files, endpoints and
  the start of the threads. \<open>Packet_Blaster_Theorems\<close>: no two threads share a loopback address; the amounts sent
  differ over Quinn and repeat over the QUIC client.

  \<^bold>\<open>The system.\<close> \<open>Web_Status\<close> is \<open>web/src/lib.rs\<close>. This theory relates the parts: the OFAC list from the command
  line to both outputs, the batches from signature verification through the forwarder to a validator's stream (nothing else gets there, and
  what is due does get there),
  the validators that are served to the authentication service and the configured list, the status endpoints to the threads they report on.

  \<^bold>\<open>Bounds and fuel.\<close> No definition uses fuel. The sweep of expired challenges is a partial function that is
  proved to return; draining the receiver and the loops over batches terminate by a measure; the length of a
  shutdown is bounded by \<open>process_weight\<close>. The time limits and capacities (30 s watchdog, 5 min token threshold,
  1000 and 5000 message queues, 10000 batches per TPU queue, 1024 packets per fetch) are those of the source.

  \<^bold>\<open>Not modelled.\<close> \<open>jito-protos\<close> is generated, apart from \<open>convert.rs\<close>. In \<open>Process\<close> Solana's QUIC servers and signature
  verification and the gRPC server appear only as far as they send, receive and stop; whether an address can be
  bound is a parameter, and the time the panic hook sleeps is not measured. An iteration of a forwarder and a call of
  \<open>forward_packets\<close> or \<open>filter_packets\<close> are single steps: they read one state of the shared lookup cache. The drawing of
  random characters, the parsing of key files and the enforcement of the HTTP rate limit belong to other crates and
  are parameters or left out, as are log lines and the host id of the metrics. Thread names and the values of the \<open>datapoint_error!\<close> calls are not represented.
\<close>

section \<open>OFAC filtering from the command line to both outputs\<close>

text \<open>A packet made from a received one whose transaction has no static key in the set.\<close>

definition static_clean :: "sdk \<Rightarrow> pubkey set \<Rightarrow> proto_packet \<Rightarrow> bool" where
  "static_clean k listed q \<longleftrightarrow>
     (\<exists>p tx. packet_to_proto_packet k p = Some q \<and> deserialize_slice k p = Some tx \<and>
        set (static_account_keys tx) \<inter> listed = {})"

definition update_packets :: "packet_batch_update \<Rightarrow> proto_packet list" where
  "update_packets u =
     (case u of Batches m \<Rightarrow> (case epb_batch m of Some b \<Rightarrow> batch_packets b | None \<Rightarrow> []) | BeHeartbeat _ \<Rightarrow> [])"

lemma static_cleanI:
  "packet_to_proto_packet k p = Some q \<Longrightarrow> deserialize_slice k p = Some tx \<Longrightarrow>
    named_accounts cache tx \<inter> listed = {} \<Longrightarrow> static_clean k listed q"
  unfolding static_clean_def named_accounts_def by blast

lemma clean_message_static:
  assumes "clean_message k cfg es r" "ofac_addresses (fwd_config cfg) \<noteq> {}" "q \<in> set (response_packets r)"
  shows "static_clean k (ofac_addresses (fwd_config cfg)) q"
proof -
  have "\<not> is_heartbeat r"
    using assms(3) by (auto simp: is_heartbeat_def response_packets_def heartbeat_response_def)
  with assms(1) obtain rpb :: relayer_packet_batches and env :: loop_env
    where "clean_batch k (fwd_config cfg) (env_lookup env) (rpb_batch rpb) r"
    unfolding clean_message_def by blast
  with assms(3) obtain p where "ofac_clean k (ofac_addresses (fwd_config cfg)) (env_lookup env) p"
    "packet_to_proto_packet k p = Some q" unfolding clean_batch_def by blast
  with assms(2) show ?thesis unfolding ofac_clean_def by (blast intro: static_cleanI)
qed

lemma in_wanted_packets:
  assumes "q \<in> set (wanted_packets k cache ofac w A P bs)"
  shows "static_clean k ofac q"
proof -
  from assms obtain p where "wanted k cache ofac w A P p" "packet_to_proto_packet k p = Some q"
    by (auto simp: wanted_packets_def List.map_filter_def)
  then show ?thesis
    by (auto simp: wanted_def tx_wanted_def split: option.splits intro: static_cleanI)
qed

lemma update_justified_static:
  assumes "update_justified k ofac es u" "q \<in> set (update_packets u)"
  shows "static_clean k ofac q"
proof -
  from assms obtain m where m: "u = Batches m" "batch_justified k ofac es m"
    by (auto simp: update_justified_def update_packets_def split: packet_batch_update.splits)
  from m(2) obtain b :: block_engine_packets and out and e :: "be_arm \<times> be_env" where "m = \<lparr>epb_header = Some \<lparr>header_ts = Some (bep_stamp b)\<rparr>,
      epb_batch = Some \<lparr>batch_packets = out\<rparr>, epb_expiry_ms = bep_expiration b\<rparr>"
    and out: "subseq out (wanted_packets k (bee_lookup (snd e)) ofac (wildcard es) (named_aoi k es) (named_poi k es)
      (bep_batch b))"
    unfolding batch_justified_def by blast
  with assms(2) have "q \<in> set out" by (simp add: update_packets_def m)
  with subseq_set [OF out] show ?thesis by (blast intro: in_wanted_packets)
qed

text \<open>
  C1: the OFAC list given on the command line holds for everything the relayer sends. Whatever the
  environment does, if the event loop of the relayer and the connection to the block engine run with the
  configuration that startup derived from the arguments, then no packet that a validator's channel or the
  block engine's stream has accepted was made from a transaction with a listed account among its static
  keys.
\<close>

theorem ofac_end_to_end:
  assumes "startup bind local_port lookup files sched a = Ok su" "arg_ofac_addresses a = Some listed" "listed \<noteq> []"
    and "mpsc_sender ops accepted" "fwd_config cfg = su_forwarding su" "run_event_loop k ops cfg es = Ok s"
      "hm_get (packet_subscriptions s) pk = Some c'"
    and "timed_cache (be_cache_ops bcfg) stamps lifespan" "mpsc_sender (be_sender_ops bcfg) be_accepted"
      "be_ofac bcfg = su_block_engine_ofac su" "handle_packet_stream bcfg str bes = Ok bs"
      "stamps (str_cache str) = Map.empty"
  shows "(\<exists>c env new. (SubscriptionArm (Ok (ValidatorPacketSubscription pk c)), env) \<in> set es \<and>
      accepted c' = accepted c @ new \<and> (\<forall>r\<in>set new. list_all (static_clean k (set listed)) (response_packets r))) \<and>
    (\<exists>us. be_accepted (be_sender bs) = be_accepted (str_sender str) @ us \<and>
      (\<forall>u\<in>set us. list_all (static_clean (be_sdk bcfg) (set listed)) (update_packets u)))"
proof
  have su: "ofac_addresses (su_forwarding su) = set listed" "su_block_engine_ofac su = set listed"
    using assms(1,2) by (auto simp: startup_def ofac_addresses_of_def rust_simps split: if_splits)
  have run: "run_loop (relayer_step k ops cfg) (relayer_init cfg) es = Ok s"
    using assms(6) by (simp add: run_event_loop_def)
  from relayer_run_stream [OF assms(4) run relayer_inv_init assms(7)] obtain c new where
    c: "opened es (relayer_init cfg) pk c" "accepted c' = accepted c @ new" "\<forall>r\<in>set new. clean_message k cfg es r"
    by blast
  from c(1) obtain env where env: "(SubscriptionArm (Ok (ValidatorPacketSubscription pk c)), env) \<in> set es"
    by (auto simp: opened_def relayer_init_def)
  have "\<forall>r\<in>set new. list_all (static_clean k (set listed)) (response_packets r)"
    using c(3) clean_message_static assms(3) su(1) by (force simp: list_all_iff assms(5))
  with env c(2) show "\<exists>c env new. (SubscriptionArm (Ok (ValidatorPacketSubscription pk c)), env) \<in> set es \<and>
      accepted c' = accepted c @ new \<and> (\<forall>r\<in>set new. list_all (static_clean k (set listed)) (response_packets r))"
    by blast
  note conn = be_connection.intro [OF assms(8,9)]
  from be_connection.handle_packet_stream_ok [OF conn assms(11,12)] obtain us where
    us: "be_accepted (be_sender bs) = be_accepted (str_sender str) @ us"
      "be_connection.sent_ok bcfg bes us (be_heartbeat_count bs)" by blast
  then have "\<forall>u\<in>set us. update_justified (be_sdk bcfg) (set listed) bes u"
    by (simp add: be_connection.sent_ok_def [OF conn] assms(10) su)
  then have "\<forall>u\<in>set us. list_all (static_clean (be_sdk bcfg) (set listed)) (update_packets u)"
    using update_justified_static by (fastforce simp: list_all_iff)
  with us(1) show "\<exists>us. be_accepted (be_sender bs) = be_accepted (str_sender str) @ us \<and>
      (\<forall>u\<in>set us. list_all (static_clean (be_sdk bcfg) (set listed)) (update_packets u))" by blast
qed

definition demo_args :: args where
  "demo_args = (args_default ''k'' ''s'' ''v'')\<lparr>arg_ofac_addresses := Some [2], arg_validator_packet_batch_size := 1\<rparr>"

lemma demo_args_startup:
  "case startup demo_bind Some (Some (V4 0x0A000001)) demo_files [] demo_args of
     Ok su \<Rightarrow> su_forwarding su = demo_fwd_config \<and> su_block_engine_ofac su = {2} | _ \<Rightarrow> False"
  by (simp add: startup_def staked_nodes_overrides_def token_keys_def demo_files_def resolve_public_ip_def demo_args_def args_default_def unwrap_def is_ipv4_def is_loopback_def
      get_sockets_def u16_MAX_def checked_add_def u16_range_def demo_bind_def Let_def drop_bit_eq_div
      ofac_addresses_of_def demo_fwd_config_def)

theorem ofac_end_to_end_witness:
  "\<exists>su s c' bs. startup demo_bind Some (Some (V4 0x0A000001)) demo_files [] demo_args = Ok su \<and>
     run_event_loop demo_sdk chan_ops demo_loop_config demo_events = Ok s \<and> hm_get (packet_subscriptions s) 7 = Some c' \<and>
     handle_packet_stream demo_be_config demo_stream demo_be_events = Ok bs \<and>
     (\<exists>c env new. (SubscriptionArm (Ok (ValidatorPacketSubscription 7 c)), env) \<in> set demo_events \<and>
        ch_log c' = ch_log c @ new \<and> (\<forall>r\<in>set new. list_all (static_clean demo_sdk (set [2])) (response_packets r))) \<and>
     (\<exists>us. ch_log (be_sender bs) = ch_log (str_sender demo_stream) @ us \<and>
        (\<forall>u\<in>set us. list_all (static_clean (be_sdk demo_be_config) (set [2])) (update_packets u)))"
proof -
  from demo_args_startup obtain su where
    su: "startup demo_bind Some (Some (V4 0x0A000001)) demo_files [] demo_args = Ok su" "su_forwarding su = demo_fwd_config"
      "su_block_engine_ofac su = {2}" by (auto split: result.splits)
  obtain s where s: "run_event_loop demo_sdk chan_ops demo_loop_config demo_events = Ok s"
    "connected_validators (packet_subscriptions s) = [7]" by (rule demo_run)
  then obtain c' where c': "hm_get (packet_subscriptions s) 7 = Some c'"
    by (cases "packet_subscriptions s") (auto simp: connected_validators_def hm_keys_def hm_get_def)
  from demo_stream_runs obtain bs where bs: "handle_packet_stream demo_be_config demo_stream demo_be_events = Ok bs"
    by (auto split: result.splits)
  have be: "timed_cache (be_cache_ops demo_be_config) map_of (from_secs 300)"
    "mpsc_sender (be_sender_ops demo_be_config) ch_log" "map_of (str_cache demo_stream) = Map.empty"
    "be_ofac demo_be_config = su_block_engine_ofac su"
    by (simp_all add: alist_be_config_def alist_cache.timed_cache_axioms bounded_chan.mpsc_sender_axioms demo_stream_def su)
  have a: "arg_ofac_addresses demo_args = Some [2]" "[2] \<noteq> ([] :: pubkey list)"
    "fwd_config demo_loop_config = su_forwarding su"
    by (simp_all add: demo_args_def demo_loop_config_def su)
  note safe = ofac_end_to_end [OF su(1) a(1,2) bounded_chan.mpsc_sender_axioms a(3) s(1) c' be(1,2,4) bs be(3)]
  show ?thesis
    by (rule exI [of _ su], rule exI [of _ s], rule exI [of _ c'], rule exI [of _ bs],
        rule conjI [OF su(1) conjI [OF s(1) conjI [OF c' conjI [OF bs safe]]]])
qed

text \<open>
  A listed account that a transaction names only through a lookup table passes when the cache is empty, as it
  is for ever unless the refresher is enabled.
\<close>

lemma ofac_tables_unchecked:
  "is_tx_ofac_related tx ofac Map.empty \<longleftrightarrow> set (static_account_keys tx) \<inter> ofac \<noteq> {}"
  "startup bind local_port lookup files sched (args_default kp sk vk) = Ok su \<Longrightarrow> su_refresher su = None"
proof -
  show "is_tx_ofac_related tx ofac Map.empty \<longleftrightarrow> set (static_account_keys tx) \<inter> ofac \<noteq> {}"
    by (simp add: is_tx_ofac_related_iff named_accounts_def loaded_accounts_def split: option.split)
  show "startup bind local_port lookup files sched (args_default kp sk vk) = Ok su \<Longrightarrow> su_refresher su = None"
    by (auto simp: startup_def args_default_def rust_simps split: if_splits)
qed

section \<open>From the verified batches to the validators\<close>

text \<open>The batches that the relayer's event loop takes from the delay channel.\<close>

definition delayed_batches :: "('s relayer_arm \<times> loop_env) list \<Rightarrow> relayer_packet_batches list" where
  "delayed_batches es =
     List.map_filter (\<lambda>(arm, _). case arm of DelayPacketArm (Ok b) \<Rightarrow> Some b | _ \<Rightarrow> None) es"

lemma in_delayed_batches: "(DelayPacketArm (Ok b), env) \<in> set es \<Longrightarrow> b \<in> set (delayed_batches es)"
  by (force simp: delayed_batches_def List.map_filter_def)

lemma in_received_batches:
  "b \<in> set (received_batches tid es) \<Longrightarrow>
     \<exists>env batch. (tid, env) \<in> set es \<and> fe_recv env = Received batch \<and> b = \<lparr>rpb_stamp = fe_instant env, rpb_batch = batch\<rparr>"
  by (induction tid es rule: received_batches.induct) (auto split: recv_timeout.splits if_splits)

lemma delayed_out_threads:
  "run_loop (forwarder_step ops cfg) f es = Ok f' \<Longrightarrow>
     \<forall>(i, b, at)\<in>set (delayed_out (fwd_shared f)). i < length (fwd_threads f) \<Longrightarrow>
     \<forall>(i, b, at)\<in>set (delayed_out (fwd_shared f')). i < length (fwd_threads f)"
proof (induction rule: run_loop_induct)
  case (Cons s e t es s')
  obtain i env where e: "e = (i, env)" by (cases e)
  from Cons.hyps(1) [unfolded e] have step: "length (fwd_threads t) = length (fwd_threads s) \<and>
    (\<forall>(i, b, at)\<in>set (delayed_out (fwd_shared t)). i < length (fwd_threads s))"
  proof (cases rule: forwarder_step_Ok)
    case (2 sh th)
    from 2(2) obtain out where "delayed_out sh = delayed_out (fwd_shared s) @ map (\<lambda>(b, at). (i, b, at)) out"
      by (auto simp: forwarder_iteration_def rust_simps)
    with 2 Cons.prems show ?thesis by auto
  qed (use Cons.prems in auto)
  show ?case by (rule Cons.IH [unfolded conjunct1 [OF step], OF conjunct2 [OF step]])
qed simp

lemma delayed_out_received:
  assumes "run_loop (forwarder_step ops cfg) (start_forward_and_delay_thread ops be n caps starts) es = Ok f"
    and "(tid, b, at) \<in> set (delayed_out (fwd_shared f))"
  shows "b \<in> set (received_batches tid es) \<and> packet_delay cfg \<le> elapsed at (rpb_stamp b)"
proof -
  let ?f = "start_forward_and_delay_thread ops be n caps starts"
  have start: "delayed_out (fwd_shared ?f) = []" "length (fwd_threads ?f) = unat n"
    by (simp_all add: start_forward_and_delay_thread_def)
  with delayed_out_threads [OF assms(1)] assms(2) have tid: "tid < unat n" by auto
  with forwarder_run_fifo [OF assms(1), of tid] start
  have "released tid (fwd_shared f) @ buffered_packet_batches (fwd_threads f ! tid) = received_batches tid es"
    by (simp add: released_def start_forward_and_delay_thread_def)
  then have "set (released tid (fwd_shared f)) \<subseteq> set (received_batches tid es)" by (metis set_append sup_ge1)
  moreover have "b \<in> set (released tid (fwd_shared f))" using assms(2) by (force simp: released_def)
  ultimately show ?thesis using forwarder_run_delay [OF assms(1)] start(1) assms(2) by auto
qed

text \<open>
  C9: the path of a packet through the relayer. Take the forwarding threads and the event loop with the
  configuration that startup derived from the arguments, and let the event loop take batches from the delay
  channel in the order in which the threads put them there. Then everything that a validator's channel has
  accepted since it was registered is a heartbeat, or a non-empty batch of at most the configured size, all of
  whose packets belong to one batch that a forwarding thread had received from the signature verification and
  released no sooner than the packet delay of the command line after receiving it; none of the packets was
  marked to be discarded or OFAC-related when it was forwarded.
\<close>

theorem pipeline_end_to_end:
  assumes "startup bind local_port lookup files sched a = Ok su"
    and "run_loop (forwarder_step fops (su_forwarder su)) (start_forward_and_delay_thread fops be n caps starts) fes = Ok f"
    and "fwd_config cfg = su_forwarding su" "mpsc_sender ops accepted" "run_event_loop k ops cfg es = Ok s"
      "hm_get (packet_subscriptions s) pk = Some c'"
    and "prefix (delayed_batches es) (map (fst \<circ> snd) (delayed_out (fwd_shared f)))"
  shows "\<exists>c env new. (SubscriptionArm (Ok (ValidatorPacketSubscription pk c)), env) \<in> set es \<and>
    accepted c' = accepted c @ new \<and>
    (\<forall>r\<in>set new. is_heartbeat r \<or>
      length (response_packets r) \<in> {1..arg_validator_packet_batch_size a} \<and>
      (\<exists>tid fenv batch at env. (tid, fenv) \<in> set fes \<and> fe_recv fenv = Received batch \<and>
         from_millis (unat (arg_packet_delay_ms a)) \<le> elapsed at (fe_instant fenv) \<and>
         (DelayPacketArm (Ok \<lparr>rpb_stamp = fe_instant fenv, rpb_batch = batch\<rparr>), env) \<in> set es \<and>
         clean_batch k (su_forwarding su) (env_lookup env) batch r))"
proof -
  have su: "packet_delay (su_forwarder su) = from_millis (unat (arg_packet_delay_ms a))"
    "validator_packet_batch_size (su_forwarding su) = arg_validator_packet_batch_size a"
    using assms(1) by (auto simp: startup_def packet_delay_def rust_simps split: if_splits)
  have run: "run_loop (relayer_step k ops cfg) (relayer_init cfg) es = Ok s"
    using assms(5) by (simp add: run_event_loop_def)
  from relayer_run_stream [OF assms(4) run relayer_inv_init assms(6)] obtain c new where
    c: "opened es (relayer_init cfg) pk c" "accepted c' = accepted c @ new" "\<forall>r\<in>set new. clean_message k cfg es r"
    by blast
  from c(1) obtain env where env: "(SubscriptionArm (Ok (ValidatorPacketSubscription pk c)), env) \<in> set es"
    by (auto simp: opened_def relayer_init_def)
  have "length (response_packets r) \<in> {1..arg_validator_packet_batch_size a} \<and>
      (\<exists>tid fenv batch at env. (tid, fenv) \<in> set fes \<and> fe_recv fenv = Received batch \<and>
         from_millis (unat (arg_packet_delay_ms a)) \<le> elapsed at (fe_instant fenv) \<and>
         (DelayPacketArm (Ok \<lparr>rpb_stamp = fe_instant fenv, rpb_batch = batch\<rparr>), env) \<in> set es \<and>
         clean_batch k (su_forwarding su) (env_lookup env) batch r)"
    if "clean_message k cfg es r" "\<not> is_heartbeat r" for r
  proof -
    from that obtain rpb and lenv :: loop_env where rpb: "(DelayPacketArm (Ok rpb), lenv) \<in> set es"
      "clean_batch k (su_forwarding su) (env_lookup lenv) (rpb_batch rpb) r"
      by (auto simp: clean_message_def assms(3))
    have "rpb \<in> set (map (fst \<circ> snd) (delayed_out (fwd_shared f)))"
      using set_mono_prefix [OF assms(7)] in_delayed_batches [OF rpb(1)] by blast
    then obtain tid at where out: "(tid, rpb, at) \<in> set (delayed_out (fwd_shared f))" by auto
    note got = delayed_out_received [OF assms(2) out, unfolded su(1)]
    from in_received_batches [OF conjunct1 [OF got]] obtain fenv batch where
      fenv: "(tid, fenv) \<in> set fes" "fe_recv fenv = Received batch" "rpb = \<lparr>rpb_stamp = fe_instant fenv, rpb_batch = batch\<rparr>"
      by blast
    with got rpb(2) have "from_millis (unat (arg_packet_delay_ms a)) \<le> elapsed at (fe_instant fenv)"
      "clean_batch k (su_forwarding su) (env_lookup lenv) batch r" by simp_all
    with fenv rpb(1) have "\<exists>tid fenv batch at env. (tid, fenv) \<in> set fes \<and> fe_recv fenv = Received batch \<and>
         from_millis (unat (arg_packet_delay_ms a)) \<le> elapsed at (fe_instant fenv) \<and>
         (DelayPacketArm (Ok \<lparr>rpb_stamp = fe_instant fenv, rpb_batch = batch\<rparr>), env) \<in> set es \<and>
         clean_batch k (su_forwarding su) (env_lookup env) batch r" by blast
    moreover from rpb(2) have "length (response_packets r) \<in> {1..arg_validator_packet_batch_size a}"
      by (cases "response_packets r") (auto simp: clean_batch_def su(2))
    ultimately show ?thesis by blast
  qed
  with env c(2,3) show ?thesis by blast
qed

text \<open>One batch is received at instant 0 and released 60 milliseconds later.\<close>

definition demo_pipeline :: "(nat \<times> forwarder_env) list" where
  "demo_pipeline = [(0, demo_fenv (Received (rpb_batch demo_rpb)) 0), (0, demo_fenv RecvTimeout 60000000)]"

lemma demo_pipeline_runs:
  "case run_loop (forwarder_step chan_ops demo_fcfg)
      (start_forward_and_delay_thread chan_ops (chan_new 1) 1 (\<lambda>_. (100000, None)) (\<lambda>_. 0)) demo_pipeline of
     Ok f \<Rightarrow> map (fst \<circ> snd) (delayed_out (fwd_shared f)) = [demo_rpb] | _ \<Rightarrow> False"
  by (simp add: forwarder_eval demo_pipeline_def demo_rpb_def)

theorem pipeline_end_to_end_witness:
  "\<exists>su f s c' c env new. startup demo_bind Some (Some (V4 0x0A000001)) demo_files [] demo_args = Ok su \<and>
     run_loop (forwarder_step chan_ops (su_forwarder su))
       (start_forward_and_delay_thread chan_ops (chan_new 1) 1 (\<lambda>_. (100000, None)) (\<lambda>_. 0)) demo_pipeline = Ok f \<and>
     run_event_loop demo_sdk chan_ops demo_loop_config demo_events = Ok s \<and> hm_get (packet_subscriptions s) 7 = Some c' \<and>
     (SubscriptionArm (Ok (ValidatorPacketSubscription 7 c)), env) \<in> set demo_events \<and> ch_log c' = ch_log c @ new \<and>
     (\<forall>r\<in>set new. is_heartbeat r \<or> length (response_packets r) \<in> {1..arg_validator_packet_batch_size demo_args})"
proof -
  from demo_args_startup obtain su where
    su: "startup demo_bind Some (Some (V4 0x0A000001)) demo_files [] demo_args = Ok su" "su_forwarding su = demo_fwd_config"
    by (auto split: result.splits)
  then have fcfg: "su_forwarder su = demo_fcfg"
    by (auto simp: startup_def demo_args_def args_default_def demo_fcfg_def rust_simps split: if_splits)
  from demo_pipeline_runs obtain f where
    f: "run_loop (forwarder_step chan_ops (su_forwarder su))
       (start_forward_and_delay_thread chan_ops (chan_new 1) 1 (\<lambda>_. (100000, None)) (\<lambda>_. 0)) demo_pipeline = Ok f"
      "map (fst \<circ> snd) (delayed_out (fwd_shared f)) = [demo_rpb]" by (auto simp: fcfg split: result.splits)
  obtain s where s: "run_event_loop demo_sdk chan_ops demo_loop_config demo_events = Ok s"
    "connected_validators (packet_subscriptions s) = [7]" by (rule demo_run)
  then obtain c' where c': "hm_get (packet_subscriptions s) 7 = Some c'"
    by (cases "packet_subscriptions s") (auto simp: connected_validators_def hm_keys_def hm_get_def)
  have cfg: "fwd_config demo_loop_config = su_forwarding su" by (simp add: demo_loop_config_def su)
  have pre: "prefix (delayed_batches demo_events) (map (fst \<circ> snd) (delayed_out (fwd_shared f)))"
    by (simp add: f delayed_batches_def demo_events_def map_filter_simps)
  from pipeline_end_to_end [OF su(1) f(1) cfg bounded_chan.mpsc_sender_axioms s(1) c' pre] su(1) f(1) s(1) c'
  show ?thesis by blast
qed

text \<open>An iteration in which every batch of the thread is due, and which can send, releases all of them.\<close>

lemma received_batches_append: "received_batches tid (es @ fs) = received_batches tid es @ received_batches tid fs"
  by (induction tid es rule: received_batches.induct) simp_all

text \<open>
  A batch that is due is released by the next iteration: the batches before it in the buffer are older, so they are
  due as well. Younger ones may stay.
\<close>

lemma forwarder_releases:
  fixes ops n caps starts be
  defines "f0 \<equiv> start_forward_and_delay_thread ops be n caps starts"
  assumes "run_loop (forwarder_step ops cfg) f0 es = Ok f" "tid < unat n" "fe_recv env \<noteq> RecvDisconnected"
    and "\<forall>q. fst (try_send ops (forwarder_shared.be_sender (fwd_shared f)) q) \<noteq> SendClosed" "\<forall>i. fe_relayer_alive env i"
    and "sorted (map rpb_stamp (received_batches tid (es @ [(tid, env)])))"
    and "b \<in> set (received_batches tid (es @ [(tid, env)]))"
      "\<forall>j. packet_delay cfg \<le> elapsed (fe_clock env j) (rpb_stamp b)"
  shows "\<exists>f'. run_loop (forwarder_step ops cfg) f0 (es @ [(tid, env)]) = Ok f' \<and> b \<in> set (released tid (fwd_shared f'))"
proof -
  let ?sh = "fwd_shared f" and ?t = "fwd_threads f ! tid"
  have start: "length (fwd_threads f0) = unat n" "released tid (fwd_shared f0) = []"
    "buffered_packet_batches (fwd_threads f0 ! tid) = []"
    using assms(3) by (simp_all add: f0_def start_forward_and_delay_thread_def released_def)
  have fifo: "length (fwd_threads g) = unat n"
    "released tid (fwd_shared g) @ buffered_packet_batches (fwd_threads g ! tid) = received_batches tid fs"
    if "run_loop (forwarder_step ops cfg) f0 fs = Ok g" for fs g
    using forwarder_run_fifo [OF that, of tid] start assms(3) by simp_all
  have "offer_outcome ops cfg env (forwarder_shared.be_sender ?sh) \<noteq> Some SendClosed"
    using assms(5) by (auto simp: offer_outcome_def split: recv_timeout.splits if_splits)
  then obtain sh t where it: "forwarder_iteration ops cfg tid env ?sh ?t = Ok (sh, t)"
    using forwarder_iteration_panics [of ops cfg tid env ?sh ?t] forwarder_iteration_counts(3) [OF refl, of ops cfg tid env ?sh ?t] assms(4,6)
    by (cases "forwarder_iteration ops cfg tid env ?sh ?t") auto
  let ?f = "f\<lparr>fwd_shared := sh, fwd_threads := (fwd_threads f)[tid := t]\<rparr>"
  have "forwarder_step ops cfg f (tid, env) = Ok ?f"
    using it fifo(1) [OF assms(2)] assms(3) by (simp add: forwarder_step_def)
  then have run: "run_loop (forwarder_step ops cfg) f0 (es @ [(tid, env)]) = Ok ?f"
    using assms(2) by (simp add: run_loop_append)
  have all: "released tid sh @ buffered_packet_batches t = received_batches tid (es @ [(tid, env)])"
    using fifo(2) [OF run] fifo(1) [OF assms(2)] assms(3) by simp
  have "b \<in> set (released tid sh)"
  proof (rule ccontr)
    assume "b \<notin> set (released tid sh)"
    with assms(8) have b: "b \<in> set (buffered_packet_batches t)" by (auto simp: all [symmetric])
    then obtain h bs where h: "buffered_packet_batches t = h # bs" by (cases "buffered_packet_batches t") auto
    from it obtain t1 :: forwarder_thread and m out where
      "drain_delayed cfg env 0 (buffered_packet_batches t1) (fwd_metrics t1) = Ok (buffered_packet_batches t, m, out)"
      by (auto simp: forwarder_iteration_def rust_simps)
    from drain_delayed_Ok [OF this] h obtain j where "elapsed (fe_clock env j) (rpb_stamp h) < packet_delay cfg" by auto
    moreover have "rpb_stamp h \<le> rpb_stamp b"
      using assms(7) b unfolding all [symmetric] by (auto simp: h sorted_append)
    then have "elapsed (fe_clock env j) (rpb_stamp b) \<le> elapsed (fe_clock env j) (rpb_stamp h)" by (simp add: elapsed_def)
    moreover have "packet_delay cfg \<le> elapsed (fe_clock env j) (rpb_stamp b)" using assms(9) by blast
    ultimately show False by simp
  qed
  with run show ?thesis by (intro exI [of _ ?f]) simp
qed

lemma delay_packet_step_delivers:
  assumes "mpsc_sender ops accepted" "relayer_inv s" "validator_packet_batch_size (fwd_config cfg) \<noteq> 0"
    and "hm_get (packet_subscriptions s) pk = Some c" "forward_all (fwd_config cfg) \<or> pk \<in> set (slot_leaders s)"
    and "list_all (\<lambda>r. r = SendOk)
      (fst (send_seq ops c (responses (env_clock env) 0 pk (proto_batches k (fwd_config cfg) (env_lookup env) (rpb_batch b)))))"
  shows "\<exists>s' c' new. relayer_step k ops cfg s (DelayPacketArm (Ok b), env) = Ok s' \<and>
    hm_get (packet_subscriptions s') pk = Some c' \<and> accepted c' = accepted c @ new \<and>
    concat (map response_packets new) = eligible_packets k (ofac_addresses (fwd_config cfg)) (env_lookup env) (rpb_batch b)"
proof -
  let ?bs = "proto_batches k (fwd_config cfg) (env_lookup env) (rpb_batch b)"
  let ?ms = "responses (env_clock env) 0 pk ?bs"
  have "case relayer_step k ops cfg s (DelayPacketArm (Ok b), env) of
      Ok _ \<Rightarrow> True | Err _ \<Rightarrow> False | Panic \<Rightarrow> False"
    using relayer_step_outcome [where arm = "DelayPacketArm (Ok b)" and k = k and ops = ops and lcfg = cfg and l = s and env = env] assms(3)
    by (auto simp: is_ok_def split: result.splits)
  then obtain s' where s': "relayer_step k ops cfg s (DelayPacketArm (Ok b), env) = Ok s'"
    by (auto split: result.splits)
  then obtain t where t: "delay_packet_arm k ops cfg env s (Ok b) = Ok t"
    "packet_subscriptions s' = packet_subscriptions t" by (rule relayer_step_Ok) (simp add: run_arm_def)
  have inv: "hm_inv (packet_subscriptions s)" "distinct (slot_leaders s)" using assms(2) by (auto simp: relayer_inv_def)
  have T: "pk \<in> set (select_senders (forward_all (fwd_config cfg)) (packet_subscriptions s) (slot_leaders s))"
    using assms(4,5) select_senders_wf(3) [OF inv] by auto
  have "deliveries ops (env_clock env) 0 ?bs (packet_subscriptions s) pk = send_seq ops c ?ms"
    using assms(4) by (simp add: deliveries_def)
  with delay_packet_arm_subscriptions [OF t(1) assms(2), of pk] T t(2) assms(6)
  have "hm_get (packet_subscriptions s') pk = Some (snd (send_seq ops c ?ms))"
    by (auto simp: Let_def list_all_iff)
  moreover have "concat (map response_packets ?ms) =
      eligible_packets k (ofac_addresses (fwd_config cfg)) (env_lookup env) (rpb_batch b)"
    using assms(3) by (simp add: concat_responses concat_proto_batches)
  ultimately show ?thesis using s' mpsc_sender.accepted_send_seq_all [OF assms(1,6)] by blast
qed

text \<open>
  C10: packets arrive. Let a forwarding thread have received a batch, and let its next iteration come when this batch
  has waited for the packet delay of the command line, while its channels are connected; the thread may hold other
  batches and receive a new one in this very iteration, and its clock is monotonic, so that it stamps batches in the
  order in which it receives them. Then the batch goes to the event loop; and when the event loop takes it, every validator that is a target then and whose
  channel has room gets, in order and each once, exactly the packets of the batch that are not marked to be
  discarded, are convertible and are not OFAC-related.
\<close>

theorem pipeline_delivers:
  assumes "startup bind local_port lookup files sched a = Ok su" "arg_validator_packet_batch_size a \<noteq> 0"
    and "run_loop (forwarder_step fops (su_forwarder su)) (start_forward_and_delay_thread fops be n caps starts) fes = Ok f"
    and "tid < unat n" "b \<in> set (received_batches tid (fes @ [(tid, fenv)]))" "fe_recv fenv \<noteq> RecvDisconnected"
    and "\<forall>q. fst (try_send fops (forwarder_shared.be_sender (fwd_shared f)) q) \<noteq> SendClosed" "\<forall>i. fe_relayer_alive fenv i"
    and "sorted (map rpb_stamp (received_batches tid (fes @ [(tid, fenv)])))"
      "\<forall>j. from_millis (unat (arg_packet_delay_ms a)) \<le> elapsed (fe_clock fenv j) (rpb_stamp b)"
    and "fwd_config cfg = su_forwarding su" "mpsc_sender ops accepted" "run_event_loop k ops cfg es = Ok s"
    and "hm_get (packet_subscriptions s) pk = Some c" "arg_forward_all a \<or> pk \<in> set (slot_leaders s)"
    and "list_all (\<lambda>r. r = SendOk)
      (fst (send_seq ops c (responses (env_clock env) 0 pk (proto_batches k (su_forwarding su) (env_lookup env) (rpb_batch b)))))"
  shows "(\<exists>f' at. run_loop (forwarder_step fops (su_forwarder su)) (start_forward_and_delay_thread fops be n caps starts)
        (fes @ [(tid, fenv)]) = Ok f' \<and> (tid, b, at) \<in> set (delayed_out (fwd_shared f'))) \<and>
    (\<exists>s' c' new. run_event_loop k ops cfg (es @ [(DelayPacketArm (Ok b), env)]) = Ok s' \<and>
       hm_get (packet_subscriptions s') pk = Some c' \<and> accepted c' = accepted c @ new \<and>
       concat (map response_packets new) = eligible_packets k (ofac_addresses_of a) (env_lookup env) (rpb_batch b))"
proof
  have su: "packet_delay (su_forwarder su) = from_millis (unat (arg_packet_delay_ms a))"
    "validator_packet_batch_size (su_forwarding su) = arg_validator_packet_batch_size a"
    "forward_all (su_forwarding su) = arg_forward_all a" "ofac_addresses (su_forwarding su) = ofac_addresses_of a"
    using assms(1) by (auto simp: startup_def packet_delay_def rust_simps split: if_splits)
  from forwarder_releases [OF assms(3,4,6-9,5), unfolded su, OF assms(10)] obtain f' where
    f': "run_loop (forwarder_step fops (su_forwarder su)) (start_forward_and_delay_thread fops be n caps starts)
        (fes @ [(tid, fenv)]) = Ok f'" "b \<in> set (released tid (fwd_shared f'))" by blast
  then show "\<exists>f' at. run_loop (forwarder_step fops (su_forwarder su)) (start_forward_and_delay_thread fops be n caps starts)
        (fes @ [(tid, fenv)]) = Ok f' \<and> (tid, b, at) \<in> set (delayed_out (fwd_shared f'))"
    by (auto simp: released_def)
  have run: "run_loop (relayer_step k ops cfg) (relayer_init cfg) es = Ok s"
    using assms(13) by (simp add: run_event_loop_def)
  have "relayer_inv s" by (rule relayer_loop.run_inv [OF relayer_inv_init _ run]) (simp add: list_all_iff)
  from delay_packet_step_delivers [OF assms(12) this, where cfg = cfg and k = k and env = env and b = b, unfolded assms(11) su,
      OF assms(2,14-16)] run
  show "\<exists>s' c' new. run_event_loop k ops cfg (es @ [(DelayPacketArm (Ok b), env)]) = Ok s' \<and>
       hm_get (packet_subscriptions s') pk = Some c' \<and> accepted c' = accepted c @ new \<and>
       concat (map response_packets new) = eligible_packets k (ofac_addresses_of a) (env_lookup env) (rpb_batch b)"
    by (auto simp: run_event_loop_def run_loop_append)
qed

text \<open>Validator 7 subscribes and leads slot 40; the batch was received at instant 0, and after 60 milliseconds another
  one comes in.\<close>

definition demo_delivery :: "(subscribe_packets_response chan relayer_arm \<times> loop_env) list" where
  "demo_delivery = [(SubscriptionArm (Ok (ValidatorPacketSubscription 7 demo_chan)), demo_env Healthy),
     (SlotArm (Ok 40), demo_env Healthy)]"

lemma demo_delivery_runs:
  "case run_event_loop demo_sdk chan_ops demo_loop_config demo_delivery of
     Ok s \<Rightarrow> hm_get (packet_subscriptions s) 7 = Some demo_chan \<and> 7 \<in> set (slot_leaders s) | _ \<Rightarrow> False"
  "case run_loop (forwarder_step chan_ops demo_fcfg)
      (start_forward_and_delay_thread chan_ops (chan_new 1) 1 (\<lambda>_. (100000, None)) (\<lambda>_. 0)) (butlast demo_pipeline) of
     Ok f \<Rightarrow> \<forall>q. fst (try_send chan_ops (forwarder_shared.be_sender (fwd_shared f)) q) \<noteq> SendClosed | _ \<Rightarrow> False"
proof -
  show "case run_event_loop demo_sdk chan_ops demo_loop_config demo_delivery of
     Ok s \<Rightarrow> hm_get (packet_subscriptions s) 7 = Some demo_chan \<and> 7 \<in> set (slot_leaders s) | _ \<Rightarrow> False"
    by (simp add: run_event_loop_def demo_delivery_def relayer_step_def subscription_arm_def handle_subscription_def
        slot_arm_def update_highest_slot_def relayer_init_def relayer_metrics_new_def hm_get_def u64_range_def
        leaders_for_slots_def upt_rec demo_defs relayer_eval)
  show "case run_loop (forwarder_step chan_ops demo_fcfg)
      (start_forward_and_delay_thread chan_ops (chan_new 1) 1 (\<lambda>_. (100000, None)) (\<lambda>_. 0)) (butlast demo_pipeline) of
     Ok f \<Rightarrow> \<forall>q. fst (try_send chan_ops (forwarder_shared.be_sender (fwd_shared f)) q) \<noteq> SendClosed | _ \<Rightarrow> False"
    by (simp add: forwarder_eval demo_pipeline_def)
qed

theorem pipeline_delivers_witness:
  "\<exists>su s' c' new. startup demo_bind Some (Some (V4 0x0A000001)) demo_files [] demo_args = Ok su \<and>
     run_event_loop demo_sdk chan_ops demo_loop_config (demo_delivery @ [(DelayPacketArm (Ok demo_rpb), demo_env Healthy)]) = Ok s' \<and>
     hm_get (packet_subscriptions s') 7 = Some c' \<and> ch_log c' = ch_log demo_chan @ new \<and>
     concat (map response_packets new) = eligible_packets demo_sdk {2} (\<lambda>_. None) (rpb_batch demo_rpb)"
proof -
  let ?fenv = "demo_fenv (Received [[]]) 60000000"
  from demo_args_startup obtain su where
    su: "startup demo_bind Some (Some (V4 0x0A000001)) demo_files [] demo_args = Ok su" "su_forwarding su = demo_fwd_config"
    by (auto split: result.splits)
  then have fcfg: "su_forwarder su = demo_fcfg"
    by (auto simp: startup_def demo_args_def args_default_def demo_fcfg_def rust_simps split: if_splits)
  from demo_delivery_runs obtain s f where
    s: "run_event_loop demo_sdk chan_ops demo_loop_config demo_delivery = Ok s"
      "hm_get (packet_subscriptions s) 7 = Some demo_chan" "7 \<in> set (slot_leaders s)"
    and f: "run_loop (forwarder_step chan_ops (su_forwarder su))
        (start_forward_and_delay_thread chan_ops (chan_new 1) 1 (\<lambda>_. (100000, None)) (\<lambda>_. 0)) (butlast demo_pipeline) = Ok f"
      "\<forall>q. fst (try_send chan_ops (forwarder_shared.be_sender (fwd_shared f)) q) \<noteq> SendClosed"
    by (auto simp: fcfg split: result.splits)
  have recv: "received_batches 0 (butlast demo_pipeline @ [(0, ?fenv)]) =
      [demo_rpb, \<lparr>rpb_stamp = 60000000, rpb_batch = [[]]\<rparr>]"
    by (simp add: demo_pipeline_def demo_fenv_def demo_rpb_def)
  have args: "arg_validator_packet_batch_size demo_args \<noteq> 0" "fwd_config demo_loop_config = su_forwarding su"
    "arg_packet_delay_ms demo_args = 50" "ofac_addresses_of demo_args = {2}"
    by (simp_all add: demo_args_def args_default_def demo_loop_config_def su ofac_addresses_of_def)
  have env: "fe_recv ?fenv \<noteq> RecvDisconnected" "\<forall>i. fe_relayer_alive ?fenv i" "env_lookup (demo_env Healthy) = (\<lambda>_. None)"
    by (simp_all add: demo_fenv_def demo_env_def)
  have due: "sorted (map rpb_stamp (received_batches 0 (butlast demo_pipeline @ [(0, ?fenv)])))"
    "\<forall>j. from_millis (unat (arg_packet_delay_ms demo_args)) \<le> elapsed (fe_clock ?fenv j) (rpb_stamp demo_rpb)"
    unfolding recv by (simp_all add: args demo_rpb_def demo_fenv_def elapsed_def from_millis_def)
  have ok: "list_all (\<lambda>r. r = SendOk) (fst (send_seq chan_ops demo_chan (responses (env_clock (demo_env Healthy)) 0 7
      (proto_batches demo_sdk (su_forwarding su) (env_lookup (demo_env Healthy)) (rpb_batch demo_rpb)))))"
    unfolding su by (simp add: demo_defs relayer_eval proto_batches_def)
  have b: "demo_rpb \<in> set (received_batches 0 (butlast demo_pipeline @ [(0, ?fenv)]))" "0 < unat (1 :: u64)"
    unfolding recv by simp_all
  from pipeline_delivers [OF su(1) args(1) f(1) b(2) b(1) env(1) f(2) env(2) due args(2) bounded_chan.mpsc_sender_axioms
      s(1,2) disjI2 [OF s(3)] ok] su(1)
  show ?thesis unfolding args(4) env(3) by blast
qed

section \<open>Who is served\<close>

text \<open>
  A call of \<open>subscribe_packets\<close> as \<open>main\<close> serves it: the service is wrapped in the interceptor, which expects RS256
  and hands the key it finds in the token to the handler.
\<close>

definition serve_subscription ::
  "sdk \<Rightarrow> chrono \<Rightarrow> crypto \<Rightarrow> health_state \<Rightarrow> auth_header \<Rightarrow> 's \<Rightarrow> bool \<Rightarrow> ('s subscription, status) result" where
  "serve_subscription k ch cr health header sender sent =
     and_then (auth_interceptor_call k ch cr Rs256 header) (\<lambda>pk. subscribe_packets health (Some pk) sender sent)"

lemma serve_subscription_Ok:
  "serve_subscription k ch cr health header sender sent = Ok sub \<longleftrightarrow>
     (\<exists>pk. auth_interceptor_call k ch cr Rs256 header = Ok pk \<and> health = Healthy \<and> sent \<and>
        sub = ValidatorPacketSubscription pk sender)"
  by (auto simp: serve_subscription_def subscribe_packets_def check_health_def ok_or_def rust_simps split: if_splits)

text \<open>
  Subscriptions reach the event loop only through \<open>serve_subscription\<close>, from requests whose token the service issued.
\<close>

definition subscriptions_served ::
  "sdk \<Rightarrow> chrono \<Rightarrow> crypto \<Rightarrow> 'q auth_state \<Rightarrow> ('s relayer_arm \<times> loop_env) list \<Rightarrow> bool" where
  "subscriptions_served k ch cr au es \<longleftrightarrow>
     (\<forall>pk c env. (SubscriptionArm (Ok (ValidatorPacketSubscription pk c)), env) \<in> set es \<longrightarrow>
        (\<exists>health tok. tok \<in> fst ` set (issued au) \<and>
           serve_subscription k ch cr health (HeaderText (BEARER @ tok)) c True = Ok (ValidatorPacketSubscription pk c)))"

text \<open>
  C5: only approved validators are served. Let the authentication service, under any interleaving of requests,
  decide with the validator store that \<open>main\<close> derives from the arguments (\<open>sched\<close> is the leader schedule at a
  request), and let subscriptions reach the event loop through the interceptor with tokens the service issued.
  Then every validator that is connected after any run of the event loop is on the list of allowed validators, if
  one is given, and otherwise was in the leader schedule when it asked for a challenge; and in either case it has
  proved the possession of its key: a token request carried a signature, valid for this key, of the key's text with a
  challenge that the service had drawn for this key and the same address.
\<close>

theorem only_approved_validators:
  assumes "auth_service qops content q0 k ch cr" "auth_reachable k ch cr acfg qops q0 au"
    and "\<forall>(env, req)\<in>set (challenge_log au). ce_is_authorized env = is_authorized (validator_store_of a (sched env))"
    and "run_event_loop k ops cfg es = Ok s" "subscriptions_served k ch cr au es"
  shows "\<forall>pk\<in>set (connected_validators (packet_subscriptions s)).
    (case arg_allowed_validators a of
       Some allowed \<Rightarrow> pk \<in> set allowed
     | None \<Rightarrow> \<exists>(env, req)\<in>set (challenge_log au).
         pubkey_try_from k (cr_pubkey req) = Some pk \<and> is_scheduled_validator (sched env) pk) \<and>
    (\<exists>ip. proved k cr au ip pk)"
proof
  fix pk assume pk: "pk \<in> set (connected_validators (packet_subscriptions s))"
  have run: "run_loop (relayer_step k ops cfg) (relayer_init cfg) es = Ok s"
    using assms(4) by (simp add: run_event_loop_def)
  have "dom (hm_get (packet_subscriptions s)) \<subseteq> subscribed es"
    using relayer_run_connected [OF run relayer_inv_init] by (simp add: relayer_init_def dom_def)
  moreover have "relayer_inv s" by (rule relayer_loop.run_inv [OF relayer_inv_init _ run]) (simp add: list_all_iff)
  ultimately have "pk \<in> subscribed es"
    using pk hm.set_keys [of "packet_subscriptions s"] by (auto simp: connected_validators_def relayer_inv_def)
  with assms(5) obtain tok where tok: "tok \<in> fst ` set (issued au)"
    "auth_interceptor_call k ch cr Rs256 (HeaderText (BEARER @ tok)) = Ok pk"
    unfolding subscribed_def subscriptions_served_def serve_subscription_Ok by blast
  then obtain c where c: "(tok, c) \<in> set (issued au)" by auto
  have "good_token k ch cr au tok c" "client_pubkey c = pk"
    using auth_service.issued_token_provenance [OF assms(1,2) c] tok(2) by simp_all
  then have v: "vouched k au (client_ip c) pk" "proved k cr au (client_ip c) pk" by (auto simp: good_token_def)
  then obtain env req where env: "(env, req) \<in> set (challenge_log au)" "ce_is_authorized env pk"
    "pubkey_try_from k (cr_pubkey req) = Some pk" by (auto simp: vouched_def)
  with assms(3) have "is_authorized (validator_store_of a (sched env)) pk" by fastforce
  with env(1,3) v(2) show "(case arg_allowed_validators a of
       Some allowed \<Rightarrow> pk \<in> set allowed
     | None \<Rightarrow> \<exists>(env, req)\<in>set (challenge_log au).
         pubkey_try_from k (cr_pubkey req) = Some pk \<and> is_scheduled_validator (sched env) pk) \<and>
    (\<exists>ip. proved k cr au ip pk)"
    by (auto simp: is_authorized_def validator_store_of_def split: option.splits)
qed

definition demo_subscriber :: "(subscribe_packets_response chan relayer_arm \<times> loop_env) list" where
  "demo_subscriber = [(SubscriptionArm (Ok (ValidatorPacketSubscription 3 demo_chan)), demo_env Healthy)]"

lemma demo_subscriber_run:
  "case run_event_loop demo_sdk chan_ops demo_loop_config demo_subscriber of
     Ok s \<Rightarrow> connected_validators (packet_subscriptions s) = [3] | _ \<Rightarrow> False"
  by (simp add: run_event_loop_def demo_subscriber_def relayer_step_def subscription_arm_def handle_subscription_def
      relayer_init_def relayer_metrics_new_def connected_validators_def demo_defs relayer_eval)

theorem only_approved_validators_witness:
  "\<exists>au s. auth_reachable demo_sdk demo_chrono demo_crypto demo_auth_config alist_queue_ops [] au \<and>
     run_event_loop demo_sdk chan_ops demo_loop_config demo_subscriber = Ok s \<and>
     connected_validators (packet_subscriptions s) = [3] \<and> (\<exists>ip. proved demo_sdk demo_crypto au ip 3)"
proof -
  let ?a = "demo_args\<lparr>arg_allowed_validators := Some [3]\<rparr>"
  obtain au tok where au: "auth_reachable demo_sdk demo_chrono demo_crypto demo_auth_config alist_queue_ops [] au"
    "(tok, access_claims (demo_challenge 0)) \<in> set (issued au)"
    "challenge_log au = [(demo_challenge_env 0, demo_challenge_request)]" using demo_auth_run by blast
  from demo_subscriber_run obtain s where
    s: "run_event_loop demo_sdk chan_ops demo_loop_config demo_subscriber = Ok s"
      "connected_validators (packet_subscriptions s) = [3]" by (auto split: result.splits)
  have auther: "\<forall>(env, req)\<in>set (challenge_log au). ce_is_authorized env = is_authorized (validator_store_of ?a [])"
    by (simp add: au demo_challenge_env_def is_authorized_def validator_store_of_def fun_eq_iff)
  have "auth_interceptor_call demo_sdk demo_chrono demo_crypto Rs256 (HeaderText (BEARER @ tok)) = Ok 3"
    using auth_service.issued_token_provenance(2) [OF demo_auth.auth_service_axioms au(1,2)] by (simp add: demo_challenge_def)
  with au(2) have served: "subscriptions_served demo_sdk demo_chrono demo_crypto au demo_subscriber"
    by (force simp: subscriptions_served_def demo_subscriber_def serve_subscription_Ok)
  have "\<exists>ip. proved demo_sdk demo_crypto au ip 3"
    using only_approved_validators [OF demo_auth.auth_service_axioms au(1) auther s(1) served] s(2) by simp
  with au(1) s show ?thesis by blast
qed

section \<open>The status endpoints\<close>

text \<open>The web server that \<open>main\<close> starts: its address, and the router over the cells of the health manager, the block engine handler and the event loop.\<close>

definition main_web ::
  "sdk \<Rightarrow> 'sock relayer_setup \<Rightarrow> health_state \<Rightarrow> bool \<Rightarrow> 's packet_subscriptions \<Rightarrow> (ip_addr \<times> u16) \<times> relayer_router" where
  "main_web k su health connected subs =
     (su_web_addr su,
      build_relayer_router k (relayer_state_new health connected subs) MAX_BUFFERED_REQUESTS REQUESTS_PER_SECOND)"

text \<open>
  C36: what \<open>/health\<close> and \<open>/status\<close> say of a running relayer. After the health manager's last check, \<open>/health\<close> answers
  "ok" exactly if that check found the last slot recent enough and the last value that the block engine handler
  stored in the connection flag is true; a relayer that was started without a block engine, or with the
  mempool disabled, is therefore reported as unhealthy for ever. \<open>/status\<close> lists only validators that subscribed.
\<close>

theorem web_health_ok:
  assumes "startup bind local_port lookup files sched a = Ok su"
    and "run_loop (health_step thr) (health_manager_new start) (es @ (CheckTick t, n) # fs) = Ok h"
    and "list_all (\<lambda>e. \<not> is_check e) fs"
    and "prefix stores (fst (be_handler_new (su_block_engine su) bcfg sessions))"
    and "run_event_loop k ops cfg res = Ok s"
  defines "web \<equiv> map_of (web_routes (snd (main_web k su (health_state_cell h) (last (False # stores)) (packet_subscriptions s))))"
  shows "(web ''/health'' = Some (TextBody ''ok'') \<longleftrightarrow>
      elapsed t (last_slot_time start es) \<le> thr \<and> stores \<noteq> [] \<and> last stores) \<and>
    (arg_disable_mempool a \<or> arg_block_engine_url a = None \<longrightarrow> web ''/health'' = Some (TextBody ''unhealthy'')) \<and>
    (\<exists>st. web ''/status'' = Some (JsonBody st) \<and> set (st_validators_connected st) \<subseteq> pubkey_to_string k ` subscribed res)"
proof (intro conjI impI)
  let ?st = "relayer_state_new (health_state_cell h) (last (False # stores)) (packet_subscriptions s)"
  have web: "web ''/health'' = Some (TextBody (get_health ?st))" "web ''/status'' = Some (JsonBody (get_status k ?st))"
    by (simp_all add: web_def main_web_def build_relayer_router_def)
  show "web ''/health'' = Some (TextBody ''ok'') \<longleftrightarrow>
      elapsed t (last_slot_time start es) \<le> thr \<and> stores \<noteq> [] \<and> last stores"
    using health_after_check [OF assms(2,3)] by (simp add: web get_health_def relayer_state_new_def Let_def)
  show "web ''/health'' = Some (TextBody ''unhealthy'')" if "arg_disable_mempool a \<or> arg_block_engine_url a = None"
  proof -
    have "su_block_engine su = None"
      using that assms(1) by (auto simp: startup_def block_engine_config_of_def rust_simps split: if_splits)
    with assms(4) have "stores = []" by (simp add: be_handler_new_def)
    then show ?thesis by (simp add: web get_health_def relayer_state_new_def)
  qed
  have run: "run_loop (relayer_step k ops cfg) (relayer_init cfg) res = Ok s"
    using assms(5) by (simp add: run_event_loop_def)
  have "relayer_inv s" by (rule relayer_loop.run_inv [OF relayer_inv_init _ run]) (simp add: list_all_iff)
  then have "set (hm_keys (packet_subscriptions s)) \<subseteq> subscribed res"
    using relayer_run_connected [OF run relayer_inv_init] hm.set_keys [of "packet_subscriptions s"]
    by (simp add: relayer_init_def dom_def relayer_inv_def)
  then show "\<exists>st. web ''/status'' = Some (JsonBody st) \<and> set (st_validators_connected st) \<subseteq> pubkey_to_string k ` subscribed res"
    by (auto simp: web get_status_def relayer_state_new_def connected_validators_def)
qed

theorem web_health_ok_witness:
  "\<exists>su h s. startup demo_bind Some (Some (V4 0x0A000001)) demo_files [] engine_args = Ok su \<and>
     run_loop (health_step 50) (health_manager_new 0) [(SlotRecv (Ok 40) True 100, 1), (CheckTick 150, 0)] = Ok h \<and>
     run_event_loop demo_sdk chan_ops demo_loop_config demo_events = Ok s \<and>
     map_of (web_routes (snd (main_web demo_sdk su (health_state_cell h) (last (False # [False, True]))
       (packet_subscriptions s)))) ''/health'' = Some (TextBody ''ok'') \<and>
     map_of (web_routes (snd (main_web demo_sdk su (health_state_cell h) (last (False # [False, True, False]))
       (packet_subscriptions s)))) ''/health'' \<noteq> Some (TextBody ''ok'')"
proof -
  from engine_args_startup obtain su where
    su: "startup demo_bind Some (Some (V4 0x0A000001)) demo_files [] engine_args = Ok su"
      "su_block_engine su = Some (''http://engine'', ''http://engine'')" by (auto split: result.splits)
  obtain h where h: "run_loop (health_step 50) (health_manager_new 0)
      ([(SlotRecv (Ok 40) True 100, 1)] @ (CheckTick 150, 0) # []) = Ok h"
    by (simp add: health_step_def health_arm_step_def)
  obtain s where s: "run_event_loop demo_sdk chan_ops demo_loop_config demo_events = Ok s"
    "connected_validators (packet_subscriptions s) = [7]" by (rule demo_run)
  have "be_handler demo_be_config demo_sessions =
     ([False, True, False, True, False], [from_secs 2, from_secs 2], Ok ())"
    by (simp add: demo_sessions_def demo_attempts)
  then have p: "prefix [False, True] (fst (be_handler_new (su_block_engine su) demo_be_config demo_sessions))"
    "prefix [False, True, False] (fst (be_handler_new (su_block_engine su) demo_be_config demo_sessions))"
    by (simp_all add: su be_handler_new_def)
  have c: "list_all (\<lambda>e. \<not> is_check e) []" by simp
  show ?thesis
    using su(1) h s(1) web_health_ok [OF su(1) h c p(1) s(1)] web_health_ok [OF su(1) h c p(2) s(1)]
    by (intro exI [of _ su] exI [of _ h] exI [of _ s]) (simp add: elapsed_def)
qed

end
